(* ===== verification/Kanz_Prelude.thy ===== *)
theory Kanz_Prelude
  imports Complex_Main "HOL-Library.Word" "HOL-Library.Signed_Division"
begin

text \<open>
  Shared vocabulary of the development: Go's fixed-width integers as words read by \<^const>\<open>sint\<close>,
  instants, results of fallible operations, and the generic lemmas on powers of ten, truncating
  division and folds that the component theories use.

  \<^item> \<open>*big.Int\<close> is \<^typ>\<open>int\<close> and \<open>*big.Rat\<close> is \<^typ>\<open>rat\<close>: both are exact in Go.
  \<^item> \<open>big.Int.QuoRem\<close> truncates towards zero, which is \<open>sdiv\<close> and \<open>smod\<close>.
  \<^item> a \<open>time.Time\<close> is the number of nanoseconds since Go's zero time, so \<open>IsZero\<close> is \<open>= 0\<close>,
    \<open>Before\<close>/\<open>After\<close>/\<open>Equal\<close> are the order of \<^typ>\<open>int\<close>, and \<open>UTC()\<close>, which only changes the
    location attached to an instant, is the identity.
  \<^item> a Go string is its byte sequence, a \<^typ>\<open>string\<close>.
  \<^item> a pointer that may be nil is an \<open>option\<close>; an operation that may return an error returns a sum
    with the error on the left.
\<close>

section \<open>Types\<close>

type_synonym i64 = "64 word"
type_synonym i32 = "32 word"
type_synonym instant = int
type_synonym duration = int

text \<open>
  A protobuf \<open>Timestamp\<close>: \<open>CheckValid\<close> bounds it to the years 1 to 9999, and \<open>AsTime\<close> is
  \<open>time.Unix(seconds, nanos)\<close>, which carries whole seconds out of the nanoseconds and adds the offset
  from year 1 to 1970 in 64 bits. A nil timestamp is the epoch.
\<close>

record Timestamp =
  ts_seconds :: i64
  ts_nanos :: i32

definition unixToInternal :: int where
  "unixToInternal = 62135596800"

definition AsTime :: "Timestamp option \<Rightarrow> instant" where
  "AsTime ts =
     (case ts of
        None \<Rightarrow> unixToInternal * 1000000000
      | Some t \<Rightarrow>
          let n = sint (ts_nanos t);
              s = sint (ts_seconds t + word_of_int (n div 1000000000) + word_of_int unixToInternal)
          in s * 1000000000 + n mod 1000000000)"

definition CheckValid :: "Timestamp option \<Rightarrow> bool" where
  "CheckValid ts =
     (case ts of
        None \<Rightarrow> False
      | Some t \<Rightarrow> -62135596800 \<le> sint (ts_seconds t) \<and> sint (ts_seconds t) \<le> 253402300799
          \<and> 0 \<le> sint (ts_nanos t) \<and> sint (ts_nanos t) < 1000000000)"

text \<open>\<open>time.Time.Unix\<close>: whole seconds since 1970.\<close>

definition Unix :: "instant \<Rightarrow> int" where
  "Unix t = t div 1000000000 - unixToInternal"

named_theorems word_range
named_theorems pow10

section \<open>Fixed-width integers\<close>

lemma sint_i64_ge [word_range]: "- 9223372036854775808 \<le> sint (x :: i64)"
  using sint_ge [of x] by simp

lemma sint_i64_le [word_range]: "sint (x :: i64) \<le> 9223372036854775807"
  using sint_lt [of x] by simp

lemma sint_i32_ge [word_range]: "- 2147483648 \<le> sint (x :: i32)"
  using sint_ge [of x] by simp

lemma sint_i32_le [word_range]: "sint (x :: i32) \<le> 2147483647"
  using sint_lt [of x] by simp

lemma sint_of_i64:
  assumes "- 9223372036854775808 \<le> x" and "x \<le> 9223372036854775807"
  shows "sint (word_of_int x :: i64) = x"
  using assms by (simp add: signed_of_int signed_take_bit_int_eq_self)

lemma sint_of_i32:
  assumes "- 2147483648 \<le> x" and "x \<le> 2147483647"
  shows "sint (word_of_int x :: i32) = x"
  using assms by (simp add: signed_of_int signed_take_bit_int_eq_self)

section \<open>Truncating division by a positive divisor\<close>

lemma sdiv_bounds:
  fixes a b :: int
  assumes "0 < b"
  shows "\<bar>a smod b\<bar> < b"
    and "0 \<le> a \<Longrightarrow> 0 \<le> a smod b" and "a \<le> 0 \<Longrightarrow> a smod b \<le> 0"
  using assms by (auto simp: signed_modulo_int_def abs_mult sgn_if)

lemma sdiv_nonneg:
  fixes a b :: int
  assumes "0 < b" and "0 \<le> a"
  shows "a sdiv b = a div b" and "a smod b = a mod b"
  using assms by (auto simp: signed_divide_int_def signed_modulo_int_def sgn_if)

lemma sdiv_minus:
  fixes a b :: int
  assumes "0 < b"
  shows "(- a) sdiv b = - (a sdiv b)" and "(- a) smod b = - (a smod b)"
  using assms by (auto simp: signed_divide_int_def signed_modulo_int_def sgn_if)

section \<open>Event machines\<close>

text \<open>
  A component that takes commands or events one at a time and refuses some of them: a refused event
  leaves the state as it was. \<open>run_events\<close> folds a history, \<open>accepted\<close> lists what was not refused.
\<close>

definition next_state :: "('s \<Rightarrow> 'e \<Rightarrow> 'r + 's) \<Rightarrow> 's \<Rightarrow> 'e \<Rightarrow> 's" where
  "next_state app s e = (case app s e of Inl _ \<Rightarrow> s | Inr s' \<Rightarrow> s')"

fun run_events :: "('s \<Rightarrow> 'e \<Rightarrow> 'r + 's) \<Rightarrow> 's \<Rightarrow> 'e list \<Rightarrow> 's" where
  "run_events app s [] = s"
| "run_events app s (e # es) = run_events app (next_state app s e) es"

fun accepted :: "('s \<Rightarrow> 'e \<Rightarrow> 'r + 's) \<Rightarrow> 's \<Rightarrow> 'e list \<Rightarrow> 'e list" where
  "accepted app s [] = []"
| "accepted app s (e # es) =
     (case app s e of Inl _ \<Rightarrow> accepted app s es | Inr s' \<Rightarrow> e # accepted app s' es)"

text \<open>An invariant of the accepted events of a given kind holds along every history of that kind.\<close>

locale event_invariant =
  fixes app :: "'s \<Rightarrow> 'e \<Rightarrow> 'r + 's"
    and admissible :: "'e \<Rightarrow> bool"
    and inv :: "'s \<Rightarrow> bool"
  assumes inv_event: "inv s \<Longrightarrow> admissible e \<Longrightarrow> app s e = Inr s' \<Longrightarrow> inv s'"
begin

lemma inv_next: "inv s \<Longrightarrow> admissible e \<Longrightarrow> inv (next_state app s e)"
  by (auto simp: next_state_def intro: inv_event split: sum.split)

lemma inv_run: "inv s \<Longrightarrow> list_all admissible es \<Longrightarrow> inv (run_events app s es)"
  by (induction es arbitrary: s) (auto intro: inv_next)

end

text \<open>A state that refuses every event is where every history from it ends.\<close>

locale terminal_machine =
  fixes app :: "'s \<Rightarrow> 'e \<Rightarrow> 'r + 's"
    and terminal :: "'s \<Rightarrow> bool"
  assumes terminal_refuses: "terminal s \<Longrightarrow> \<exists>r. app s e = Inl r"
begin

lemma terminal_next: "terminal s \<Longrightarrow> next_state app s e = s"
  using terminal_refuses [of s e] by (auto simp: next_state_def)

lemma terminal_run: "terminal s \<Longrightarrow> run_events app s es = s"
  by (induction es) (auto simp: terminal_next)

lemma terminal_accepts_nothing: "terminal s \<Longrightarrow> accepted app s es = []"
proof (induction es)
  case (Cons e es)
  then show ?case using terminal_refuses [of s e] by auto
qed simp

end

text \<open>A quantity every accepted event moves by its own amount is the sum over the accepted events.\<close>

locale event_sum = event_invariant app admissible inv
  for app :: "'s \<Rightarrow> 'e \<Rightarrow> 'r + 's" and admissible inv +
  fixes amount_of :: "'e \<Rightarrow> rat"
    and total :: "'s \<Rightarrow> rat"
  assumes total_event: "inv s \<Longrightarrow> admissible e \<Longrightarrow> app s e = Inr s' \<Longrightarrow> total s' = total s + amount_of e"
begin

lemma total_run:
  "inv s \<Longrightarrow> list_all admissible es \<Longrightarrow>
   total (run_events app s es) = total s + sum_list (map amount_of (accepted app s es))"
proof (induction es arbitrary: s)
  case (Cons e es)
  show ?case
  proof (cases "app s e")
    case (Inl r)
    then show ?thesis using Cons by (simp add: next_state_def)
  next
    case (Inr s')
    then have "inv s'" "total s' = total s + amount_of e"
      using Cons.prems inv_event total_event by auto
    then show ?thesis using Cons Inr by (simp add: next_state_def)
  qed
qed simp

end

end
