(* ===== verification/Decimal.thy ===== *)
theory Decimal
  imports Kanz_Prelude
begin

text \<open>
  The exact-decimal package \<open>internal/dec\<close> over the wire type \<open>common.v1.Decimal\<close>
  (\<open>dec.go\<close>, \<open>arith.go\<close>). A decimal is a 64-bit coefficient and a 32-bit exponent; a nil
  \<open>*commonpb.Decimal\<close> is \<open>None\<close>. The mathematical value of a decimal is \<open>dval\<close>; the operations
  are shown to compute it exactly, or to round it within a stated distance, or to refuse.
\<close>

section \<open>Data\<close>

record decimal =
  coefficient :: i64
  exponent :: i32

text \<open>The generated getters: the zero value on a nil message.\<close>

definition get_coefficient :: "decimal option \<Rightarrow> int" where
  "get_coefficient d = (case d of None \<Rightarrow> 0 | Some x \<Rightarrow> sint (coefficient x))"

definition get_exponent :: "decimal option \<Rightarrow> int" where
  "get_exponent d = (case d of None \<Rightarrow> 0 | Some x \<Rightarrow> sint (exponent x))"

definition zero_decimal :: decimal where
  "zero_decimal = \<lparr>coefficient = 0, exponent = 0\<rparr>"

record money =
  amount :: "decimal option"
  currency_code :: string

section \<open>Conversions\<close>

definition scale :: nat where
  "scale = 8"

definition maxSafeExponent :: int where
  "maxSafeExponent = 64"

text \<open>
  \<open>FromProto\<close> negates the exponent as an \<open>int32\<close> before widening it, and \<open>big.Int.Exp\<close> with a
  nil modulus returns 1 when the power is not positive: both are in \<open>nat (sint (- e))\<close>.
\<close>

definition FromProto :: "decimal option \<Rightarrow> rat" where
  "FromProto d =
     (case d of None \<Rightarrow> 0
      | Some x \<Rightarrow>
          let coeff = sint (coefficient x); e = exponent x in
          if 0 \<le> sint e then of_int (coeff * 10 ^ nat (sint e))
          else of_int coeff / of_int (10 ^ nat (sint (- e))))"

definition InDomain :: "decimal option \<Rightarrow> bool" where
  "InDomain d =
     (case d of None \<Rightarrow> True
      | Some x \<Rightarrow> - maxSafeExponent \<le> sint (exponent x) \<and> sint (exponent x) \<le> maxSafeExponent)"

definition FromProtoChecked :: "decimal option \<Rightarrow> rat option" where
  "FromProtoChecked d = (if \<not> InDomain d then None else Some (FromProto d))"

datatype dec_error = ErrCurrencyMismatch

definition MoneyIn :: "money option \<Rightarrow> string \<Rightarrow> dec_error + rat" where
  "MoneyIn m currency =
     (let amt = FromProto (case m of None \<Rightarrow> None | Some x \<Rightarrow> amount x) in
      if sgn amt = 0 then Inr amt
      else if (case m of None \<Rightarrow> [] | Some x \<Rightarrow> currency_code x) \<noteq> currency then Inl ErrCurrencyMismatch
      else Inr amt)"

definition scaledCoefficient :: "rat \<Rightarrow> int" where
  "scaledCoefficient r =
     (let num = fst (quotient_of r); den = snd (quotient_of r);
          scaledNum = num * 10 ^ scale;
          q = scaledNum sdiv den; rem = scaledNum smod den;
          twice = \<bar>rem\<bar> * 2
      in if \<bar>den\<bar> \<le> twice then (if r < 0 then q - 1 else q + 1) else q)"

definition ToProto :: "rat \<Rightarrow> decimal" where
  "ToProto r = \<lparr>coefficient = word_of_int (scaledCoefficient r), exponent = - word_of_int (int scale)\<rparr>"

section \<open>Rescaling\<close>

definition IsInt64 :: "int \<Rightarrow> bool" where
  "IsInt64 x \<longleftrightarrow> - 9223372036854775808 \<le> x \<and> x \<le> 9223372036854775807"

abbreviation MaxInt32 :: int where
  "MaxInt32 \<equiv> 2147483647"

abbreviation MinInt32 :: int where
  "MinInt32 \<equiv> - 2147483648"

abbreviation MinInt64 :: int where
  "MinInt64 \<equiv> - 9223372036854775808"

text \<open>One digit dropped, half-up away from zero: the body of the loop of \<open>fit\<close>.\<close>

definition drop_digit :: "int \<Rightarrow> int" where
  "drop_digit coeff =
     (let q = coeff sdiv 10; rem = coeff smod 10 in
      if 5 \<le> \<bar>rem\<bar> then (if rem < 0 then q - 1 else q + 1) else q)"

function fit :: "int \<Rightarrow> int \<Rightarrow> decimal option" where
  "fit coeff e =
     (if \<not> IsInt64 coeff \<or> e > MaxInt32 then
        if e \<ge> MaxInt32 then None else fit (drop_digit coeff) (e + 1)
      else Some \<lparr>coefficient = word_of_int coeff, exponent = word_of_int e\<rparr>)"
  by pat_completeness auto
termination
  by (relation "measure (\<lambda>(coeff, e). nat (MaxInt32 - e))") auto

declare fit.simps [simp del]

definition ToProtoScaled :: "rat option \<Rightarrow> decimal option" where
  "ToProtoScaled r =
     (case r of None \<Rightarrow> Some zero_decimal | Some x \<Rightarrow> fit (scaledCoefficient x) (- int scale))"

section \<open>Sign and comparison\<close>

definition sign :: "decimal option \<Rightarrow> int" where
  "sign d = (let c = get_coefficient d in if c > 0 then 1 else if c < 0 then - 1 else 0)"

definition IsPositive :: "decimal option \<Rightarrow> bool" where
  "IsPositive d \<longleftrightarrow> sign d > 0"

definition IsZero :: "decimal option \<Rightarrow> bool" where
  "IsZero d \<longleftrightarrow> sign d = 0"

text \<open>\<open>big.Int.Cmp\<close>, and the length of the decimal rendering of a non-negative integer.\<close>

definition bigCmp :: "'a::linorder \<Rightarrow> 'a \<Rightarrow> int" where
  "bigCmp a b = (if a < b then - 1 else if a = b then 0 else 1)"

fun dec_len :: "nat \<Rightarrow> nat" where
  "dec_len n = (if n < 10 then 1 else Suc (dec_len (n div 10)))"

declare dec_len.simps [simp del]

definition cmpMagnitude :: "decimal option \<Rightarrow> decimal option \<Rightarrow> int" where
  "cmpMagnitude a b =
     (let ca = \<bar>get_coefficient a\<bar>; cb = \<bar>get_coefficient b\<bar>;
          ea = get_exponent a; eb = get_exponent b;
          orderA = int (dec_len (nat ca)) + ea; orderB = int (dec_len (nat cb)) + eb
      in if orderA \<noteq> orderB then (if orderA < orderB then - 1 else 1)
         else bigCmp (if ea > eb then ca * 10 ^ nat (ea - eb) else ca)
                     (if eb > ea then cb * 10 ^ nat (eb - ea) else cb))"

definition Cmp :: "decimal option \<Rightarrow> decimal option \<Rightarrow> int" where
  "Cmp a b =
     (let sa = sign a; sb = sign b in
      if sa \<noteq> sb then (if sa < sb then - 1 else 1)
      else if sa = 0 then 0
      else if sa < 0 then - cmpMagnitude a b
      else cmpMagnitude a b)"

section \<open>Arithmetic\<close>

definition alignWindow :: int where
  "alignWindow = 40"

definition AlignExponent :: "int \<Rightarrow> int \<Rightarrow> int" where
  "AlignExponent expA expB =
     (let lo = (if expB < expA then expB else expA); hi = (if expB < expA then expA else expB)
      in if hi - alignWindow > lo then hi - alignWindow else lo)"

text \<open>The closure \<open>scale\<close> of \<open>Add\<close>: one operand moved to the alignment exponent.\<close>

definition align :: "int \<Rightarrow> int \<Rightarrow> int \<Rightarrow> int" where
  "align e c dexp =
     (let gap = dexp - e in
      if gap = 0 then c
      else if gap > 0 then c * 10 ^ nat gap
      else if - gap \<ge> 19 then 0
      else c sdiv 10 ^ nat (- gap))"

definition dec_Add :: "decimal option \<Rightarrow> decimal option \<Rightarrow> decimal option" where
  "dec_Add a b =
     (let ca = get_coefficient a; cb = get_coefficient b;
          ea = get_exponent a; eb = get_exponent b;
          expA = (if ca = 0 then eb else ea);
          expB = (if ca \<noteq> 0 \<and> cb = 0 then ea else eb);
          e = AlignExponent expA expB
      in fit (align e ca expA + align e cb expB) e)"

definition dec_Mul :: "decimal option \<Rightarrow> decimal option \<Rightarrow> decimal option" where
  "dec_Mul a b =
     (case (a, b) of
        (Some x, Some y) \<Rightarrow>
          let coeff = sint (coefficient x) * sint (coefficient y);
              e = sint (exponent x) + sint (exponent y)
          in if e < MinInt32 then None else fit coeff e
      | _ \<Rightarrow> Some zero_decimal)"

definition dec_Abs :: "decimal option \<Rightarrow> decimal option" where
  "dec_Abs d =
     (case d of None \<Rightarrow> Some zero_decimal
      | Some x \<Rightarrow>
          let c = coefficient x; e = exponent x in
          if sint c \<ge> 0 then Some \<lparr>coefficient = c, exponent = e\<rparr>
          else if sint c \<noteq> MinInt64 then Some \<lparr>coefficient = - c, exponent = e\<rparr>
          else fit \<bar>sint c\<bar> (sint e))"

section \<open>Mathematical value\<close>

definition dval :: "decimal \<Rightarrow> rat" where
  "dval d = of_int (sint (coefficient d)) * 10 powi sint (exponent d)"

definition dvalue :: "decimal option \<Rightarrow> rat" where
  "dvalue d = (case d of None \<Rightarrow> 0 | Some x \<Rightarrow> dval x)"

text \<open>The exponents \<open>Add\<close> compares, after a zero operand has given up its own, and the one it aligns to.\<close>

definition Add_expA :: "decimal option \<Rightarrow> decimal option \<Rightarrow> int" where
  "Add_expA a b = (if get_coefficient a = 0 then get_exponent b else get_exponent a)"

definition Add_expB :: "decimal option \<Rightarrow> decimal option \<Rightarrow> int" where
  "Add_expB a b = (if get_coefficient a \<noteq> 0 \<and> get_coefficient b = 0 then get_exponent a else get_exponent b)"

definition Add_exp :: "decimal option \<Rightarrow> decimal option \<Rightarrow> int" where
  "Add_exp a b = AlignExponent (Add_expA a b) (Add_expB a b)"

section \<open>Conversion and value\<close>

lemma dvalue_simps [simp]: "dvalue None = 0" "dvalue (Some x) = dval x"
  by (simp_all add: dvalue_def)

lemma dvalue_get: "dvalue d = of_int (get_coefficient d) * 10 powi get_exponent d"
  by (cases d) (simp_all add: dval_def get_coefficient_def get_exponent_def)

lemma sint_minus_i32: "sint (x :: i32) \<noteq> MinInt32 \<Longrightarrow> sint (- x) = - sint x"
  using sint_i32_ge [of x] sint_i32_le [of x]
  by (simp add: sint_word_ariths(4) signed_take_bit_int_eq_self)

lemma FromProto_dvalue:
  assumes "get_exponent d \<noteq> MinInt32"
  shows "FromProto d = dvalue d"
proof (cases d)
  case None
  then show ?thesis by (simp add: FromProto_def)
next
  case (Some x)
  with assms have "sint (exponent x) \<noteq> MinInt32" by (simp add: get_exponent_def)
  then have "sint (- exponent x) = - sint (exponent x)" by (rule sint_minus_i32)
  then show ?thesis
    by (simp add: Some FromProto_def dval_def Let_def power_int_def power_one_over)
qed

lemma FromProto_MinInt32:
  "sint (exponent x) = MinInt32 \<Longrightarrow> FromProto (Some x) = of_int (sint (coefficient x))"
proof -
  assume h: "sint (exponent x) = MinInt32"
  have "exponent x = word_of_int (sint (exponent x))" by simp
  then have "exponent x = word_of_int MinInt32" by (simp only: h)
  then have "sint (- exponent x) = MinInt32" by simp
  with h show ?thesis by (simp add: FromProto_def)
qed

section \<open>Rescaling\<close>

lemma drop_digit_minus: "drop_digit (- c) = - drop_digit c"
  by (auto simp: drop_digit_def Let_def sdiv_minus)

lemma half_up_div: "(if 5 \<le> c mod 10 then c div 10 + 1 else c div 10) = (c + 5) div (10 :: int)"
proof -
  obtain q r where c: "c = 10 * q + r" and r: "0 \<le> r" "r < 10"
    using that [of "c div 10" "c mod 10"] by simp
  have "c div 10 = q" and "c mod 10 = r"
    using c r by (auto intro: int_div_pos_eq int_mod_pos_eq)
  moreover have "5 \<le> r \<Longrightarrow> (c + 5) div 10 = q + 1"
    using c r by (intro int_div_pos_eq [where r = "r - 5"]) auto
  moreover have "\<not> 5 \<le> r \<Longrightarrow> (c + 5) div 10 = q"
    using c r by (intro int_div_pos_eq [where r = "r + 5"]) auto
  ultimately show ?thesis by simp
qed

lemma drop_digit_nonneg: "0 \<le> c \<Longrightarrow> drop_digit c = (c + 5) div 10"
proof -
  assume "0 \<le> c"
  then have "drop_digit c = (if 5 \<le> c mod 10 then c div 10 + 1 else c div 10)"
    by (simp add: drop_digit_def Let_def sdiv_nonneg)
  also have "\<dots> = (c + 5) div 10"
    by (rule half_up_div)
  finally show ?thesis .
qed

lemma drop_digit_error: "\<bar>10 * drop_digit c - c\<bar> \<le> 5"
proof (cases "0 \<le> c")
  case True
  then show ?thesis by (simp add: drop_digit_nonneg)
next
  case False
  then have "\<bar>10 * drop_digit (- c) - (- c)\<bar> \<le> 5"
    by (simp add: drop_digit_nonneg)
  then show ?thesis by (simp add: drop_digit_minus)
qed

lemma drop_digit_sgn: "10 \<le> \<bar>c\<bar> \<Longrightarrow> sgn (drop_digit c) = sgn c"
  using drop_digit_error [of c] by (auto simp: sgn_if)

lemma dval_fit_exact:
  "IsInt64 c \<Longrightarrow> MinInt32 \<le> e \<Longrightarrow> e \<le> MaxInt32 \<Longrightarrow>
   fit c e = Some \<lparr>coefficient = word_of_int c, exponent = word_of_int e\<rparr>"
  by (simp add: fit.simps)

lemma triangle_step:
  fixes a b v E P :: rat
  assumes "\<bar>a - b\<bar> \<le> 5 * P" and "\<bar>v - a\<bar> \<le> 5 / 9 * (E - 10 * P)"
  shows "\<bar>v - b\<bar> \<le> 5 / 9 * (E - P)"
proof -
  have "\<bar>v - b\<bar> \<le> \<bar>v - a\<bar> + \<bar>a - b\<bar>" by linarith
  also have "\<dots> \<le> 5 / 9 * (E - 10 * P) + 5 * P" using assms by (rule add_mono [rotated])
  also have "\<dots> = 5 / 9 * (E - P)" by (simp add: field_simps)
  finally show ?thesis .
qed

lemma fit_sound:
  assumes "fit c e = Some d" and "MinInt32 \<le> e"
  shows "e \<le> sint (exponent d)
    \<and> \<bar>dval d - of_int c * 10 powi e\<bar> \<le> 5 / 9 * (10 powi sint (exponent d) - 10 powi e)
    \<and> sgn (dval d) = sgn (of_int c)"
  using assms
proof (induction c e rule: fit.induct)
  case (1 c e)
  show ?case
  proof (cases "IsInt64 c \<and> e \<le> MaxInt32")
    case True
    then have "d = \<lparr>coefficient = word_of_int c, exponent = word_of_int e\<rparr>"
      using 1 by (simp add: fit.simps)
    moreover have "sint (word_of_int c :: i64) = c" using True by (auto simp: IsInt64_def intro: sint_of_i64)
    moreover have "sint (word_of_int e :: i32) = e" using True 1 by (auto intro: sint_of_i32)
    ultimately show ?thesis by (simp add: dval_def sgn_mult)
  next
    case False
    then have lt: "e < MaxInt32" and step: "fit (drop_digit c) (e + 1) = Some d"
      using "1.prems" by (auto simp: fit.simps [of c e] split: if_splits)
    from False lt have big: "10 \<le> \<bar>c\<bar>" by (auto simp: IsInt64_def)
    have IH: "e + 1 \<le> sint (exponent d)"
      "\<bar>dval d - of_int (drop_digit c) * 10 powi (e + 1)\<bar> \<le> 5 / 9 * (10 powi sint (exponent d) - 10 powi (e + 1))"
      "sgn (dval d) = sgn (of_int (drop_digit c))"
      using "1.IH" False lt step "1.prems" by auto
    define P where "P = (10 powi e :: rat)"
    have P: "0 < P" "10 powi (e + 1) = 10 * P" by (simp_all add: P_def power_int_add)
    have "\<bar>of_int (10 * drop_digit c - c)\<bar> \<le> (5 :: rat)"
      using drop_digit_error [of c] by linarith
    then have "\<bar>of_int (10 * drop_digit c - c)\<bar> * P \<le> 5 * P" using P by (intro mult_right_mono) auto
    moreover have "of_int (drop_digit c) * (10 * P) - of_int c * P = of_int (10 * drop_digit c - c) * P"
      by (simp add: algebra_simps)
    ultimately have "\<bar>of_int (drop_digit c) * (10 * P) - of_int c * P\<bar> \<le> 5 * P"
      using P by (simp only: abs_mult abs_of_pos)
    then have "\<bar>dval d - of_int c * P\<bar> \<le> 5 / 9 * (10 powi sint (exponent d) - P)"
      using IH(2) [unfolded P(2)] by (rule triangle_step)
    moreover have "sgn (dval d) = sgn (of_int c)"
      using IH(3) drop_digit_sgn [OF big] by (simp add: sgn_if split: if_splits)
    ultimately show ?thesis using IH(1) by (simp add: P_def)
  qed
qed

lemma fit_total:
  assumes "\<bar>c\<bar> \<le> 9 * 10 ^ (18 + k)" and "e + int k \<le> MaxInt32"
  shows "\<exists>d. fit c e = Some d"
  using assms
proof (induction k arbitrary: c e)
  case 0
  then show ?case by (auto simp: fit.simps [of c e] IsInt64_def)
next
  case (Suc k)
  show ?case
  proof (cases "IsInt64 c")
    case True
    then show ?thesis using Suc by (auto simp: fit.simps [of c e])
  next
    case False
    have "(10 :: int) ^ (18 + Suc k) = 10 * 10 ^ (18 + k)" by (simp only: add_Suc_right power_Suc)
    then have "\<bar>c\<bar> \<le> 10 * (9 * 10 ^ (18 + k))" using Suc.prems(1) by linarith
    then have "\<bar>drop_digit c\<bar> \<le> 9 * 10 ^ (18 + k)"
      using drop_digit_error [of c] by linarith
    then show ?thesis using Suc.IH [of "drop_digit c" "e + 1"] Suc.prems False
      by (auto simp: fit.simps [of c e])
  qed
qed

section \<open>Rounding to the fixed scale\<close>

lemma scaledCoefficient_minus: "scaledCoefficient (- r) = - scaledCoefficient r"
proof -
  obtain n d where q: "quotient_of r = (n, d)" by (cases "quotient_of r")
  then have d: "0 < d" and r: "r = of_int n / of_int d"
    using quotient_of_denom_pos quotient_of_div by blast+
  have m: "quotient_of (- r) = (- n, d)" using q by (simp add: rat_uminus_code)
  have "r = 0 \<longleftrightarrow> n = 0" using d r by simp
  then show ?thesis
    using d by (auto simp: scaledCoefficient_def Let_def q m sdiv_minus scale_def signed_divide_int_def signed_modulo_int_def)
qed

lemma scaledCoefficient_nonneg:
  assumes "0 \<le> r"
  shows "scaledCoefficient r = \<lfloor>r * 10 ^ 8 + 1 / 2\<rfloor>"
proof -
  obtain n d where q: "quotient_of r = (n, d)" by (cases "quotient_of r")
  then have d: "0 < d" and r: "r = of_int n / of_int d"
    using quotient_of_denom_pos quotient_of_div by blast+
  with assms have n: "0 \<le> n" by (simp add: zero_le_divide_iff)
  define N where "N = n * 10 ^ 8"
  obtain k m where N: "N = d * k + m" and m: "0 \<le> m" "m < d" and km: "k = N div d" "m = N mod d"
    using d by (metis mult_div_mod_eq pos_mod_bound pos_mod_sign)
  have "scaledCoefficient r = (if d \<le> m * 2 then k + 1 else k)"
    using assms d n m km by (simp add: scaledCoefficient_def Let_def q N_def scale_def sdiv_nonneg)
  moreover have "r * 10 ^ 8 = of_int k + of_int m / of_int d"
  proof -
    have "r * 10 ^ 8 = of_int N / of_int d" by (simp add: r N_def)
    also have "\<dots> = of_int k + of_int m / of_int d" using d by (simp add: N field_simps)
    finally show ?thesis .
  qed
  moreover have "0 \<le> (of_int m / of_int d :: rat)" "(of_int m / of_int d :: rat) < 1"
    using m d by (simp_all add: divide_simps)
  moreover define f where "f = (of_int m / of_int d :: rat)"
  moreover have "d \<le> m * 2 \<longleftrightarrow> 1 / 2 \<le> (of_int m / of_int d :: rat)"
  proof -
    have "1 / 2 \<le> (of_int m / of_int d :: rat) \<longleftrightarrow> (of_int d :: rat) \<le> of_int (m * 2)"
      using d by (simp add: divide_simps)
    then show ?thesis by (simp only: of_int_le_iff)
  qed
  ultimately have "scaledCoefficient r = (if 1 / 2 \<le> f then k + 1 else k)"
    "r * 10 ^ 8 = of_int k + f" "0 \<le> f" "f < 1" by (simp_all only:)
  then show ?thesis by (simp only:, intro floor_unique [symmetric]) (auto split: if_splits)
qed

lemma scaledCoefficient_cases:
  obtains "0 \<le> r" "scaledCoefficient r = \<lfloor>r * 10 ^ 8 + 1 / 2\<rfloor>"
  | "r < 0" "scaledCoefficient r = - \<lfloor>(- r) * 10 ^ 8 + 1 / 2\<rfloor>"
proof (cases "0 \<le> r")
  case True
  then show ?thesis using scaledCoefficient_nonneg that(1) by blast
next
  case False
  then have "scaledCoefficient (- r) = \<lfloor>(- r) * 10 ^ 8 + 1 / 2\<rfloor>"
    by (intro scaledCoefficient_nonneg) simp
  with False show ?thesis using that(2) by (simp add: scaledCoefficient_minus)
qed

lemma floor_half_error: "\<bar>of_int \<lfloor>x + 1 / 2\<rfloor> - x\<bar> \<le> (1 / 2 :: rat)"
proof -
  have "of_int \<lfloor>x + 1 / 2\<rfloor> \<le> x + 1 / 2" "x + 1 / 2 < of_int \<lfloor>x + 1 / 2\<rfloor> + 1"
    by (rule of_int_floor_le) (rule floor_correct [THEN conjunct2, simplified of_int_add of_int_1])
  then show ?thesis by (simp only: abs_le_iff) (auto simp: field_simps)
qed

lemma scaledCoefficient_error: "\<bar>of_int (scaledCoefficient r) - r * 10 ^ 8\<bar> \<le> 1 / 2"
proof (cases r rule: scaledCoefficient_cases)
  case 1
  then show ?thesis using floor_half_error [of "r * 10 ^ 8"] by (simp only:)
next
  case 2
  have "\<bar>of_int (scaledCoefficient r) - r * 10 ^ 8\<bar>
      = \<bar>of_int \<lfloor>(- r) * 10 ^ 8 + 1 / 2\<rfloor> - (- r) * 10 ^ 8\<bar>"
    unfolding 2(2) by (simp add: abs_if)
  then show ?thesis using floor_half_error [of "(- r) * 10 ^ 8"] by (simp only:)
qed

lemma scaledCoefficient_exact:
  assumes "r * 10 ^ 8 = of_int k"
  shows "scaledCoefficient r = k"
  using scaledCoefficient_error [of r] unfolding assms by linarith

lemma scaledCoefficient_sgn_nonneg: "0 \<le> r \<Longrightarrow> 0 \<le> scaledCoefficient r"
  by (simp add: scaledCoefficient_nonneg)

section \<open>Comparison\<close>

lemma dec_len_bounds: "0 < n \<Longrightarrow> 10 ^ (dec_len n - 1) \<le> n \<and> n < 10 ^ dec_len n \<and> 0 < dec_len n"
proof (induction n rule: dec_len.induct)
  case (1 n)
  show ?case
  proof (cases "n < 10")
    case True
    then show ?thesis using 1 by (simp add: dec_len.simps)
  next
    case False
    then have IH: "10 ^ (dec_len (n div 10) - 1) \<le> n div 10" "n div 10 < 10 ^ dec_len (n div 10)"
      "0 < dec_len (n div 10)" using 1 by auto
    define k where "k = dec_len (n div 10)"
    have len: "dec_len n = Suc k" using False by (simp add: k_def dec_len.simps [of n])
    have "10 * 10 ^ (k - 1) \<le> n" using IH(1) unfolding k_def [symmetric] by linarith
    moreover have "(10 :: nat) * 10 ^ (k - 1) = 10 ^ k" using IH(3) by (simp add: k_def power_eq_if)
    moreover have "n < 10 * 10 ^ k" using IH(2) unfolding k_def [symmetric] by linarith
    ultimately show ?thesis by (simp add: len)
  qed
qed

lemma powi10_add: "(10 powi (x + y) :: rat) = 10 powi x * 10 powi y"
  by (rule power_int_add) simp

lemma powi10_pos: "(0 :: rat) < 10 powi x"
  by simp

lemma dvalue_sign:
  "0 < dvalue d \<longleftrightarrow> 0 < get_coefficient d"
  "dvalue d < 0 \<longleftrightarrow> get_coefficient d < 0"
  "dvalue d = 0 \<longleftrightarrow> get_coefficient d = 0"
proof -
  define E where "E = (10 powi get_exponent d :: rat)"
  have "0 < E" and "dvalue d = of_int (get_coefficient d) * E" by (simp_all add: E_def dvalue_get)
  then show "0 < dvalue d \<longleftrightarrow> 0 < get_coefficient d"
    and "dvalue d < 0 \<longleftrightarrow> get_coefficient d < 0"
    and "dvalue d = 0 \<longleftrightarrow> get_coefficient d = 0"
    by (auto simp: zero_less_mult_iff mult_less_0_iff)
qed

lemma sign_sgn: "sign d = sgn (get_coefficient d)"
  by (simp add: sign_def Let_def sgn_if)

text \<open>The magnitude of a non-zero decimal lies in the decade its decimal order names.\<close>

lemma decade:
  assumes "get_coefficient d \<noteq> 0"
  shows "10 powi (int (dec_len (nat \<bar>get_coefficient d\<bar>)) + get_exponent d - 1) \<le> \<bar>dvalue d\<bar>"
    and "\<bar>dvalue d\<bar> < 10 powi (int (dec_len (nat \<bar>get_coefficient d\<bar>)) + get_exponent d)"
proof -
  define c where "c = nat \<bar>get_coefficient d\<bar>"
  define E where "E = (10 powi get_exponent d :: rat)"
  have c: "0 < c" and E: "0 < E" using assms by (simp_all add: c_def E_def)
  have v: "\<bar>dvalue d\<bar> = of_nat c * E" by (simp add: dvalue_get abs_mult c_def E_def)
  note b = dec_len_bounds [OF c]
  have "(of_nat (10 ^ (dec_len c - 1)) :: rat) \<le> of_nat c" "(of_nat c :: rat) < of_nat (10 ^ dec_len c)"
    using b by (simp_all only: of_nat_le_iff of_nat_less_iff)
  then have "of_nat (10 ^ (dec_len c - 1)) * E \<le> of_nat c * E" "of_nat c * E < of_nat (10 ^ dec_len c) * E"
    using E by (simp_all only: mult_le_cancel_right_pos mult_less_cancel_right_pos)
  moreover have "of_nat (10 ^ (dec_len c - 1)) * E = 10 powi (int (dec_len c) + get_exponent d - 1)"
  proof -
    have e: "int (dec_len c) + get_exponent d - 1 = int (dec_len c - 1) + get_exponent d" using b by simp
    show ?thesis unfolding e powi10_add E_def by simp
  qed
  moreover have "of_nat (10 ^ dec_len c) * E = 10 powi (int (dec_len c) + get_exponent d)"
    by (simp add: powi10_add E_def)
  ultimately show "10 powi (int (dec_len (nat \<bar>get_coefficient d\<bar>)) + get_exponent d - 1) \<le> \<bar>dvalue d\<bar>"
    and "\<bar>dvalue d\<bar> < 10 powi (int (dec_len (nat \<bar>get_coefficient d\<bar>)) + get_exponent d)"
    by (simp_all only: v c_def)
qed

lemma bigCmp_mult_right: "0 < k \<Longrightarrow> bigCmp (a * k) (b * k) = bigCmp a (b :: rat)"
  by (simp add: bigCmp_def)

lemma bigCmp_of_int: "bigCmp (of_int a) (of_int b :: rat) = bigCmp a b"
  by (simp add: bigCmp_def)

lemma powi_diff_mult: "e \<le> f \<Longrightarrow> (10 ^ nat (f - e)) * 10 powi e = (10 powi f :: rat)"
proof -
  assume "e \<le> f"
  then have "(10 powi f :: rat) = 10 powi (int (nat (f - e)) + e)" by simp
  then show ?thesis by (simp add: powi10_add del: int_nat_eq of_nat_diff)
qed

lemma cmpMagnitude_correct:
  assumes "get_coefficient a \<noteq> 0" and "get_coefficient b \<noteq> 0"
  shows "cmpMagnitude a b = bigCmp \<bar>dvalue a\<bar> \<bar>dvalue b\<bar>"
proof -
  define oa ob where "oa = int (dec_len (nat \<bar>get_coefficient a\<bar>)) + get_exponent a"
    and "ob = int (dec_len (nat \<bar>get_coefficient b\<bar>)) + get_exponent b"
  note da = decade [OF assms(1), folded oa_def] and db = decade [OF assms(2), folded ob_def]
  have up: "x < y \<Longrightarrow> (10 powi x :: rat) \<le> 10 powi (y - 1)" for x y
    by (intro power_int_increasing) auto
  consider "oa < ob" | "ob < oa" | "oa = ob" by linarith
  then show ?thesis
  proof cases
    case 1
    then have "\<bar>dvalue a\<bar> < \<bar>dvalue b\<bar>" using da(2) db(1) up [OF 1] by linarith
    then show ?thesis using 1 by (simp add: cmpMagnitude_def Let_def bigCmp_def oa_def ob_def)
  next
    case 2
    then have "\<bar>dvalue b\<bar> < \<bar>dvalue a\<bar>" using db(2) da(1) up [OF 2] by linarith
    then show ?thesis using 2 by (simp add: cmpMagnitude_def Let_def bigCmp_def oa_def ob_def)
  next
    case 3
    define ea eb where "ea = get_exponent a" and "eb = get_exponent b"
    define ca cb where "ca = \<bar>get_coefficient a\<bar>" and "cb = \<bar>get_coefficient b\<bar>"
    define K where "K = (10 powi (min ea eb) :: rat)"
    have va: "\<bar>dvalue a\<bar> = of_int (if ea > eb then ca * 10 ^ nat (ea - eb) else ca) * K"
      using powi_diff_mult [of eb ea]
      by (simp add: dvalue_get abs_mult K_def ea_def eb_def ca_def min_def mult.assoc)
    have vb: "\<bar>dvalue b\<bar> = of_int (if eb > ea then cb * 10 ^ nat (eb - ea) else cb) * K"
      using powi_diff_mult [of ea eb]
      by (simp add: dvalue_get abs_mult K_def ea_def eb_def cb_def min_def mult.assoc)
    have K: "0 < K" by (simp add: K_def)
    have "bigCmp \<bar>dvalue a\<bar> \<bar>dvalue b\<bar> = bigCmp (if ea > eb then ca * 10 ^ nat (ea - eb) else ca)
       (if eb > ea then cb * 10 ^ nat (eb - ea) else cb)"
      unfolding va vb bigCmp_mult_right [OF K] bigCmp_of_int ..
    then show ?thesis using 3
      by (simp only: cmpMagnitude_def Let_def oa_def ob_def ea_def eb_def ca_def cb_def)  simp
  qed
qed

lemma bigCmp_abs:
  "a < 0 \<Longrightarrow> b < 0 \<Longrightarrow> bigCmp a (b :: rat) = - bigCmp \<bar>a\<bar> \<bar>b\<bar>"
  by (simp add: bigCmp_def)

lemma Cmp_correct: "Cmp a b = bigCmp (dvalue a) (dvalue b)"
proof -
  have sg: "(dvalue d < 0) = (get_coefficient d < 0)" "(0 < dvalue d) = (0 < get_coefficient d)"
    "(dvalue d = 0) = (get_coefficient d = 0)" for d
    by (simp_all add: dvalue_sign)
  consider "sign a \<noteq> sign b" | "sign a = 0" "sign b = 0" | "get_coefficient a < 0" "get_coefficient b < 0"
    | "get_coefficient a > 0" "get_coefficient b > 0"
    unfolding sign_sgn by (cases "get_coefficient a" "0 :: int" rule: linorder_cases;
      cases "get_coefficient b" "0 :: int" rule: linorder_cases) auto
  then show ?thesis
  proof cases
    case 1
    then show ?thesis
      using sg [of a] sg [of b] by (auto simp: Cmp_def bigCmp_def sign_sgn sgn_if split: if_splits)
  next
    case 2
    then have "dvalue a = 0" "dvalue b = 0" using sg by (simp_all add: sign_sgn sgn_if split: if_splits)
    then show ?thesis using 2 by (simp add: Cmp_def bigCmp_def)
  next
    case 3
    then have "bigCmp (dvalue a) (dvalue b) = - bigCmp \<bar>dvalue a\<bar> \<bar>dvalue b\<bar>" using sg by (intro bigCmp_abs) auto
    then show ?thesis using 3 by (simp add: Cmp_def sign_sgn cmpMagnitude_correct)
  next
    case 4
    then have "dvalue a = \<bar>dvalue a\<bar>" "dvalue b = \<bar>dvalue b\<bar>" using sg [of a] sg [of b] by simp_all
    moreover have "Cmp a b = cmpMagnitude a b" using 4 by (simp add: Cmp_def sign_sgn)
    ultimately show ?thesis using 4 cmpMagnitude_correct [of a b] by simp
  qed
qed

lemma IsPositive_dvalue: "IsPositive d \<longleftrightarrow> 0 < dvalue d"
  by (simp add: IsPositive_def sign_sgn dvalue_sign sgn_if)

lemma IsZero_dvalue: "IsZero d \<longleftrightarrow> dvalue d = 0"
  by (simp add: IsZero_def sign_sgn dvalue_sign sgn_if)

section \<open>Arithmetic\<close>

lemma get_exponent_range: "MinInt32 \<le> get_exponent d" "get_exponent d \<le> MaxInt32"
  by (auto simp: get_exponent_def split: option.split intro: word_range)

lemma get_coefficient_abs: "\<bar>get_coefficient d\<bar> \<le> 9223372036854775808"
  using sint_i64_ge [of "coefficient (the d)"] sint_i64_le [of "coefficient (the d)"]
  by (auto simp: get_coefficient_def split: option.split)

lemma dval_zero_decimal [simp]: "dval zero_decimal = 0"
  by (simp add: dval_def zero_decimal_def)

lemma dval_mk:
  assumes "IsInt64 c" and "MinInt32 \<le> e" and "e \<le> MaxInt32"
  shows "dval \<lparr>coefficient = word_of_int c, exponent = word_of_int e\<rparr> = of_int c * 10 powi e"
  using assms by (simp add: dval_def sint_of_i64 sint_of_i32 IsInt64_def)

lemma fit_ulp:
  assumes "fit c e = Some d" and "MinInt32 \<le> e"
  shows "\<bar>dval d - of_int c * 10 powi e\<bar> \<le> 5 / 9 * 10 powi sint (exponent d)"
    and "sgn (dval d) = sgn (of_int c * 10 powi e)"
proof -
  note f = fit_sound [OF assms]
  then have "\<bar>dval d - of_int c * 10 powi e\<bar> \<le> 5 / 9 * (10 powi sint (exponent d) - 10 powi e)" by blast
  also have "\<dots> \<le> 5 / 9 * 10 powi sint (exponent d)" by simp
  finally show "\<bar>dval d - of_int c * 10 powi e\<bar> \<le> 5 / 9 * 10 powi sint (exponent d)" .
  show "sgn (dval d) = sgn (of_int c * 10 powi e)" using f by (simp add: sgn_mult)
qed

lemma fit_exact:
  assumes "fit c e = Some d" and "IsInt64 c" and "MinInt32 \<le> e" and "e \<le> MaxInt32"
  shows "dval d = of_int c * 10 powi e" and "sint (exponent d) = e" and "sint (coefficient d) = c"
  using assms by (auto simp: dval_fit_exact dval_mk sint_of_i32 sint_of_i64 IsInt64_def)

lemma dvalue_mult:
  "dvalue a * dvalue b = of_int (get_coefficient a * get_coefficient b) * 10 powi (get_exponent a + get_exponent b)"
  by (simp add: dvalue_get powi10_add)

lemma dec_Mul_fit:
  "dec_Mul (Some x) (Some y) =
     (if get_exponent (Some x) + get_exponent (Some y) < MinInt32 then None
      else fit (get_coefficient (Some x) * get_coefficient (Some y)) (get_exponent (Some x) + get_exponent (Some y)))"
  by (simp add: dec_Mul_def get_coefficient_def get_exponent_def Let_def)

lemma dec_Mul_sound:
  assumes "dec_Mul a b = Some d"
  shows "\<bar>dval d - dvalue a * dvalue b\<bar> \<le> 5 / 9 * 10 powi sint (exponent d)"
    and "sgn (dval d) = sgn (dvalue a * dvalue b)"
proof -
  consider "a = None \<or> b = None" | x y where "a = Some x" "b = Some y" by (cases a; cases b) auto
  then have "\<bar>dval d - dvalue a * dvalue b\<bar> \<le> 5 / 9 * 10 powi sint (exponent d)
    \<and> sgn (dval d) = sgn (dvalue a * dvalue b)"
  proof cases
    case 1
    then have "d = zero_decimal" using assms by (auto simp: dec_Mul_def split: option.splits)
    then show ?thesis using 1 by auto
  next
    case 2
    then have "fit (get_coefficient a * get_coefficient b) (get_exponent a + get_exponent b) = Some d"
      and "MinInt32 \<le> get_exponent a + get_exponent b"
      using assms by (auto simp: dec_Mul_fit split: if_splits)
    from fit_ulp [OF this] show ?thesis by (simp only: dvalue_mult)
  qed
  then show "\<bar>dval d - dvalue a * dvalue b\<bar> \<le> 5 / 9 * 10 powi sint (exponent d)"
    and "sgn (dval d) = sgn (dvalue a * dvalue b)" by auto
qed

lemma dec_Mul_exact:
  assumes "IsInt64 (get_coefficient a * get_coefficient b)"
    and "MinInt32 \<le> get_exponent a + get_exponent b" and "get_exponent a + get_exponent b \<le> MaxInt32"
  shows "\<exists>d. dec_Mul a b = Some d \<and> dval d = dvalue a * dvalue b"
proof (cases "a = None \<or> b = None")
  case True
  then have "dec_Mul a b = Some zero_decimal" by (auto simp: dec_Mul_def split: option.split)
  then show ?thesis using True by auto
next
  case False
  then have "dec_Mul a b = fit (get_coefficient a * get_coefficient b) (get_exponent a + get_exponent b)"
    using assms(2) by (auto simp: dec_Mul_fit)
  then show ?thesis using dval_fit_exact [OF assms] dval_mk [OF assms] by (metis dvalue_mult)
qed

lemma InDomain_exponent: "InDomain d \<Longrightarrow> \<bar>get_exponent d\<bar> \<le> 64"
  by (auto simp: InDomain_def get_exponent_def maxSafeExponent_def split: option.splits)

lemma dec_Mul_total:
  assumes "InDomain a" and "InDomain b"
  shows "\<exists>d. dec_Mul a b = Some d"
proof (cases "a = None \<or> b = None")
  case True
  then show ?thesis by (auto simp: dec_Mul_def split: option.split)
next
  case False
  have e: "\<bar>get_exponent a\<bar> \<le> 64" "\<bar>get_exponent b\<bar> \<le> 64" using assms InDomain_exponent by auto
  have "\<bar>get_coefficient a * get_coefficient b\<bar> \<le> 9223372036854775808 * 9223372036854775808"
    unfolding abs_mult by (intro mult_mono get_coefficient_abs) auto
  then have "\<bar>get_coefficient a * get_coefficient b\<bar> \<le> 9 * 10 ^ (18 + 20)" by simp
  from fit_total [OF this, of "get_exponent a + get_exponent b"] show ?thesis
    using e False by (auto simp: dec_Mul_fit)
qed

section \<open>Addition\<close>

lemma align_up: "e \<le> x \<Longrightarrow> of_int (align e c x) * 10 powi e = (of_int c * 10 powi x :: rat)"
  using powi_diff_mult [of e x] by (auto simp: align_def Let_def mult.assoc)

lemma align_nonneg: "0 \<le> c \<Longrightarrow> 0 \<le> align e c x"
  by (auto simp: align_def Let_def sdiv_nonneg pos_imp_zdiv_nonneg_iff)

lemma sdiv_error: "0 < b \<Longrightarrow> \<bar>c - (c sdiv b) * b\<bar> < (b :: int)"
  using sdiv_bounds(1) [of b c] minus_sdiv_mult_eq_smod [of c b] by simp

lemma align_down_int:
  assumes "x < e" and "\<bar>c\<bar> \<le> 9223372036854775808"
  shows "\<bar>c - align e c x * 10 ^ nat (e - x)\<bar> < 10 ^ nat (e - x)"
proof (cases "19 \<le> e - x")
  case True
  then have "(10 :: int) ^ 19 \<le> 10 ^ nat (e - x)" by (intro power_increasing) auto
  then have "\<bar>c\<bar> < 10 ^ nat (e - x)" using assms(2) by simp
  then show ?thesis using True assms(1) by (simp add: align_def)
next
  case False
  then show ?thesis using assms(1) sdiv_error [of "10 ^ nat (e - x)" c] by (simp add: align_def)
qed

lemma align_down:
  assumes "x < e" and "\<bar>c\<bar> \<le> 9223372036854775808"
  shows "\<bar>of_int (align e c x) * 10 powi e - of_int c * 10 powi x\<bar> < (10 powi e :: rat)"
proof -
  define K X where "K = (10 ^ nat (e - x) :: int)" and "X = (10 powi x :: rat)"
  have X: "0 < X" and KX: "of_int K * X = 10 powi e"
    using powi_diff_mult [of x e] assms(1) by (simp_all add: X_def K_def)
  have "of_int (align e c x) * 10 powi e - of_int c * X = - of_int (c - align e c x * K) * X"
    unfolding KX [symmetric] by (simp add: left_diff_distrib)
  then have "\<bar>of_int (align e c x) * 10 powi e - of_int c * X\<bar> = of_int \<bar>c - align e c x * K\<bar> * X"
    using X by (simp only: abs_mult abs_minus_cancel abs_of_pos of_int_abs)
  also have "\<dots> < of_int K * X"
    using align_down_int [OF assms] X by (simp only: K_def of_int_less_iff mult_less_cancel_right_pos)
  finally show ?thesis unfolding KX unfolding X_def .
qed

lemmas Add_exps = Add_expA_def Add_expB_def

lemma dec_Add_fit:
  "dec_Add a b = fit (align (Add_exp a b) (get_coefficient a) (Add_expA a b)
      + align (Add_exp a b) (get_coefficient b) (Add_expB a b)) (Add_exp a b)"
  by (simp add: dec_Add_def Let_def Add_exps Add_exp_def)

lemma dvalue_Add_exp:
  "dvalue a = of_int (get_coefficient a) * 10 powi Add_expA a b"
  "dvalue b = of_int (get_coefficient b) * 10 powi Add_expB a b"
  by (simp_all add: dvalue_get Add_exps)

lemma AlignExponent_eq: "AlignExponent x y = max (min x y) (max x y - 40)"
  by (simp add: AlignExponent_def Let_def alignWindow_def min_def max_def)

lemma AlignExponent_cases:
  obtains "AlignExponent x y = min x y" "\<bar>x - y\<bar> \<le> 40"
  | "AlignExponent x y = max x y - 40" "min x y < AlignExponent x y"
proof (cases "\<bar>x - y\<bar> \<le> 40")
  case True
  then show ?thesis using that(1) by (auto simp: AlignExponent_eq)
next
  case False
  then show ?thesis using that(2) by (auto simp: AlignExponent_eq)
qed

lemma Add_exp_range: "MinInt32 \<le> Add_exp a b" "Add_exp a b \<le> MaxInt32"
  using get_exponent_range [of a] get_exponent_range [of b]
  by (auto simp: Add_exp_def Add_exps AlignExponent_def Let_def alignWindow_def)

lemma dec_Add_window:
  assumes "\<bar>Add_expA a b - Add_expB a b\<bar> \<le> 40"
  shows "of_int (align (Add_exp a b) (get_coefficient a) (Add_expA a b)
      + align (Add_exp a b) (get_coefficient b) (Add_expB a b)) * 10 powi Add_exp a b = dvalue a + dvalue b"
proof -
  have "Add_exp a b = min (Add_expA a b) (Add_expB a b)"
    using assms by (auto simp: Add_exp_def AlignExponent_def Let_def alignWindow_def)
  then show ?thesis
    unfolding of_int_add distrib_right by (subst align_up align_up, simp)+ (simp add: dvalue_Add_exp(1) [of a b] dvalue_Add_exp(2) [of b a])
qed

lemma dec_Add_clamp:
  shows "\<bar>of_int (align (Add_exp a b) (get_coefficient a) (Add_expA a b)
      + align (Add_exp a b) (get_coefficient b) (Add_expB a b)) * 10 powi Add_exp a b - (dvalue a + dvalue b)\<bar>
      \<le> 10 powi Add_exp a b"
proof (cases "Add_expA a b" "Add_expB a b" rule: AlignExponent_cases)
  case 1
  then show ?thesis unfolding dec_Add_window [OF 1(2)] by simp
next
  case 2
  let ?e = "Add_exp a b" and ?A = "Add_expA a b" and ?B = "Add_expB a b"
  define E where "E = (10 powi ?e :: rat)"
  have one: "of_int (align ?e (get_coefficient a) ?A) * E = dvalue a \<and>
      \<bar>of_int (align ?e (get_coefficient b) ?B) * E - dvalue b\<bar> < E
    \<or> of_int (align ?e (get_coefficient b) ?B) * E = dvalue b \<and>
      \<bar>of_int (align ?e (get_coefficient a) ?A) * E - dvalue a\<bar> < E"
  proof (cases "?A \<le> ?B")
    case True
    then have "?A < ?e" "?e \<le> ?B" using 2 by (simp_all add: Add_exp_def)
    then show ?thesis unfolding E_def dvalue_Add_exp(1) [of a b] dvalue_Add_exp(2) [of b a]
      using align_up align_down get_coefficient_abs by blast
  next
    case False
    then have "?B < ?e" "?e \<le> ?A" using 2 by (simp_all add: Add_exp_def)
    then show ?thesis unfolding E_def dvalue_Add_exp(1) [of a b] dvalue_Add_exp(2) [of b a]
      using align_up align_down get_coefficient_abs by blast
  qed
  define u v where "u = of_int (align ?e (get_coefficient a) ?A) * E"
    and "v = of_int (align ?e (get_coefficient b) ?B) * E"
  from one have "\<bar>u + v - (dvalue a + dvalue b)\<bar> \<le> E" by (auto simp: u_def v_def)
  then show ?thesis by (simp only: u_def v_def E_def of_int_add distrib_right)
qed

lemma triangle_clamp:
  fixes v a b E D :: rat
  assumes "E \<le> D" and "\<bar>v - a\<bar> \<le> 5 / 9 * (D - E)" and "\<bar>a - b\<bar> \<le> E"
  shows "\<bar>v - b\<bar> \<le> D"
proof -
  have "\<bar>v - b\<bar> \<le> \<bar>v - a\<bar> + \<bar>a - b\<bar>" by linarith
  also have "\<dots> \<le> 5 / 9 * (D - E) + E" using assms(2,3) by (rule add_mono)
  also have "\<dots> = D - 4 / 9 * (D - E)" by (simp add: field_simps)
  also have "\<dots> \<le> D" using assms(1) by simp
  finally show ?thesis .
qed

lemma dec_Add_sound:
  assumes "dec_Add a b = Some d"
  shows "\<bar>dval d - (dvalue a + dvalue b)\<bar> \<le> 10 powi sint (exponent d)"
proof -
  define s where "s = align (Add_exp a b) (get_coefficient a) (Add_expA a b)
      + align (Add_exp a b) (get_coefficient b) (Add_expB a b)"
  define E D where "E = (10 powi Add_exp a b :: rat)" and "D = (10 powi sint (exponent d) :: rat)"
  have f: "fit s (Add_exp a b) = Some d" using assms by (simp add: dec_Add_fit s_def)
  note F = fit_sound [OF f Add_exp_range(1)]
  have "E \<le> D" using F by (auto simp: E_def D_def intro: power_int_increasing)
  moreover have "\<bar>dval d - of_int s * E\<bar> \<le> 5 / 9 * (D - E)" using F by (simp add: E_def D_def)
  moreover have "\<bar>of_int s * E - (dvalue a + dvalue b)\<bar> \<le> E"
    using dec_Add_clamp [of a b] by (simp only: s_def E_def)
  ultimately show ?thesis unfolding D_def [symmetric] by (rule triangle_clamp)
qed

lemma dec_Add_sgn:
  assumes "dec_Add a b = Some d" and "0 \<le> dvalue a" and "0 \<le> dvalue b"
  shows "0 \<le> dval d"
proof -
  have "0 \<le> get_coefficient a" "0 \<le> get_coefficient b"
    using assms(2,3) dvalue_sign(2) by (meson not_le)+
  then have "0 \<le> align (Add_exp a b) (get_coefficient a) (Add_expA a b)
      + align (Add_exp a b) (get_coefficient b) (Add_expB a b)"
    by (intro add_nonneg_nonneg align_nonneg)
  moreover have "sgn (dval d) = sgn (of_int (align (Add_exp a b) (get_coefficient a) (Add_expA a b)
      + align (Add_exp a b) (get_coefficient b) (Add_expB a b)))"
    using fit_sound [OF assms(1) [unfolded dec_Add_fit] Add_exp_range(1)] by blast
  ultimately show ?thesis by (metis not_le of_int_0_le_iff sgn_less)
qed

lemma align_abs:
  assumes "x \<le> e + 40" and "\<bar>c\<bar> \<le> 9223372036854775808"
  shows "\<bar>align e c x\<bar> \<le> 9223372036854775808 * 10 ^ 40"
proof (cases "e \<le> x")
  case True
  have "(10 :: int) ^ nat (x - e) \<le> 10 ^ 40" using assms(1) by (intro power_increasing) auto
  then have "\<bar>c\<bar> * 10 ^ nat (x - e) \<le> 9223372036854775808 * 10 ^ 40"
    using assms(2) by (intro mult_mono) auto
  then show ?thesis using True assms(2) by (auto simp: align_def Let_def abs_mult)
next
  case False
  have le: "\<bar>c sdiv b\<bar> \<le> \<bar>c\<bar>" for b :: int
    using sdiv_int_range [of c b] by (simp add: abs_le_iff)
  show ?thesis using False assms(2) le [of "10 ^ nat (e - x)"] by (auto simp: align_def Let_def)
qed

lemma dec_Add_total:
  assumes "get_exponent a \<le> MaxInt32 - 42" and "get_exponent b \<le> MaxInt32 - 42"
  shows "\<exists>d. dec_Add a b = Some d"
proof -
  let ?s = "align (Add_exp a b) (get_coefficient a) (Add_expA a b)
      + align (Add_exp a b) (get_coefficient b) (Add_expB a b)"
  have "\<bar>align (Add_exp a b) (get_coefficient a) (Add_expA a b)\<bar> \<le> 9223372036854775808 * 10 ^ 40"
    "\<bar>align (Add_exp a b) (get_coefficient b) (Add_expB a b)\<bar> \<le> 9223372036854775808 * 10 ^ 40"
    by (rule align_abs, simp add: Add_exp_def AlignExponent_eq, rule get_coefficient_abs)+
  then have "\<bar>?s\<bar> \<le> 9 * 10 ^ (18 + 42)" by simp
  moreover have "Add_exp a b + int 42 \<le> MaxInt32"
    using assms by (auto simp: Add_exp_def AlignExponent_eq Add_exps)
  ultimately show ?thesis unfolding dec_Add_fit by (rule fit_total)
qed

lemma dec_Add_exact:
  assumes "\<bar>get_exponent a - get_exponent b\<bar> \<le> 40"
    and "dvalue a + dvalue b = of_int s * 10 powi min (get_exponent a) (get_exponent b)" and "IsInt64 s"
    and "get_coefficient a \<noteq> 0" and "get_coefficient b \<noteq> 0"
  shows "\<exists>d. dec_Add a b = Some d \<and> dval d = dvalue a + dvalue b"
proof -
  let ?s = "align (Add_exp a b) (get_coefficient a) (Add_expA a b)
      + align (Add_exp a b) (get_coefficient b) (Add_expB a b)"
  have x: "Add_expA a b = get_exponent a" "Add_expB a b = get_exponent b" using assms by (simp_all add: Add_exps)
  then have e: "Add_exp a b = min (get_exponent a) (get_exponent b)"
    using assms(1) by (auto simp: Add_exp_def AlignExponent_eq)
  have "of_int ?s * 10 powi Add_exp a b = of_int s * (10 powi Add_exp a b :: rat)"
    using dec_Add_window [of a b] assms(1,2) by (simp only: x e)
  then have s: "?s = s" by (simp only: mult_cancel_right of_int_eq_iff) simp
  have "dec_Add a b = fit s (Add_exp a b)" by (simp only: dec_Add_fit s)
  then show ?thesis using dval_fit_exact dval_mk assms(2,3) Add_exp_range [of a b] by (metis e)
qed

section \<open>Absolute value and the capital-path conversion\<close>

lemma dec_Abs_Some:
  "dec_Abs (Some x) =
     (if 0 \<le> sint (coefficient x) then Some x
      else if sint (coefficient x) \<noteq> MinInt64 then Some \<lparr>coefficient = - coefficient x, exponent = exponent x\<rparr>
      else fit 9223372036854775808 (sint (exponent x)))"
  by (simp add: dec_Abs_def Let_def)

lemma sint_minus_i64: "sint (x :: i64) \<noteq> MinInt64 \<Longrightarrow> sint (- x) = - sint x"
  using sint_i64_ge [of x] sint_i64_le [of x]
  by (simp add: sint_word_ariths(4) signed_take_bit_int_eq_self)

lemma dec_Abs_exact:
  assumes "get_coefficient d \<noteq> MinInt64"
  shows "\<exists>r. dec_Abs d = Some r \<and> dval r = \<bar>dvalue d\<bar>"
proof (cases d)
  case None
  then show ?thesis by (simp add: dec_Abs_def)
next
  case (Some x)
  then have "sint (- coefficient x) = - sint (coefficient x)"
    using assms sint_minus_i64 by (simp add: get_coefficient_def)
  then show ?thesis using assms
    by (auto simp: Some dec_Abs_Some dval_def abs_mult get_coefficient_def simp del: of_int_sint)
qed

lemma dec_Abs_sound:
  assumes "dec_Abs d = Some r"
  shows "0 \<le> dval r" and "\<bar>dval r - \<bar>dvalue d\<bar>\<bar> \<le> 5 / 9 * 10 powi sint (exponent r)"
proof -
  have "0 \<le> dval r \<and> \<bar>dval r - \<bar>dvalue d\<bar>\<bar> \<le> 5 / 9 * 10 powi sint (exponent r)"
  proof (cases "get_coefficient d = MinInt64")
    case False
    then show ?thesis using dec_Abs_exact [of d] assms by auto
  next
    case True
    then obtain x where x: "d = Some x" and c: "sint (coefficient x) = MinInt64"
      by (cases d) (auto simp: get_coefficient_def)
    have f: "fit 9223372036854775808 (sint (exponent x)) = Some r"
      using assms by (simp add: x dec_Abs_Some c)
    have v: "\<bar>dvalue d\<bar> = of_int 9223372036854775808 * 10 powi sint (exponent x)"
      by (simp add: x dval_def c abs_mult)
    have "0 < of_int 9223372036854775808 * (10 powi sint (exponent x) :: rat)"
      by (intro mult_pos_pos powi10_pos) simp
    then have "sgn (dval r) = 1" using fit_ulp(2) [OF f sint_i32_ge] by (simp only: sgn_pos)
    then show ?thesis using fit_ulp(1) [OF f sint_i32_ge] unfolding v
      by (simp only: sgn_1_pos less_imp_le)
  qed
  then show "0 \<le> dval r" and "\<bar>dval r - \<bar>dvalue d\<bar>\<bar> \<le> 5 / 9 * 10 powi sint (exponent r)" by auto
qed

lemma dec_Abs_None:
  "dec_Abs d = None \<longleftrightarrow> (get_coefficient d = MinInt64 \<and> get_exponent d = MaxInt32)"
proof (cases "get_coefficient d = MinInt64")
  case False
  then show ?thesis using dec_Abs_exact [of d] by auto
next
  case True
  then obtain x where x: "d = Some x" and c: "sint (coefficient x) = MinInt64"
    by (cases d) (auto simp: get_coefficient_def)
  have "dec_Abs d = fit 9223372036854775808 (sint (exponent x))" by (simp add: x dec_Abs_Some c)
  moreover have "fit 9223372036854775808 (sint (exponent x)) = None \<longleftrightarrow> sint (exponent x) = MaxInt32"
    using sint_i32_le [of "exponent x"] fit_total [of 9223372036854775808 1 "sint (exponent x)"]
    by (cases "sint (exponent x) = MaxInt32") (auto simp: fit.simps IsInt64_def)
  ultimately show ?thesis using True by (simp add: x get_exponent_def)
qed

lemma powi_m8: "(10 powi (- 8) :: rat) = 1 / 10 ^ 8"
  by (simp add: power_int_def power_one_over)

lemma ToProtoScaled_sound:
  assumes "ToProtoScaled (Some r) = Some d"
  shows "\<bar>dval d - r\<bar> \<le> 5 / 9 * 10 powi sint (exponent d)"
proof -
  define D where "D = (10 powi sint (exponent d) :: rat)"
  have "fit (scaledCoefficient r) (- 8) = Some d" using assms by (simp add: ToProtoScaled_def scale_def)
  from fit_sound [OF this]
  have f: "\<bar>dval d - of_int (scaledCoefficient r) * (1 / 10 ^ 8)\<bar> \<le> 5 / 9 * (D - 1 / 10 ^ 8)"
    by (simp only: powi_m8 D_def)
  have "\<bar>of_int (scaledCoefficient r) * (1 / 10 ^ 8) - r\<bar> \<le> 1 / 2 * (1 / 10 ^ 8)"
    using scaledCoefficient_error [of r] by (simp add: field_simps abs_le_iff)
  with f have "\<bar>dval d - r\<bar> \<le> 5 / 9 * (D - 1 / 10 ^ 8) + 1 / 2 * (1 / 10 ^ 8)" by linarith
  also have "\<dots> = 5 / 9 * D - 1 / 18 * (1 / 10 ^ 8)" by (simp add: field_simps)
  also have "\<dots> \<le> 5 / 9 * D" by simp
  finally show ?thesis by (simp only: D_def)
qed

lemma ToProtoScaled_exact:
  assumes "r * 10 ^ 8 = of_int k" and "IsInt64 k"
  shows "ToProtoScaled (Some r) = Some (ToProto r)" and "dval (ToProto r) = r"
proof -
  have k: "scaledCoefficient r = k" using assms(1) by (rule scaledCoefficient_exact)
  have p: "ToProto r = \<lparr>coefficient = word_of_int k, exponent = word_of_int (- 8)\<rparr>"
    by (simp add: ToProto_def k scale_def)
  show "ToProtoScaled (Some r) = Some (ToProto r)"
    unfolding p by (simp add: ToProtoScaled_def k scale_def dval_fit_exact assms(2))
  have "of_int k * (10 powi (- 8)) = r" using assms(1) by (simp add: powi_m8 field_simps)
  then show "dval (ToProto r) = r" unfolding p using dval_mk [OF assms(2), of "- 8"] by simp
qed

lemma ToProtoScaled_total:
  assumes "\<bar>r\<bar> \<le> 10 ^ k" and "k \<le> 2000000000"
  shows "\<exists>d. ToProtoScaled (Some r) = Some d"
proof -
  have "\<bar>of_int (scaledCoefficient r)\<bar> \<le> \<bar>r\<bar> * 10 ^ 8 + 1 / 2"
    using scaledCoefficient_error [of r] by (simp add: abs_le_iff abs_if split: if_splits)
  also have "\<dots> \<le> 10 ^ k * 10 ^ 8 + 1 / 2" using assms(1) by simp
  also have "\<dots> \<le> 9 * (10 ^ 18 * 10 ^ k)" 
  proof -
    define K where "K = (10 ^ k :: rat)"
    have "1 \<le> K" by (simp add: K_def)
    then have "K * 10 ^ 8 + 1 / 2 \<le> 9 * (10 ^ 18 * K)" by simp
    then show ?thesis by (simp only: K_def)
  qed
  finally have "of_int \<bar>scaledCoefficient r\<bar> \<le> (of_int (9 * 10 ^ (18 + k)) :: rat)"
    by (simp add: power_add)
  then have "\<bar>scaledCoefficient r\<bar> \<le> 9 * 10 ^ (18 + k)" by (simp only: of_int_le_iff)
  then show ?thesis using fit_total [of "scaledCoefficient r" k "- 8"] assms(2)
    by (simp add: ToProtoScaled_def scale_def)
qed

section \<open>Properties\<close>

text \<open>
  C31: \<open>Cmp\<close> orders two decimals exactly as their mathematical values, for every pair of coefficients
  and exponents (nil included), although it never computes a power of ten beyond the digit gap.
\<close>

theorem Cmp_exact:
  "Cmp a b = (if dvalue a < dvalue b then - 1 else if dvalue a = dvalue b then 0 else 1)"
  by (simp add: Cmp_correct bigCmp_def)

text \<open>
  C32: \<open>Mul\<close> either returns a decimal within 5/9 of a unit in its last place of the exact product,
  with the exact product's sign (so a product never wraps), or refuses; and it never refuses operands
  of the accepted exponent domain.
\<close>

theorem Mul_correct:
  "case dec_Mul a b of
     Some d \<Rightarrow> \<bar>dval d - dvalue a * dvalue b\<bar> \<le> 5 / 9 * 10 powi sint (exponent d)
       \<and> sgn (dval d) = sgn (dvalue a * dvalue b)
   | None \<Rightarrow> \<not> (InDomain a \<and> InDomain b)"
  using dec_Mul_sound [of a b] dec_Mul_total [of a b] by (auto split: option.split)

text \<open>
  \<open>Mul\<close> and \<open>Add\<close> are exact whenever the exact result has an \<open>int64\<close> coefficient at the natural
  exponent (the sum of the exponents, and for operands at most 40 decades apart the smaller one).
\<close>

theorem Mul_Add_exact:
  assumes "get_coefficient a \<noteq> 0" and "get_coefficient b \<noteq> 0"
    and "\<bar>get_exponent a\<bar> \<le> 20" and "\<bar>get_exponent b\<bar> \<le> 20"
    and "IsInt64 (get_coefficient a * get_coefficient b)"
    and "dvalue a + dvalue b = of_int s * 10 powi min (get_exponent a) (get_exponent b)" and "IsInt64 s"
  shows "(\<exists>d. dec_Mul a b = Some d \<and> dval d = dvalue a * dvalue b)
    \<and> (\<exists>d. dec_Add a b = Some d \<and> dval d = dvalue a + dvalue b)"
  using dec_Mul_exact [of a b] dec_Add_exact [of a b s] assms by auto

theorem Mul_Add_exact_witness:
  "(\<exists>d. dec_Mul (Some \<lparr>coefficient = 15, exponent = - 1\<rparr>) (Some \<lparr>coefficient = 2, exponent = 0\<rparr>) = Some d
      \<and> dval d = dvalue (Some \<lparr>coefficient = 15, exponent = - 1\<rparr>) * dvalue (Some \<lparr>coefficient = 2, exponent = 0\<rparr>))
    \<and> (\<exists>d. dec_Add (Some \<lparr>coefficient = 15, exponent = - 1\<rparr>) (Some \<lparr>coefficient = 2, exponent = 0\<rparr>) = Some d
      \<and> dval d = dvalue (Some \<lparr>coefficient = 15, exponent = - 1\<rparr>) + dvalue (Some \<lparr>coefficient = 2, exponent = 0\<rparr>))"
  by (rule Mul_Add_exact [where s = 35])
    (simp_all add: get_coefficient_def get_exponent_def IsInt64_def dval_def)

text \<open>
  \<open>Add\<close> either returns a decimal within one unit in its last place of the exact sum, never
  negative for non-negative operands, or refuses; and it refuses only when an operand's exponent is
  within 42 of the largest \<open>int32\<close>, so the clamp of the alignment never loses a magnitude.
\<close>

theorem Add_correct:
  "case dec_Add a b of
     Some d \<Rightarrow> \<bar>dval d - (dvalue a + dvalue b)\<bar> \<le> 10 powi sint (exponent d)
       \<and> (dvalue a < 0 \<or> dvalue b < 0 \<or> dval d \<ge> 0)
   | None \<Rightarrow> get_exponent a > MaxInt32 - 42 \<or> get_exponent b > MaxInt32 - 42"
proof (cases "dec_Add a b")
  case None
  then show ?thesis using dec_Add_total [of a b] by (simp add: not_less [symmetric]) blast
next
  case (Some d)
  then show ?thesis using dec_Add_sound [OF Some] dec_Add_sgn [OF Some] by (simp add: not_less [symmetric]) blast
qed

text \<open>
  \<open>Abs\<close> is never negative, is exact unless the coefficient is the smallest \<open>int64\<close> (and then
  within 5/9 of a unit in the last place), and refuses exactly the one decimal whose absolute value
  has no representation.
\<close>

lemma Abs_correct:
  "case dec_Abs d of
     Some r \<Rightarrow> 0 \<le> dval r \<and> \<bar>dval r - \<bar>dvalue d\<bar>\<bar> \<le> 5 / 9 * 10 powi sint (exponent r)
       \<and> (get_coefficient d = MinInt64 \<or> dval r = \<bar>dvalue d\<bar>)
   | None \<Rightarrow> get_coefficient d = MinInt64 \<and> get_exponent d = MaxInt32"
  using dec_Abs_sound [of d] dec_Abs_exact [of d] dec_Abs_None [of d] by (auto split: option.split)

text \<open>
  C36: \<open>ToProtoScaled\<close> succeeds on every rational up to \<open>10^2000000000\<close> in magnitude, with a
  decimal within 5/9 of a unit in its last place, and agrees with \<open>ToProto\<close>, exactly, on the values
  of the \<open>10^-8\<close> grid whose scaled coefficient is an \<open>int64\<close>.
\<close>

theorem ToProtoScaled_correct:
  assumes "\<bar>r\<bar> \<le> 10 ^ k" and "k \<le> 2000000000"
  shows "\<exists>d. ToProtoScaled (Some r) = Some d
    \<and> \<bar>dval d - r\<bar> \<le> 5 / 9 * 10 powi sint (exponent d)
    \<and> (\<forall>c. r * 10 ^ 8 = of_int c \<and> IsInt64 c \<longrightarrow> d = ToProto r \<and> dval d = r)"
proof -
  obtain d where d: "ToProtoScaled (Some r) = Some d" using ToProtoScaled_total [OF assms] by blast
  show ?thesis using d ToProtoScaled_sound [OF d] ToProtoScaled_exact by auto
qed

theorem ToProtoScaled_correct_witness:
  "\<exists>d. ToProtoScaled (Some (3 / 2)) = Some d \<and> d = ToProto (3 / 2) \<and> dval d = 3 / 2"
proof -
  have "\<bar>3 / 2 :: rat\<bar> \<le> 10 ^ 1" "(1 :: nat) \<le> 2000000000" by simp_all
  from ToProtoScaled_correct [OF this]
  obtain d where "ToProtoScaled (Some (3 / 2)) = Some d"
    and "\<forall>c. 3 / 2 * 10 ^ 8 = (of_int c :: rat) \<and> IsInt64 c \<longrightarrow> d = ToProto (3 / 2) \<and> dval d = 3 / 2" by blast
  moreover have "3 / 2 * 10 ^ 8 = (of_int 150000000 :: rat) \<and> IsInt64 150000000" by (simp add: IsInt64_def)
  ultimately show ?thesis by blast
qed

text \<open>
  \<open>FromProto\<close> computes the exact value of every decimal but those with the smallest exponent,
  and \<open>FromProtoChecked\<close> answers with the exact value on its whole domain.
\<close>

lemma FromProto_exact:
  "(get_exponent d = MinInt32 \<or> FromProto d = dvalue d)
   \<and> FromProtoChecked d = (if InDomain d then Some (dvalue d) else None)"
  using FromProto_dvalue [of d] InDomain_exponent [of d] by (auto simp: FromProtoChecked_def)

text \<open>
  With the smallest exponent the \<open>int32\<close> negation wraps: \<open>FromProto\<close> reads \<open>10^-2147483648\<close> as 1,
  so it and \<open>Cmp\<close> disagree on whether it equals 1.
\<close>

lemma FromProto_wraps_at_MinInt32:
  "FromProto (Some \<lparr>coefficient = 1, exponent = word_of_int MinInt32\<rparr>) = 1
   \<and> Cmp (Some \<lparr>coefficient = 1, exponent = word_of_int MinInt32\<rparr>) (Some \<lparr>coefficient = 1, exponent = 0\<rparr>) = - 1"
  by (simp add: FromProto_def Cmp_def cmpMagnitude_def sign_def get_coefficient_def get_exponent_def dec_len.simps)

text \<open>
  Dropping one digit at a time rounds twice: 100000000000000000045 is nearer to
  \<open>10^20\<close> than to \<open>10^20 + 100\<close>, and \<open>fit\<close> answers the latter.
\<close>

lemma fit_double_rounding:
  "fit 100000000000000000045 0 = Some \<lparr>coefficient = 1000000000000000001, exponent = 2\<rparr>"
  by (simp add: fit.simps IsInt64_def drop_digit_def)

end
