(* ===== verification/Cost_Basis.thy ===== *)
theory Cost_Basis
  imports Kanz_Prelude "HOL-Library.Multiset"
begin

text \<open>
  The weighted-average-cost fold \<open>internal/costbasis/costbasis.go\<close>: the lot, the fold of one signed
  fill, the aggregation of the lots of several venues and the unrealized profit. The contract every
  consumer of the fold relies on (quantities add, and realized profit less the open cost moves by
  exactly the cash of the fill) is the locale \<open>cost_fold\<close>, in which order independence of the profit
  is proved once; it is interpreted on \<open>Fold\<close>.
\<close>

section \<open>Lots and the fold\<close>

record lot =
  Qty :: rat
  AvgCost :: rat
  Realized :: rat

definition NewLot :: lot where
  "NewLot = \<lparr>Qty = 0, AvgCost = 0, Realized = 0\<rparr>"

definition Fold :: "lot \<Rightarrow> rat \<Rightarrow> rat \<Rightarrow> lot" where
  "Fold l signedQty price =
     (let cur = sgn (Qty l); add = sgn signedQty in
      if cur = 0 \<or> cur = add then
        let oldAbs = \<bar>Qty l\<bar>; addAbs = \<bar>signedQty\<bar>; newQty = Qty l + signedQty; newAbs = \<bar>newQty\<bar> in
        if newAbs = 0 then l\<lparr>AvgCost := 0, Qty := newQty\<rparr>
        else l\<lparr>AvgCost := (oldAbs * AvgCost l + addAbs * price) / newAbs, Qty := newQty\<rparr>
      else
        let openAbs = \<bar>Qty l\<bar>;
            closeAbs = (if \<bar>signedQty\<bar> > openAbs then openAbs else \<bar>signedQty\<bar>);
            pnl = closeAbs * (price - AvgCost l);
            pnl' = (if cur < 0 then - pnl else pnl);
            l' = l\<lparr>Realized := Realized l + pnl'\<rparr>;
            newQty = Qty l + signedQty
        in if newQty = 0 then l'\<lparr>Qty := 0, AvgCost := 0\<rparr>
           else if sgn newQty \<noteq> cur then l'\<lparr>AvgCost := price, Qty := newQty\<rparr>
           else l'\<lparr>Qty := newQty\<rparr>)"

text \<open>\<open>(*Lot).Unrealized\<close>; a nil mark and a nil result are \<open>None\<close>.\<close>

definition Unrealized :: "lot \<Rightarrow> rat option \<Rightarrow> rat option" where
  "Unrealized l mark =
     (case mark of None \<Rightarrow> None
      | Some m \<Rightarrow> if Qty l = 0 then None else Some ((m - AvgCost l) * Qty l))"

section \<open>Aggregation over venues\<close>

record Aggregator =
  agg :: lot
  cost :: rat
  absQty :: rat

definition NewAggregator :: Aggregator where
  "NewAggregator = \<lparr>agg = NewLot, cost = 0, absQty = 0\<rparr>"

definition Aggregator_Add :: "Aggregator \<Rightarrow> lot \<Rightarrow> Aggregator" where
  "Aggregator_Add a l =
     (let abs = \<bar>Qty l\<bar> in
      \<lparr>agg = (agg a)\<lparr>Qty := Qty (agg a) + Qty l, Realized := Realized (agg a) + Realized l\<rparr>,
       cost = cost a + abs * AvgCost l, absQty = absQty a + abs\<rparr>)"

text \<open>\<open>Lot()\<close> writes the average into the aggregate it returns: the second component is the state after.\<close>

definition Aggregator_Lot :: "Aggregator \<Rightarrow> lot \<times> Aggregator" where
  "Aggregator_Lot a =
     (let l = (if absQty a \<noteq> 0 then (agg a)\<lparr>AvgCost := cost a / absQty a\<rparr> else agg a)
      in (l, a\<lparr>agg := l\<rparr>))"

section \<open>Specification\<close>

text \<open>The invariant \<open>Lot\<close> documents: a flat lot has no basis, and a basis is never negative.\<close>

definition lot_ok :: "lot \<Rightarrow> bool" where
  "lot_ok l \<longleftrightarrow> 0 \<le> AvgCost l \<and> (Qty l = 0 \<longrightarrow> AvgCost l = 0)"

text \<open>The profit of a lot at a mark: what is realized plus what closing at the mark would realize.\<close>

definition profit_at :: "rat \<Rightarrow> lot \<Rightarrow> rat" where
  "profit_at mark l = Realized l + (case Unrealized l (Some mark) of None \<Rightarrow> 0 | Some u \<Rightarrow> u)"

text \<open>A sequence of signed fills at prices, folded from a lot.\<close>

definition Fold_all :: "lot \<Rightarrow> (rat \<times> rat) list \<Rightarrow> lot" where
  "Fold_all = foldl (\<lambda>l (signedQty, price). Fold l signedQty price)"

definition aggregate :: "lot list \<Rightarrow> lot" where
  "aggregate ls = fst (Aggregator_Lot (foldl Aggregator_Add NewAggregator ls))"

section \<open>The contract of a cost fold\<close>

text \<open>
  \<open>open_cost\<close> is the signed cost of what is held. Any fold whose quantity adds and whose realized
  profit less open cost moves by the cash paid has a profit that depends on the fills alone.
\<close>

locale cost_fold =
  fixes fold_one :: "'s \<Rightarrow> rat \<Rightarrow> rat \<Rightarrow> 's"
    and held :: "'s \<Rightarrow> rat"
    and open_cost :: "'s \<Rightarrow> rat"
    and gains :: "'s \<Rightarrow> rat"
  assumes held_add: "held (fold_one s q p) = held s + q"
    and gains_conserved: "gains (fold_one s q p) - open_cost (fold_one s q p) = gains s - open_cost s - q * p"
begin

lemma held_sum: "held (foldl (\<lambda>s (q, p). fold_one s q p) s fs) = held s + sum_list (map fst fs)"
  by (induction fs arbitrary: s) (auto simp: held_add)

lemma gains_sum:
  "gains (foldl (\<lambda>s (q, p). fold_one s q p) s fs) - open_cost (foldl (\<lambda>s (q, p). fold_one s q p) s fs)
   = gains s - open_cost s - (\<Sum>(q, p) \<leftarrow> fs. q * p)"
proof (induction fs arbitrary: s)
  case (Cons f fs)
  obtain q p where f: "f = (q, p)" by (cases f)
  show ?case using Cons.IH [of "fold_one s q p"] gains_conserved [of s q p] by (simp add: f)
qed simp

lemma marked_sum:
  "gains (foldl (\<lambda>s (q, p). fold_one s q p) s fs) - open_cost (foldl (\<lambda>s (q, p). fold_one s q p) s fs)
     + held (foldl (\<lambda>s (q, p). fold_one s q p) s fs) * m
   = gains s - open_cost s + held s * m + (\<Sum>(q, p) \<leftarrow> fs. q * (m - p))"
proof -
  have "(\<Sum>(q, p) \<leftarrow> fs. q * (m - p)) = sum_list (map fst fs) * m - (\<Sum>(q, p) \<leftarrow> fs. q * p)"
    by (induction fs) (auto simp: algebra_simps)
  then show ?thesis by (simp only: gains_sum held_sum) (simp add: algebra_simps)
qed

end

section \<open>The fold meets the contract\<close>

lemma Fold_Qty: "Qty (Fold l s p) = Qty l + s"
  by (simp add: Fold_def Let_def)

text \<open>The branches of the fold, one lemma each.\<close>

lemma Fold_open:
  assumes "Qty l = 0 \<or> sgn (Qty l) = sgn s" and "Qty l + s \<noteq> 0"
  shows "Fold l s p = l\<lparr>AvgCost := (\<bar>Qty l\<bar> * AvgCost l + \<bar>s\<bar> * p) / \<bar>Qty l + s\<bar>, Qty := Qty l + s\<rparr>"
  using assms by (auto simp: Fold_def Let_def sgn_0_0)

lemma Fold_flat: "Qty l = 0 \<Longrightarrow> Fold l 0 p = l\<lparr>AvgCost := 0\<rparr>"
  by (simp add: Fold_def Let_def)

lemma Fold_reduce:
  assumes "Qty l \<noteq> 0" and "sgn (Qty l) \<noteq> sgn s" and "\<bar>s\<bar> < \<bar>Qty l\<bar>"
  shows "Fold l s p = l\<lparr>Realized := Realized l - s * (p - AvgCost l), Qty := Qty l + s\<rparr>"
  using assms by (auto simp: Fold_def Let_def sgn_if abs_if algebra_simps split: if_splits)

lemma Fold_close:
  assumes "Qty l \<noteq> 0"
  shows "Fold l (- Qty l) p = l\<lparr>Realized := Realized l + Qty l * (p - AvgCost l), Qty := 0, AvgCost := 0\<rparr>"
  using assms by (auto simp: Fold_def Let_def sgn_if algebra_simps)

lemma Fold_cross:
  assumes "Qty l \<noteq> 0" and "sgn (Qty l) \<noteq> sgn s" and "\<bar>Qty l\<bar> < \<bar>s\<bar>"
  shows "Fold l s p = l\<lparr>Realized := Realized l + Qty l * (p - AvgCost l), AvgCost := p, Qty := Qty l + s\<rparr>"
  using assms by (auto simp: Fold_def Let_def sgn_if abs_if algebra_simps split: if_splits)

lemma Fold_cases:
  obtains (flat) "Qty l = 0" "s = 0"
  | (grow) "Qty l = 0 \<or> sgn (Qty l) = sgn s" "Qty l + s \<noteq> 0"
  | (reduce) "Qty l \<noteq> 0" "sgn (Qty l) \<noteq> sgn s" "\<bar>s\<bar> < \<bar>Qty l\<bar>"
  | (close) "Qty l \<noteq> 0" "s = - Qty l"
  | (cross) "Qty l \<noteq> 0" "sgn (Qty l) \<noteq> sgn s" "\<bar>Qty l\<bar> < \<bar>s\<bar>"
proof -
  consider "Qty l = 0" | "Qty l \<noteq> 0" "sgn (Qty l) = sgn s" | "Qty l \<noteq> 0" "sgn (Qty l) \<noteq> sgn s" by blast
  then show thesis
  proof cases
    case 1
    then show thesis using flat grow by (cases "s = 0") auto
  next
    case 2
    then have "Qty l + s \<noteq> 0" by (auto simp: sgn_if split: if_splits)
    then show thesis using 2 grow by blast
  next
    case 3
    consider "\<bar>s\<bar> < \<bar>Qty l\<bar>" | "\<bar>Qty l\<bar> < \<bar>s\<bar>" | "\<bar>s\<bar> = \<bar>Qty l\<bar>" by linarith
    then show thesis
    proof cases
      assume e: "\<bar>s\<bar> = \<bar>Qty l\<bar>"
      then have "s = - Qty l" using 3 by (auto simp: abs_eq_iff)
      then show thesis using 3 close by blast
    qed (use 3 reduce cross in blast)+
  qed
qed

lemma open_sgn_mult:
  fixes q s :: rat
  assumes "q = 0 \<or> sgn q = sgn s" and "q + s \<noteq> 0"
  shows "(q + s) * ((\<bar>q\<bar> * a + \<bar>s\<bar> * p) / \<bar>q + s\<bar>) = q * a + s * p"
proof -
  have "\<bar>q\<bar> * a + \<bar>s\<bar> * p = sgn (q + s) * (q * a + s * p)"
    using assms by (auto simp: sgn_if abs_if algebra_simps split: if_splits)
  then have "(q + s) * ((\<bar>q\<bar> * a + \<bar>s\<bar> * p) / \<bar>q + s\<bar>) = (q + s) * sgn (q + s) / \<bar>q + s\<bar> * (q * a + s * p)"
    by simp
  also have "(q + s) * sgn (q + s) / \<bar>q + s\<bar> = 1" using assms(2) by (simp add: abs_sgn sgn_0_0)
  finally show ?thesis by simp
qed

lemma Fold_conserved:
  "Realized (Fold l s p) - Qty (Fold l s p) * AvgCost (Fold l s p) = Realized l - Qty l * AvgCost l - s * p"
proof (cases l s rule: Fold_cases)
  case grow
  then show ?thesis using open_sgn_mult [OF grow, of "AvgCost l" p] by (simp add: Fold_open)
next
  case close
  then show ?thesis by (simp add: Fold_close algebra_simps)
qed (simp_all add: Fold_flat Fold_reduce Fold_cross algebra_simps)

interpretation cb: cost_fold Fold Qty "\<lambda>l. Qty l * AvgCost l" Realized
  by unfold_locales (rule Fold_Qty, rule Fold_conserved)

lemma profit_at_eq: "profit_at m l = Realized l - Qty l * AvgCost l + Qty l * m"
  by (simp add: profit_at_def Unrealized_def algebra_simps)

lemma Fold_all_held: "Qty (Fold_all NewLot fs) = sum_list (map fst fs)"
  using cb.held_sum [of NewLot fs] by (simp add: Fold_all_def NewLot_def)

lemma Fold_all_marked: "profit_at m (Fold_all NewLot fs) = (\<Sum>(s, p) \<leftarrow> fs. s * (m - p))"
  using cb.marked_sum [of NewLot fs m] by (simp add: profit_at_eq Fold_all_def NewLot_def)

lemma lot_ok_NewLot: "lot_ok NewLot"
  by (simp add: lot_ok_def NewLot_def)

lemma Fold_ok:
  assumes "lot_ok l" and "0 \<le> p"
  shows "lot_ok (Fold l s p)"
  using assms by (cases l s rule: Fold_cases)
    (auto simp: lot_ok_def Fold_flat Fold_open Fold_reduce Fold_close Fold_cross
      intro!: divide_nonneg_nonneg add_nonneg_nonneg mult_nonneg_nonneg)

lemma Fold_all_Cons [simp]: "Fold_all l ((s, p) # fs) = Fold_all (Fold l s p) fs"
  and Fold_all_Nil [simp]: "Fold_all l [] = l"
  by (simp_all add: Fold_all_def)

lemma Fold_all_ok: "lot_ok l \<Longrightarrow> \<forall>(s, p) \<in> set fs. 0 \<le> p \<Longrightarrow> lot_ok (Fold_all l fs)"
  by (induction fs arbitrary: l) (auto simp: Fold_ok)

lemma Aggregator_Add_all:
  "foldl Aggregator_Add a ls =
     \<lparr>agg = (agg a)\<lparr>Qty := Qty (agg a) + sum_list (map Qty ls), Realized := Realized (agg a) + sum_list (map Realized ls)\<rparr>,
      cost = cost a + (\<Sum>l \<leftarrow> ls. \<bar>Qty l\<bar> * AvgCost l), absQty = absQty a + (\<Sum>l \<leftarrow> ls. \<bar>Qty l\<bar>)\<rparr>"
  by (induction ls arbitrary: a) (simp_all add: Aggregator_Add_def Let_def algebra_simps)

lemma aggregate_fields:
  "Qty (aggregate ls) = sum_list (map Qty ls)"
  "Realized (aggregate ls) = sum_list (map Realized ls)"
  "AvgCost (aggregate ls) * (\<Sum>l \<leftarrow> ls. \<bar>Qty l\<bar>) = (\<Sum>l \<leftarrow> ls. \<bar>Qty l\<bar> * AvgCost l)"
proof -
  have "(\<Sum>l \<leftarrow> ls. \<bar>Qty l\<bar>) = 0 \<Longrightarrow> (\<Sum>l \<leftarrow> ls. \<bar>Qty l\<bar> * AvgCost l) = 0"
  proof -
    assume "(\<Sum>l \<leftarrow> ls. \<bar>Qty l\<bar>) = 0"
    then have "\<forall>l \<in> set ls. \<bar>Qty l\<bar> = 0" by (subst (asm) sum_list_nonneg_eq_0_iff) auto
    then show ?thesis by (induction ls) auto
  qed
  then show "Qty (aggregate ls) = sum_list (map Qty ls)"
    and "Realized (aggregate ls) = sum_list (map Realized ls)"
    and "AvgCost (aggregate ls) * (\<Sum>l \<leftarrow> ls. \<bar>Qty l\<bar>) = (\<Sum>l \<leftarrow> ls. \<bar>Qty l\<bar> * AvgCost l)"
    by (auto simp: aggregate_def Aggregator_Lot_def Aggregator_Add_all NewAggregator_def NewLot_def Let_def)
qed

lemma sum_list_mset: "mset xs = mset ys \<Longrightarrow> sum_list (map f xs) = sum_list (map f ys)" for f :: "'a \<Rightarrow> rat"
  by (metis mset_map sum_mset_sum_list)

section \<open>Properties\<close>

text \<open>
  C38: whatever the sequence of fills, the quantity is the signed sum and the profit at any mark is the
  sum of \<open>signed * (mark - price)\<close> over the fills.
\<close>

theorem Fold_all_profit:
  "Qty (Fold_all NewLot fs) = sum_list (map fst fs)
   \<and> profit_at m (Fold_all NewLot fs) = (\<Sum>(s, p) \<leftarrow> fs. s * (m - p))"
  by (simp add: Fold_all_held Fold_all_marked)

text \<open>
  Hence neither depends on the order the fills are folded in, although average cost and realized
  profit each do.
\<close>

lemma Fold_all_order:
  assumes "mset fs = mset gs"
  shows "Qty (Fold_all NewLot fs) = Qty (Fold_all NewLot gs)
    \<and> profit_at m (Fold_all NewLot fs) = profit_at m (Fold_all NewLot gs)"
  using sum_list_mset [OF assms] by (simp add: Fold_all_held Fold_all_marked)

text \<open>
  at non-negative prices every lot the fold reaches has a non-negative average cost, and a flat
  one has none.
\<close>

theorem Fold_all_invariant:
  assumes "\<forall>(s, p) \<in> set fs. 0 \<le> p"
  shows "0 \<le> AvgCost (Fold_all NewLot fs) \<and> (Qty (Fold_all NewLot fs) \<noteq> 0 \<or> AvgCost (Fold_all NewLot fs) = 0)"
  using Fold_all_ok [OF lot_ok_NewLot assms] by (auto simp: lot_ok_def)

theorem Fold_all_invariant_witness:
  "Qty (Fold_all NewLot [(2, 10), (- 2, 12)]) = 0 \<and> AvgCost (Fold_all NewLot [(2, 10), (- 2, 12)]) = 0"
proof -
  have "Qty (Fold_all NewLot [(2, 10), (- 2, 12)]) = 0" by (simp add: Fold_all_def Fold_def NewLot_def)
  then show ?thesis using Fold_all_invariant [of "[(2, 10), (- 2, 12)]"] by simp
qed

text \<open>
  A fill against the position realizes \<open>(price - average)\<close> on the closed part only: a partial
  close keeps the average, a full close leaves a flat lot without basis, and a fill through zero
  closes the whole position and opens the excess at the fill's own price.
\<close>

lemma Fold_closing:
  assumes "Qty l \<noteq> 0" and "sgn s = - sgn (Qty l)"
  shows "Realized (Fold l s p) = Realized l + sgn (Qty l) * min \<bar>s\<bar> \<bar>Qty l\<bar> * (p - AvgCost l)
    \<and> AvgCost (Fold l s p) = (if \<bar>s\<bar> < \<bar>Qty l\<bar> then AvgCost l else if \<bar>s\<bar> = \<bar>Qty l\<bar> then 0 else p)"
proof (cases l s rule: Fold_cases)
  case close
  then show ?thesis using assms by (simp add: Fold_close mult_sgn_abs)
next
  case cross
  then show ?thesis using assms by (simp add: Fold_cross mult_sgn_abs)
next
  case reduce
  have "sgn (Qty l) * \<bar>s\<bar> = - s" using assms by (metis minus_minus mult_minus_left mult_sgn_abs)
  then show ?thesis using reduce assms by (simp add: Fold_reduce algebra_simps)
qed (use assms in \<open>auto simp: sgn_if split: if_splits\<close>)

lemma Fold_closing_witness:
  "Realized (Fold \<lparr>Qty = 2, AvgCost = 10, Realized = 0\<rparr> (- 3) 12) = 4
   \<and> AvgCost (Fold \<lparr>Qty = 2, AvgCost = 10, Realized = 0\<rparr> (- 3) 12) = 12"
  using Fold_closing [of "\<lparr>Qty = 2, AvgCost = 10, Realized = 0\<rparr>" "- 3" 12] by simp

text \<open>
  The aggregate over venues adds quantities and realized profit, and its average is the
  quantity-weighted one: average times total held size is the total cost.
\<close>

lemma aggregate_correct:
  "Qty (aggregate ls) = sum_list (map Qty ls)
   \<and> Realized (aggregate ls) = sum_list (map Realized ls)
   \<and> AvgCost (aggregate ls) * (\<Sum>l \<leftarrow> ls. \<bar>Qty l\<bar>) = (\<Sum>l \<leftarrow> ls. \<bar>Qty l\<bar> * AvgCost l)"
  by (simp add: aggregate_fields)

text \<open>A perfectly hedged portfolio is flat and yet carries a basis: the invariant of \<open>Lot\<close> is not the aggregate's.\<close>

lemma aggregate_hedged_has_basis:
  "Qty (aggregate [\<lparr>Qty = 10, AvgCost = 5, Realized = 0\<rparr>, \<lparr>Qty = - 10, AvgCost = 7, Realized = 0\<rparr>]) = 0
   \<and> AvgCost (aggregate [\<lparr>Qty = 10, AvgCost = 5, Realized = 0\<rparr>, \<lparr>Qty = - 10, AvgCost = 7, Realized = 0\<rparr>]) = 6"
  by (simp add: aggregate_def Aggregator_Lot_def Aggregator_Add_def NewAggregator_def NewLot_def Let_def)

end
