(* ===== verification/Order_Aggregate.thy ===== *)
theory Order_Aggregate
  imports Decimal
begin

text \<open>
  The order aggregate \<open>services/oms/internal/order/aggregate.go\<close> (with \<open>instrumentid.go\<close>): admission
  of a \<open>SubmitOrder\<close> and the transitions of an \<open>OrderState\<close> under routing, rejection, fills, cancels,
  expiries and amendments. The messages are records with the fields of
  \<open>order/v1/order.proto\<close> and \<open>order/v1/order_events.proto\<close>. Protocol enums are open, so each enum has a
  constructor for the numbers that have no name. A refusal carries its code and, instead of the
  rendered text, the format it renders with its arguments.
\<close>

section \<open>Messages\<close>

datatype Side = SIDE_UNSPECIFIED | SIDE_BUY | SIDE_SELL | SIDE_unnamed i32

datatype MarginMode = MARGIN_MODE_UNSPECIFIED | MARGIN_MODE_CROSS | MARGIN_MODE_ISOLATED
  | MARGIN_MODE_unnamed i32

datatype OrderType = ORDER_TYPE_UNSPECIFIED | ORDER_TYPE_MARKET | ORDER_TYPE_LIMIT | ORDER_TYPE_STOP
  | ORDER_TYPE_STOP_LIMIT | ORDER_TYPE_unnamed i32

datatype TimeInForce = TIME_IN_FORCE_UNSPECIFIED | TIME_IN_FORCE_DAY | TIME_IN_FORCE_GTC
  | TIME_IN_FORCE_IOC | TIME_IN_FORCE_FOK | TIME_IN_FORCE_GTD | TIME_IN_FORCE_unnamed i32

datatype OrderStatus = ORDER_STATUS_UNSPECIFIED | ORDER_STATUS_PENDING_NEW | ORDER_STATUS_ROUTED
  | ORDER_STATUS_PARTIALLY_FILLED | ORDER_STATUS_FILLED | ORDER_STATUS_CANCELLED
  | ORDER_STATUS_REJECTED | ORDER_STATUS_EXPIRED | ORDER_STATUS_WORKING_SCHEDULED
  | ORDER_STATUS_unnamed i32

datatype ExecutionAlgo = EXECUTION_ALGO_UNSPECIFIED | EXECUTION_ALGO_TWAP | EXECUTION_ALGO_VWAP
  | EXECUTION_ALGO_POV | EXECUTION_ALGO_unnamed i32

text \<open>The frozen volume curve of a schedule, a protobuf message with protobuf durations and its verdict by number.\<close>

record Duration =
  du_seconds :: i64
  du_nanos :: i32

record VolumeProfile =
  vp_instrument_id :: string
  vp_mic :: string
  vp_version :: string
  vp_as_of :: "Timestamp option"
  vp_session :: "Duration option"
  vp_bucket :: "Duration option"
  vp_horizon :: "Duration option"
  vp_verdict :: i32
  vp_sessions :: "32 word"
  vp_oldest_session :: "Timestamp option"
  vp_newest_session :: "Timestamp option"
  vp_window_buckets :: "32 word"
  vp_window_observed :: "32 word"
  vp_expected_volume :: "decimal list"

record ExecutionSchedule =
  es_algo :: ExecutionAlgo
  es_window_start :: "instant option"
  es_window_end :: "instant option"
  es_slice_count :: "32 word"
  es_max_slice_quantity :: "decimal option"
  es_max_participation_rate :: "decimal option"
  es_volume_profile_version :: string
  es_volume_profile :: "VolumeProfile option"

record CommandMetadata =
  md_issuer :: string
  md_target_id :: string
  md_valid_until :: "instant option"
  md_reason :: string
  md_principal_portfolios :: "string list"

record SubmitOrder =
  sub_metadata :: "CommandMetadata option"
  sub_order_id :: string
  sub_portfolio_id :: string
  sub_instrument_id :: string
  sub_side :: Side
  sub_quantity :: "decimal option"
  sub_order_type :: OrderType
  sub_limit_price :: "decimal option"
  sub_stop_price :: "decimal option"
  sub_time_in_force :: TimeInForce
  sub_expire_at :: "instant option"
  sub_venue :: string
  sub_execution_schedule :: "ExecutionSchedule option"
  sub_parent_order_id :: string
  sub_leverage :: "decimal option"
  sub_margin_mode :: MarginMode

record AmendOrder =
  am_metadata :: "CommandMetadata option"
  am_order_id :: string
  am_new_quantity :: "decimal option"
  am_new_limit_price :: "decimal option"

record OrderQuarantine =
  oq_at :: "instant option"
  oq_reason :: string
  oq_last_query_at :: "instant option"

record OrderState =
  st_order_id :: string
  st_portfolio_id :: string
  st_instrument_id :: string
  st_side :: Side
  st_order_type :: OrderType
  st_time_in_force :: TimeInForce
  st_ordered_quantity :: "decimal option"
  st_limit_price :: "decimal option"
  st_stop_price :: "decimal option"
  st_expire_at :: "instant option"
  st_arrival_price :: "decimal option"
  st_arrival_at :: "instant option"
  st_execution_schedule :: "ExecutionSchedule option"
  st_parent_order_id :: string
  st_status :: OrderStatus
  st_filled_quantity :: "decimal option"
  st_leaves_quantity :: "decimal option"
  st_average_fill_price :: "decimal option"
  st_as_of :: "instant option"
  st_venue :: string
  st_venue_account_id :: string
  st_venue_ack_at :: "instant option"
  st_quarantine :: "OrderQuarantine option"
  st_cancel_announced_at :: "instant option"
  st_outcome_announced_at :: "instant option"
  st_accepted_announced_at :: "instant option"
  st_leverage :: "decimal option"
  st_margin_mode :: MarginMode
  st_release_price :: "decimal option"
  st_release_at :: "instant option"
  st_release_bid :: "decimal option"
  st_release_ask :: "decimal option"

record ExecutionFeeApproval =
  ap_proposal_id :: string
  ap_digest :: string
  ap_proposer :: string
  ap_approver :: string
  ap_approved_at :: "Timestamp option"
  ap_previous_execution_digest :: string
  ap_previous_fee :: "money option"

record ExecutionRecoveryProvenance =
  rec_case_id :: string
  rec_mapping_version :: string
  rec_source_cursor :: string
  rec_payload_digest :: string
  rec_observed_at :: "Timestamp option"
  rec_execution_digest :: string
  rec_fee_approval :: "ExecutionFeeApproval option"

record Fill =
  fill_id :: string
  fill_order_id :: string
  fill_instrument_id :: string
  fill_side :: Side
  fill_quantity :: "decimal option"
  fill_price :: "decimal option"
  fill_fee :: "money option"
  fill_venue :: string
  fill_venue_account_id :: string
  fill_venue_execution_id :: string
  fill_executed_at :: "Timestamp option"
  fill_recovery :: "ExecutionRecoveryProvenance option"

section \<open>Refusals\<close>

datatype reject_msg =
    Order_id_required | Portfolio_id_required | Instrument_id_required
  | Instrument_id_too_long nat | Instrument_id_control_byte char nat
  | Side_required | Quantity_must_be_positive | Time_in_force_required | Expire_at_required_for_GTD
  | Order_type_required | Limit_price_required | Stop_price_required
  | Cannot_route OrderStatus | Cannot_reject OrderStatus | Cannot_fill OrderStatus
  | Cannot_cancel OrderStatus | Cannot_expire OrderStatus | Cannot_amend OrderStatus
  | Fill_quantity_must_be_positive | Fill_exceeds_open_quantity
  | New_quantity_must_be_positive | New_quantity_below_filled | Cannot_limit_non_priced

record RejectError =
  Code :: string
  Msg :: reject_msg

datatype unrepresentable = Filled_quantity | Leaves_quantity | Average_fill_price | Amended_leaves

text \<open>A returned error is a refusal or a plain error; \<open>Quo_by_zero\<close> is the panic of \<open>big.Rat.Quo\<close>.\<close>

datatype order_error = Refused RejectError | Not_representable unrepresentable string | Quo_by_zero

definition reject :: "string \<Rightarrow> reject_msg \<Rightarrow> order_error" where
  "reject code msg = Refused \<lparr>Code = code, Msg = msg\<rparr>"

section \<open>Admission\<close>

definition MaxInstrumentIDLen :: nat where
  "MaxInstrumentIDLen = 64"

definition control_byte :: "char \<Rightarrow> bool" where
  "control_byte b \<longleftrightarrow> of_char b < (32 :: nat) \<or> of_char b = (127 :: nat)"

text \<open>The byte loop of \<open>validateInstrumentID\<close>, from position \<open>i\<close>.\<close>

fun first_control_byte :: "nat \<Rightarrow> string \<Rightarrow> (char \<times> nat) option" where
  "first_control_byte i [] = None"
| "first_control_byte i (b # bs) = (if control_byte b then Some (b, i) else first_control_byte (i + 1) bs)"

definition validateInstrumentID :: "string \<Rightarrow> order_error option" where
  "validateInstrumentID iid =
     (if iid = [] then Some (reject ''INVALID_ORDER'' Instrument_id_required)
      else if length iid > MaxInstrumentIDLen then
        Some (reject ''INVALID_ORDER'' (Instrument_id_too_long (length iid)))
      else case first_control_byte 0 iid of
             Some (b, i) \<Rightarrow> Some (reject ''INVALID_ORDER'' (Instrument_id_control_byte b i))
           | None \<Rightarrow> None)"

definition initial_state :: "SubmitOrder \<Rightarrow> instant \<Rightarrow> OrderState" where
  "initial_state cmd now =
    \<lparr>st_order_id = sub_order_id cmd, st_portfolio_id = sub_portfolio_id cmd,
     st_instrument_id = sub_instrument_id cmd, st_side = sub_side cmd,
     st_order_type = sub_order_type cmd, st_time_in_force = sub_time_in_force cmd,
     st_ordered_quantity = sub_quantity cmd, st_limit_price = sub_limit_price cmd,
     st_stop_price = sub_stop_price cmd, st_expire_at = sub_expire_at cmd,
     st_arrival_price = None, st_arrival_at = None, st_execution_schedule = None,
     st_parent_order_id = [], st_status = ORDER_STATUS_PENDING_NEW,
     st_filled_quantity = Some zero_decimal, st_leaves_quantity = sub_quantity cmd,
     st_average_fill_price = None, st_as_of = Some now, st_venue = sub_venue cmd,
     st_venue_account_id = [], st_venue_ack_at = None, st_quarantine = None,
     st_cancel_announced_at = None, st_outcome_announced_at = None, st_accepted_announced_at = None,
     st_leverage = sub_leverage cmd, st_margin_mode = sub_margin_mode cmd,
     st_release_price = None, st_release_at = None, st_release_bid = None, st_release_ask = None\<rparr>"

definition Accept :: "SubmitOrder \<Rightarrow> instant \<Rightarrow> order_error + OrderState" where
  "Accept cmd now =
    (if sub_order_id cmd = [] then Inl (reject ''INVALID_ORDER'' Order_id_required)
     else if sub_portfolio_id cmd = [] then Inl (reject ''INVALID_ORDER'' Portfolio_id_required)
     else case validateInstrumentID (sub_instrument_id cmd) of Some rej \<Rightarrow> Inl rej
     | None \<Rightarrow>
     if sub_side cmd = SIDE_UNSPECIFIED then Inl (reject ''INVALID_ORDER'' Side_required)
     else if \<not> IsPositive (sub_quantity cmd) then Inl (reject ''INVALID_QUANTITY'' Quantity_must_be_positive)
     else if sub_time_in_force cmd = TIME_IN_FORCE_UNSPECIFIED then Inl (reject ''INVALID_ORDER'' Time_in_force_required)
     else if sub_time_in_force cmd = TIME_IN_FORCE_GTD \<and> sub_expire_at cmd = None then
       Inl (reject ''INVALID_ORDER'' Expire_at_required_for_GTD)
     else if sub_order_type cmd = ORDER_TYPE_UNSPECIFIED then Inl (reject ''INVALID_ORDER'' Order_type_required)
     else if (sub_order_type cmd = ORDER_TYPE_LIMIT \<or> sub_order_type cmd = ORDER_TYPE_STOP_LIMIT)
             \<and> \<not> IsPositive (sub_limit_price cmd) then Inl (reject ''INVALID_PRICE'' Limit_price_required)
     else if (sub_order_type cmd = ORDER_TYPE_STOP \<or> sub_order_type cmd = ORDER_TYPE_STOP_LIMIT)
             \<and> \<not> IsPositive (sub_stop_price cmd) then Inl (reject ''INVALID_PRICE'' Stop_price_required)
     else Inr (initial_state cmd now))"

section \<open>Transitions\<close>

definition IsTerminal :: "OrderState \<Rightarrow> bool" where
  "IsTerminal st \<longleftrightarrow> st_status st = ORDER_STATUS_FILLED \<or> st_status st = ORDER_STATUS_CANCELLED
     \<or> st_status st = ORDER_STATUS_REJECTED \<or> st_status st = ORDER_STATUS_EXPIRED"

text \<open>\<open>proto.Clone\<close>: a deep copy, which has every field of the original.\<close>

definition cloneState :: "OrderState \<Rightarrow> OrderState" where
  "cloneState st = st"

declare cloneState_def [simp]

definition Route :: "OrderState \<Rightarrow> instant \<Rightarrow> order_error + OrderState" where
  "Route st now =
    (if IsTerminal st then Inl (reject ''ORDER_TERMINAL'' (Cannot_route (st_status st)))
     else Inr ((cloneState st)\<lparr>st_status := ORDER_STATUS_ROUTED, st_as_of := Some now\<rparr>))"

definition Reject :: "OrderState \<Rightarrow> instant \<Rightarrow> order_error + OrderState" where
  "Reject st now =
    (if IsTerminal st then Inl (reject ''ORDER_TERMINAL'' (Cannot_reject (st_status st)))
     else Inr ((cloneState st)\<lparr>st_status := ORDER_STATUS_REJECTED, st_as_of := Some now\<rparr>))"

definition ApplyFill :: "OrderState \<Rightarrow> Fill \<Rightarrow> instant \<Rightarrow> order_error + OrderState" where
  "ApplyFill st fill now =
    (if IsTerminal st then Inl (reject ''ORDER_TERMINAL'' (Cannot_fill (st_status st)))
     else if \<not> IsPositive (fill_quantity fill) then Inl (reject ''INVALID_FILL'' Fill_quantity_must_be_positive)
     else
       let leaves = FromProto (st_leaves_quantity st); fq = FromProto (fill_quantity fill) in
       if fq > leaves then Inl (reject ''OVERFILL'' Fill_exceeds_open_quantity)
       else
         let oldFilled = FromProto (st_filled_quantity st);
             newFilled = oldFilled + fq;
             newLeaves = FromProto (st_ordered_quantity st) - newFilled;
             cost = oldFilled * FromProto (st_average_fill_price st) + fq * FromProto (fill_price fill)
         in if newFilled = 0 then Inl Quo_by_zero
         else let avg = cost / newFilled in
         case ToProtoScaled (Some newFilled) of
           None \<Rightarrow> Inl (Not_representable Filled_quantity (st_order_id st))
         | Some filled \<Rightarrow>
         (case ToProtoScaled (Some newLeaves) of
           None \<Rightarrow> Inl (Not_representable Leaves_quantity (st_order_id st))
         | Some newLeavesProto \<Rightarrow>
         (case ToProtoScaled (Some avg) of
           None \<Rightarrow> Inl (Not_representable Average_fill_price (st_order_id st))
         | Some avgPx \<Rightarrow>
           Inr ((cloneState st)\<lparr>st_filled_quantity := Some filled, st_leaves_quantity := Some newLeavesProto,
                   st_average_fill_price := Some avgPx, st_as_of := Some now,
                   st_status := (if newLeaves = 0 then ORDER_STATUS_FILLED
                                 else ORDER_STATUS_PARTIALLY_FILLED)\<rparr>))))"

definition Cancel :: "OrderState \<Rightarrow> instant \<Rightarrow> order_error + (OrderState \<times> decimal option)" where
  "Cancel st now =
    (if IsTerminal st then Inl (reject ''ORDER_TERMINAL'' (Cannot_cancel (st_status st)))
     else Inr ((cloneState st)\<lparr>st_status := ORDER_STATUS_CANCELLED, st_as_of := Some now\<rparr>, st_leaves_quantity st))"

definition Expire :: "OrderState \<Rightarrow> instant \<Rightarrow> order_error + (OrderState \<times> decimal option)" where
  "Expire st now =
    (if IsTerminal st then Inl (reject ''ORDER_TERMINAL'' (Cannot_expire (st_status st)))
     else Inr ((cloneState st)\<lparr>st_status := ORDER_STATUS_EXPIRED, st_as_of := Some now\<rparr>, st_leaves_quantity st))"

text \<open>The two optional parts of an amendment, in the order \<open>Amend\<close> applies them.\<close>

definition amend_quantity :: "OrderState \<Rightarrow> decimal option \<Rightarrow> OrderState \<Rightarrow> order_error + OrderState" where
  "amend_quantity st q nxt =
    (case q of None \<Rightarrow> Inr nxt
     | Some _ \<Rightarrow>
       if \<not> IsPositive q then Inl (reject ''INVALID_QUANTITY'' New_quantity_must_be_positive)
       else if Cmp q (st_filled_quantity st) < 0 then Inl (reject ''INVALID_QUANTITY'' New_quantity_below_filled)
       else case ToProtoScaled (Some (FromProto q - FromProto (st_filled_quantity st))) of
              None \<Rightarrow> Inl (Not_representable Amended_leaves (st_order_id st))
            | Some remaining \<Rightarrow> Inr (nxt\<lparr>st_ordered_quantity := q, st_leaves_quantity := Some remaining\<rparr>))"

definition amend_limit :: "OrderState \<Rightarrow> decimal option \<Rightarrow> OrderState \<Rightarrow> order_error + OrderState" where
  "amend_limit st p nxt =
    (case p of None \<Rightarrow> Inr nxt
     | Some _ \<Rightarrow>
       if st_order_type st = ORDER_TYPE_LIMIT \<or> st_order_type st = ORDER_TYPE_STOP_LIMIT
       then Inr (nxt\<lparr>st_limit_price := p\<rparr>)
       else Inl (reject ''INVALID_PRICE'' Cannot_limit_non_priced))"

definition Amend :: "OrderState \<Rightarrow> AmendOrder \<Rightarrow> instant \<Rightarrow> order_error + OrderState" where
  "Amend st cmd now =
    (if IsTerminal st then Inl (reject ''ORDER_TERMINAL'' (Cannot_amend (st_status st)))
     else case amend_quantity st (am_new_quantity cmd) (cloneState st) of Inl e \<Rightarrow> Inl e
     | Inr nxt \<Rightarrow> (case amend_limit st (am_new_limit_price cmd) nxt of Inl e \<Rightarrow> Inl e
     | Inr nxt' \<Rightarrow> Inr (nxt'\<lparr>st_as_of := Some now\<rparr>)))"

section \<open>The state machine\<close>

datatype order_event =
    EvRoute instant
  | EvReject instant
  | EvFill Fill instant
  | EvCancel instant
  | EvExpire instant
  | EvAmend AmendOrder instant

definition apply_event :: "OrderState \<Rightarrow> order_event \<Rightarrow> order_error + OrderState" where
  "apply_event st ev =
    (case ev of
       EvRoute now \<Rightarrow> Route st now
     | EvReject now \<Rightarrow> Reject st now
     | EvFill f now \<Rightarrow> ApplyFill st f now
     | EvCancel now \<Rightarrow> map_sum id fst (Cancel st now)
     | EvExpire now \<Rightarrow> map_sum id fst (Expire st now)
     | EvAmend a now \<Rightarrow> Amend st a now)"

inductive order_step :: "OrderState \<Rightarrow> OrderState \<Rightarrow> bool" where
  route: "Route st now = Inr st' \<Longrightarrow> order_step st st'"
| reject_step: "Reject st now = Inr st' \<Longrightarrow> order_step st st'"
| fill: "ApplyFill st f now = Inr st' \<Longrightarrow> order_step st st'"
| cancel: "Cancel st now = Inr (st', open_qty) \<Longrightarrow> order_step st st'"
| expire: "Expire st now = Inr (st', open_qty) \<Longrightarrow> order_step st st'"
| amend: "Amend st a now = Inr st' \<Longrightarrow> order_step st st'"

inductive admitted :: "OrderState \<Rightarrow> bool" where
  accept: "Accept cmd now = Inr st \<Longrightarrow> admitted st"
| step: "admitted st \<Longrightarrow> order_step st st' \<Longrightarrow> admitted st'"

inductive_cases order_stepE: "order_step st st'"

section \<open>Specification\<close>

text \<open>A rational on the \<open>10^-8\<close> grid whose scaled coefficient is an \<open>int64\<close>.\<close>

definition on_grid :: "rat \<Rightarrow> bool" where
  "on_grid r \<longleftrightarrow> snd (quotient_of (r * 10 ^ 8)) = 1 \<and> IsInt64 (fst (quotient_of (r * 10 ^ 8)))"

definition grid_quantity :: "decimal option \<Rightarrow> bool" where
  "grid_quantity d \<longleftrightarrow> InDomain d \<and> on_grid (FromProto d)"

definition grid_event :: "order_event \<Rightarrow> bool" where
  "grid_event ev =
    (case ev of EvFill f _ \<Rightarrow> grid_quantity (fill_quantity f)
     | EvAmend a _ \<Rightarrow> grid_quantity (am_new_quantity a)
     | _ \<Rightarrow> True)"

definition filled_by :: "order_event \<Rightarrow> rat" where
  "filled_by ev = (case ev of EvFill f _ \<Rightarrow> FromProto (fill_quantity f) | _ \<Rightarrow> 0)"

definition order_ok :: "OrderState \<Rightarrow> bool" where
  "order_ok st \<longleftrightarrow> 0 < FromProto (st_ordered_quantity st) \<and> 0 \<le> FromProto (st_filled_quantity st)"

definition balanced :: "OrderState \<Rightarrow> bool" where
  "balanced st \<longleftrightarrow> on_grid (FromProto (st_ordered_quantity st)) \<and> grid_quantity (st_filled_quantity st)
     \<and> 0 < FromProto (st_ordered_quantity st)
     \<and> 0 \<le> FromProto (st_filled_quantity st) \<and> 0 \<le> FromProto (st_leaves_quantity st)
     \<and> FromProto (st_filled_quantity st) + FromProto (st_leaves_quantity st) = FromProto (st_ordered_quantity st)
     \<and> (st_status st = ORDER_STATUS_FILLED \<longrightarrow> FromProto (st_leaves_quantity st) = 0)"

text \<open>What no transition changes: the state with its mutable fields blanked.\<close>

definition identity_of :: "OrderState \<Rightarrow> OrderState" where
  "identity_of st = st\<lparr>st_status := ORDER_STATUS_UNSPECIFIED, st_ordered_quantity := None,
     st_limit_price := None, st_filled_quantity := None, st_leaves_quantity := None,
     st_average_fill_price := None, st_as_of := None\<rparr>"

section \<open>Sample messages\<close>

definition sample_order :: SubmitOrder where
  "sample_order = \<lparr>sub_metadata = None, sub_order_id = ''o1'', sub_portfolio_id = ''p1'',
     sub_instrument_id = ''BTC'', sub_side = SIDE_BUY,
     sub_quantity = Some \<lparr>coefficient = 3, exponent = 0\<rparr>, sub_order_type = ORDER_TYPE_LIMIT,
     sub_limit_price = Some \<lparr>coefficient = 10, exponent = 0\<rparr>, sub_stop_price = None,
     sub_time_in_force = TIME_IN_FORCE_GTC, sub_expire_at = None, sub_venue = [],
     sub_execution_schedule = None, sub_parent_order_id = [], sub_leverage = None,
     sub_margin_mode = MARGIN_MODE_UNSPECIFIED\<rparr>"

definition sample_fill :: "i64 \<Rightarrow> i32 \<Rightarrow> Fill" where
  "sample_fill c e = \<lparr>fill_id = ''f'', fill_order_id = ''o1'', fill_instrument_id = ''BTC'', fill_side = SIDE_BUY,
     fill_quantity = Some \<lparr>coefficient = c, exponent = e\<rparr>, fill_price = Some \<lparr>coefficient = 9, exponent = 0\<rparr>,
     fill_fee = None, fill_venue = ''X'', fill_venue_account_id = [], fill_venue_execution_id = ''e'',
     fill_executed_at = None, fill_recovery = None\<rparr>"

definition off_grid_order :: SubmitOrder where
  "off_grid_order = sample_order\<lparr>sub_quantity := Some \<lparr>coefficient = 1000000005, exponent = - 9\<rparr>\<rparr>"

section \<open>Conversions on the grid\<close>

lemma on_gridI: "r * 10 ^ 8 = of_int k \<Longrightarrow> IsInt64 k \<Longrightarrow> on_grid r"
  by (simp add: on_grid_def)

lemma on_gridE:
  assumes "on_grid r"
  obtains k where "r * 10 ^ 8 = of_int k" and "IsInt64 k"
  using assms quotient_of_div [of "r * 10 ^ 8"] that by (cases "quotient_of (r * 10 ^ 8)") (auto simp: on_grid_def)

lemma on_grid_between:
  assumes "on_grid r" and "on_grid q" and "0 \<le> q - r" and "0 \<le> r"
  shows "on_grid (q - r)"
proof -
  obtain k l where k: "r * 10 ^ 8 = of_int k" "IsInt64 k" and l: "q * 10 ^ 8 = of_int l" "IsInt64 l"
    using assms(1,2) by (elim on_gridE)
  have "(q - r) * 10 ^ 8 = of_int (l - k)" using k l by (simp add: left_diff_distrib)
  moreover have "0 \<le> (of_int k :: rat)" "0 \<le> (of_int (l - k) :: rat)"
    using k(1) l(1) assms(3,4) by (simp_all add: k(1) [symmetric] l(1) [symmetric] of_int_diff)
  then have "IsInt64 (l - k)" using l by (simp only: of_int_0_le_iff) (auto simp: IsInt64_def)
  ultimately show ?thesis by (rule on_gridI)
qed

lemma on_grid_sum:
  assumes "on_grid r" and "on_grid q" and "on_grid t" and "0 \<le> r" and "0 \<le> q" and "r + q \<le> t"
  shows "on_grid (r + q)"
proof -
  have "on_grid (t - r)" using assms by (intro on_grid_between) auto
  then have "on_grid (t - r - q)" using assms by (intro on_grid_between) auto
  then have "on_grid (t - (t - r - q))" using assms by (intro on_grid_between) auto
  then show ?thesis by (simp add: algebra_simps)
qed

lemma FromProto_ToProto:
  assumes "on_grid r"
  shows "ToProtoScaled (Some r) = Some (ToProto r)" and "FromProto (Some (ToProto r)) = r"
    and "InDomain (Some (ToProto r))"
proof -
  obtain k where k: "r * 10 ^ 8 = of_int k" "IsInt64 k" using assms by (rule on_gridE)
  show "ToProtoScaled (Some r) = Some (ToProto r)" using ToProtoScaled_exact(1) [OF k] .
  have e: "sint (exponent (ToProto r)) = - 8" by (simp add: ToProto_def scale_def)
  then show "InDomain (Some (ToProto r))" by (simp add: InDomain_def maxSafeExponent_def)
  have "FromProto (Some (ToProto r)) = dvalue (Some (ToProto r))"
    by (rule FromProto_dvalue) (simp add: get_exponent_def e)
  then show "FromProto (Some (ToProto r)) = r" using ToProtoScaled_exact(2) [OF k] by simp
qed

lemma FromProto_pos_iff: "0 < FromProto d \<longleftrightarrow> 0 < get_coefficient d"
proof (cases d)
  case (Some x)
  then show ?thesis
    by (simp add: FromProto_def get_coefficient_def Let_def zero_less_mult_iff zero_less_divide_iff
        del: of_int_sint)
qed (simp add: FromProto_def get_coefficient_def)

lemma IsPositive_FromProto: "IsPositive d \<longleftrightarrow> 0 < FromProto d"
  by (simp add: FromProto_pos_iff IsPositive_def sign_sgn sgn_if)

lemma FromProto_InDomain: "InDomain d \<Longrightarrow> FromProto d = dvalue d"
  using InDomain_exponent [of d] by (intro FromProto_dvalue) auto

lemma ToProtoScaled_nonneg:
  assumes "ToProtoScaled (Some r) = Some d" and "0 \<le> r"
  shows "0 \<le> FromProto (Some d)"
proof -
  have "fit (scaledCoefficient r) (- 8) = Some d" using assms by (simp add: ToProtoScaled_def scale_def)
  from fit_sound [OF this] have f: "- 8 \<le> sint (exponent d)" "sgn (dval d) = sgn (of_int (scaledCoefficient r))"
    by auto
  have "0 \<le> (of_int (scaledCoefficient r) :: rat)" using assms(2) scaledCoefficient_sgn_nonneg by simp
  then have "0 \<le> dval d" using f(2) by (metis not_le sgn_less)
  moreover have "FromProto (Some d) = dval d"
    using FromProto_dvalue [of "Some d"] f(1) by (simp add: get_exponent_def)
  ultimately show ?thesis by simp
qed

section \<open>Accepted transitions\<close>

lemma Accept_Inr:
  assumes "Accept cmd now = Inr st"
  shows "st = initial_state cmd now" and "0 < FromProto (sub_quantity cmd)"
  using assms by (auto simp: Accept_def IsPositive_FromProto split: if_splits option.splits)

lemma ApplyFill_Inr:
  assumes "ApplyFill st f now = Inr st'"
  obtains filled leaves avgPx where
    "\<not> IsTerminal st" "0 < FromProto (fill_quantity f)"
    "FromProto (fill_quantity f) \<le> FromProto (st_leaves_quantity st)"
    "FromProto (st_filled_quantity st) + FromProto (fill_quantity f) \<noteq> 0"
    "ToProtoScaled (Some (FromProto (st_filled_quantity st) + FromProto (fill_quantity f))) = Some filled"
    "ToProtoScaled (Some (FromProto (st_ordered_quantity st)
        - (FromProto (st_filled_quantity st) + FromProto (fill_quantity f)))) = Some leaves"
    "ToProtoScaled (Some ((FromProto (st_filled_quantity st) * FromProto (st_average_fill_price st)
        + FromProto (fill_quantity f) * FromProto (fill_price f))
        / (FromProto (st_filled_quantity st) + FromProto (fill_quantity f)))) = Some avgPx"
    "st' = st\<lparr>st_filled_quantity := Some filled, st_leaves_quantity := Some leaves,
        st_average_fill_price := Some avgPx, st_as_of := Some now,
        st_status := (if FromProto (st_ordered_quantity st)
            = FromProto (st_filled_quantity st) + FromProto (fill_quantity f) then ORDER_STATUS_FILLED
          else ORDER_STATUS_PARTIALLY_FILLED)\<rparr>"
  using assms
  by (auto simp: ApplyFill_def Let_def IsPositive_FromProto split: if_splits option.splits)

lemma amend_quantity_Inr:
  assumes "amend_quantity st q nxt = Inr st'"
  obtains "q = None" "st' = nxt"
  | remaining where "0 < FromProto q" "dvalue (st_filled_quantity st) \<le> dvalue q"
      "ToProtoScaled (Some (FromProto q - FromProto (st_filled_quantity st))) = Some remaining"
      "st' = nxt\<lparr>st_ordered_quantity := q, st_leaves_quantity := Some remaining\<rparr>"
  using assms
  by (auto simp: amend_quantity_def IsPositive_FromProto Cmp_correct bigCmp_def not_less
      split: if_splits option.splits)

lemma amend_limit_Inr: "amend_limit st p nxt = Inr st' \<Longrightarrow> \<exists>l. st' = nxt\<lparr>st_limit_price := l\<rparr>"
  by (cases p) (auto simp: amend_limit_def split: if_splits intro: exI [of _ "st_limit_price st'"])

lemma Amend_Inr:
  assumes "Amend st a now = Inr st'"
  obtains l nxt where "\<not> IsTerminal st" "amend_quantity st (am_new_quantity a) st = Inr nxt"
    "st' = nxt\<lparr>st_limit_price := l, st_as_of := Some now\<rparr>"
  using assms amend_limit_Inr
  by (fastforce simp: Amend_def split: if_splits sum.splits)

section \<open>Every transition keeps the invariants\<close>

lemma IsTerminal_upd [simp]:
  "IsTerminal (st\<lparr>st_as_of := x\<rparr>) = IsTerminal st"
  by (simp add: IsTerminal_def)

lemma apply_event_terminal: "IsTerminal st \<Longrightarrow> \<exists>m. apply_event st ev = Inl (reject ''ORDER_TERMINAL'' m)"
  by (cases ev) (auto simp: apply_event_def Route_def Reject_def ApplyFill_def Cancel_def Expire_def Amend_def)

text \<open>The transitions that only move the status.\<close>

lemma apply_event_cases:
  assumes "apply_event st ev = Inr st'"
  obtains s now where "st' = st\<lparr>st_status := s, st_as_of := Some now\<rparr>" "s \<noteq> ORDER_STATUS_FILLED" "filled_by ev = 0"
  | f now where "ev = EvFill f now" "ApplyFill st f now = Inr st'"
  | a now where "ev = EvAmend a now" "Amend st a now = Inr st'"
  using assms
  by (cases ev) (auto simp: apply_event_def Route_def Reject_def Cancel_def Expire_def filled_by_def split: if_splits)

lemma order_ok_event:
  assumes "order_ok st" and "apply_event st ev = Inr st'"
  shows "order_ok st'"
  using assms(2)
proof (cases rule: apply_event_cases)
  case (2 f now)
  from 2(2) show ?thesis
  proof (rule ApplyFill_Inr)
    fix filled leaves avgPx
    assume "0 < FromProto (fill_quantity f)"
      and "ToProtoScaled (Some (FromProto (st_filled_quantity st) + FromProto (fill_quantity f))) = Some filled"
      and "st' = st\<lparr>st_filled_quantity := Some filled, st_leaves_quantity := Some leaves,
        st_average_fill_price := Some avgPx, st_as_of := Some now,
        st_status := (if FromProto (st_ordered_quantity st)
            = FromProto (st_filled_quantity st) + FromProto (fill_quantity f) then ORDER_STATUS_FILLED
          else ORDER_STATUS_PARTIALLY_FILLED)\<rparr>"
    then show ?thesis using assms(1) ToProtoScaled_nonneg by (simp add: order_ok_def)
  qed
next
  case (3 a now)
  from 3(2) obtain l nxt where n: "amend_quantity st (am_new_quantity a) st = Inr nxt"
    "st' = nxt\<lparr>st_limit_price := l, st_as_of := Some now\<rparr>" by (rule Amend_Inr)
  from n(1) have "order_ok nxt" using assms(1) by (cases rule: amend_quantity_Inr) (auto simp: order_ok_def)
  then show ?thesis using n(2) by (simp add: order_ok_def)
qed (use assms(1) in \<open>simp add: order_ok_def\<close>)

lemma ApplyFill_no_panic: "order_ok st \<Longrightarrow> ApplyFill st f now \<noteq> Inl Quo_by_zero"
  by (auto simp: ApplyFill_def Let_def order_ok_def IsPositive_FromProto reject_def
      split: if_splits option.splits)

lemma ApplyFill_balanced:
  assumes "balanced st" and "grid_quantity (fill_quantity f)" and "ApplyFill st f now = Inr st'"
  shows "balanced st'"
    and "FromProto (st_filled_quantity st') = FromProto (st_filled_quantity st) + FromProto (fill_quantity f)"
proof -
  let ?F = "FromProto (st_filled_quantity st)" and ?L = "FromProto (st_leaves_quantity st)"
    and ?O = "FromProto (st_ordered_quantity st)" and ?q = "FromProto (fill_quantity f)"
  have st: "on_grid ?O" "0 < ?O" "0 \<le> ?F" "0 \<le> ?L" "?F + ?L = ?O" using assms(1) by (auto simp: balanced_def)
  have qg: "on_grid ?q" using assms(2) by (simp add: grid_quantity_def)
  from assms(3) obtain filled leaves avgPx where
    q: "0 < ?q" "?q \<le> ?L" and fl: "ToProtoScaled (Some (?F + ?q)) = Some filled"
    and lv: "ToProtoScaled (Some (?O - (?F + ?q))) = Some leaves"
    and st': "st' = st\<lparr>st_filled_quantity := Some filled, st_leaves_quantity := Some leaves,
        st_average_fill_price := Some avgPx, st_as_of := Some now,
        st_status := (if ?O = ?F + ?q then ORDER_STATUS_FILLED else ORDER_STATUS_PARTIALLY_FILLED)\<rparr>"
    by (rule ApplyFill_Inr)
  have "on_grid ?F" using assms(1) by (simp add: balanced_def grid_quantity_def)
  then have gF: "on_grid (?F + ?q)" using st qg q by (intro on_grid_sum [where t = ?O]) auto
  have gL: "on_grid (?O - (?F + ?q))" using gF st q by (intro on_grid_between) auto
  have "filled = ToProto (?F + ?q)" "leaves = ToProto (?O - (?F + ?q))"
    using fl lv FromProto_ToProto(1) [OF gF] FromProto_ToProto(1) [OF gL] by auto
  then show "balanced st'" and "FromProto (st_filled_quantity st') = ?F + ?q"
    using st q gF by (auto simp: st' balanced_def grid_quantity_def FromProto_ToProto(2,3) [OF gF] FromProto_ToProto(2,3) [OF gL])
qed

lemma Amend_balanced:
  assumes "balanced st" and "grid_quantity (am_new_quantity a)" and "Amend st a now = Inr st'"
  shows "balanced st'" and "FromProto (st_filled_quantity st') = FromProto (st_filled_quantity st)"
proof -
  let ?F = "FromProto (st_filled_quantity st)" and ?q = "FromProto (am_new_quantity a)"
  obtain l nxt where t: "\<not> IsTerminal st" and n: "amend_quantity st (am_new_quantity a) st = Inr nxt"
    and st': "st' = nxt\<lparr>st_limit_price := l, st_as_of := Some now\<rparr>" using assms(3) by (rule Amend_Inr)
  have nF: "st_status st \<noteq> ORDER_STATUS_FILLED" using t by (simp add: IsTerminal_def)
  have F: "0 \<le> ?F" "on_grid ?F" "InDomain (st_filled_quantity st)"
    using assms(1) by (auto simp: balanced_def grid_quantity_def)
  from n have "balanced nxt \<and> st_filled_quantity nxt = st_filled_quantity st"
  proof (cases rule: amend_quantity_Inr)
    case 1
    then show ?thesis using assms(1) by simp
  next
    case (2 remaining)
    have q: "on_grid ?q" "?F \<le> ?q"
      using 2(2) assms(2) F(3) FromProto_InDomain by (auto simp: grid_quantity_def)
    then have g: "on_grid (?q - ?F)" using F by (intro on_grid_between) auto
    have "remaining = ToProto (?q - ?F)" using 2(3) FromProto_ToProto(1) [OF g] by simp
    then show ?thesis
      using 2(1,4) q F nF assms(1) by (simp add: balanced_def FromProto_ToProto(2) [OF g])
  qed
  then show "balanced st'" and "FromProto (st_filled_quantity st') = ?F"
    by (auto simp: st' balanced_def)
qed

lemma balanced_event:
  assumes "balanced st" and "grid_event ev" and "apply_event st ev = Inr st'"
  shows "balanced st'" and "FromProto (st_filled_quantity st') = FromProto (st_filled_quantity st) + filled_by ev"
proof -
  from assms(3)
  have "balanced st' \<and> FromProto (st_filled_quantity st') = FromProto (st_filled_quantity st) + filled_by ev"
  proof (cases rule: apply_event_cases)
    case 1
    then show ?thesis using assms(1) by (simp add: balanced_def)
  next
    case (2 f now)
    then show ?thesis using ApplyFill_balanced assms(1,2) by (simp add: grid_event_def filled_by_def)
  next
    case (3 a now)
    then show ?thesis using Amend_balanced assms(1,2) by (simp add: grid_event_def filled_by_def)
  qed
  then show "balanced st'" and "FromProto (st_filled_quantity st') = FromProto (st_filled_quantity st) + filled_by ev"
    by auto
qed

lemma identity_event: "apply_event st ev = Inr st' \<Longrightarrow> identity_of st' = identity_of st"
proof (erule apply_event_cases)
  fix f now
  assume "ApplyFill st f now = Inr st'"
  then show ?thesis by (rule ApplyFill_Inr) (simp add: identity_of_def)
next
  fix a now
  assume "Amend st a now = Inr st'"
  then obtain l nxt where n: "amend_quantity st (am_new_quantity a) st = Inr nxt"
    "st' = nxt\<lparr>st_limit_price := l, st_as_of := Some now\<rparr>" by (rule Amend_Inr)
  from n(1) have "identity_of nxt = identity_of st"
    by (cases rule: amend_quantity_Inr) (auto simp: identity_of_def)
  then show ?thesis using n(2) by (simp add: identity_of_def)
qed (simp add: identity_of_def)

interpretation order_inv: event_invariant apply_event "\<lambda>_. True" order_ok
  by unfold_locales (rule order_ok_event)

interpretation order_frame: event_invariant apply_event "\<lambda>_. True" "\<lambda>s. identity_of s = i" for i
  by unfold_locales (simp add: identity_event)

interpretation order_total: event_sum apply_event grid_event balanced filled_by "\<lambda>s. FromProto (st_filled_quantity s)"
  by unfold_locales (fact balanced_event)+

interpretation order_terminal: terminal_machine apply_event IsTerminal
  by unfold_locales (use apply_event_terminal in blast)

lemma on_grid_0: "on_grid 0"
  by (simp add: on_grid_def IsInt64_def)

lemma FromProto_zero_decimal [simp]: "FromProto (Some zero_decimal) = 0"
  by (simp add: FromProto_def zero_decimal_def)

lemma Accept_order_ok: "Accept cmd now = Inr st \<Longrightarrow> order_ok st"
  using Accept_Inr [of cmd now st] by (simp add: order_ok_def initial_state_def)

lemma InDomain_zero_decimal: "InDomain (Some zero_decimal)"
  by (simp add: InDomain_def maxSafeExponent_def zero_decimal_def)

lemma Accept_balanced: "Accept cmd now = Inr st \<Longrightarrow> on_grid (FromProto (sub_quantity cmd)) \<Longrightarrow> balanced st"
  using Accept_Inr [of cmd now st]
  by (simp add: balanced_def initial_state_def grid_quantity_def on_grid_0 InDomain_zero_decimal)

lemma order_step_event: "order_step st st' \<Longrightarrow> \<exists>ev. apply_event st ev = Inr st'"
proof (erule order_stepE)
  fix now assume "Route st now = Inr st'"
  then show ?thesis by (intro exI [of _ "EvRoute now"]) (simp add: apply_event_def)
next
  fix now assume "Reject st now = Inr st'"
  then show ?thesis by (intro exI [of _ "EvReject now"]) (simp add: apply_event_def)
next
  fix f now assume "ApplyFill st f now = Inr st'"
  then show ?thesis by (intro exI [of _ "EvFill f now"]) (simp add: apply_event_def)
next
  fix now q assume "Cancel st now = Inr (st', q)"
  then show ?thesis by (intro exI [of _ "EvCancel now"]) (simp add: apply_event_def)
next
  fix now q assume "Expire st now = Inr (st', q)"
  then show ?thesis by (intro exI [of _ "EvExpire now"]) (simp add: apply_event_def)
next
  fix a now assume "Amend st a now = Inr st'"
  then show ?thesis by (intro exI [of _ "EvAmend a now"]) (simp add: apply_event_def)
qed

lemma admitted_ok: "admitted st \<Longrightarrow> order_ok st"
  by (induction rule: admitted.induct) (auto dest: Accept_order_ok order_step_event intro: order_ok_event)

lemma first_control_byte_None: "first_control_byte i bs = None \<longleftrightarrow> (\<forall>b \<in> set bs. \<not> control_byte b)"
  by (induction bs arbitrary: i) auto

lemma validateInstrumentID_None:
  "validateInstrumentID iid = None \<longleftrightarrow> iid \<noteq> [] \<and> length iid \<le> 64 \<and> (\<forall>b \<in> set iid. \<not> control_byte b)"
  using first_control_byte_None [of 0 iid]
  by (cases "first_control_byte 0 iid") (auto simp: validateInstrumentID_def MaxInstrumentIDLen_def)

lemma ToProtoScaled_FromProto:
  assumes "ToProtoScaled (Some r) = Some d"
  shows "\<bar>FromProto (Some d) - r\<bar> \<le> 5 / 9 * 10 powi sint (exponent d)"
proof -
  have "fit (scaledCoefficient r) (- 8) = Some d" using assms by (simp add: ToProtoScaled_def scale_def)
  from fit_sound [OF this] have "- 8 \<le> sint (exponent d)" by auto
  then have "FromProto (Some d) = dval d" using FromProto_dvalue [of "Some d"] by (simp add: get_exponent_def)
  then show ?thesis using ToProtoScaled_sound [OF assms] by simp
qed

section \<open>Properties\<close>

text \<open>
  C2: an order whose quantities are on the \<open>10^-8\<close> grid is conserved along every history of commands
  and fills: its filled quantity is the sum of the accepted fills, filled plus leaves is the ordered
  quantity, neither is negative (so no over-fill), and a filled order has nothing left.
\<close>

theorem order_conservation:
  assumes "Accept cmd now = Inr st" and "on_grid (FromProto (sub_quantity cmd))"
    and "list_all grid_event evs"
  shows "let st' = run_events apply_event st evs;
             filled = FromProto (st_filled_quantity st'); leaves = FromProto (st_leaves_quantity st') in
           filled = sum_list (map filled_by (accepted apply_event st evs))
           \<and> filled + leaves = FromProto (st_ordered_quantity st')
           \<and> 0 \<le> filled \<and> 0 \<le> leaves
           \<and> (st_status st' \<noteq> ORDER_STATUS_FILLED \<or> leaves = 0)"
proof -
  have b: "balanced st" using assms(1,2) by (rule Accept_balanced)
  have z: "FromProto (st_filled_quantity st) = 0" using Accept_Inr(1) [OF assms(1)] by (simp add: initial_state_def)
  show ?thesis
    using order_total.inv_run [OF b assms(3)] order_total.total_run [OF b assms(3)]
    by (auto simp: Let_def balanced_def z)
qed

text \<open>
  C4: a terminal order refuses every command and fill with \<open>ORDER_TERMINAL\<close>, so it is the end of every
  history.
\<close>

theorem terminal_absorbing:
  assumes "IsTerminal st"
  shows "(\<exists>m. apply_event st ev = Inl (reject ''ORDER_TERMINAL'' m)) \<and> run_events apply_event st evs = st"
  using apply_event_terminal [OF assms] order_terminal.terminal_run [OF assms] by blast

text \<open>
  C6: no transition touches the order's identity: every field but the status, the quantities, the
  limit price, the average fill price and the timestamp is as admitted (the venue account, the
  collateral terms, the schedule and the announcement markers included).
\<close>

theorem order_identity_frame: "identity_of (run_events apply_event st evs) = identity_of st"
  by (rule order_frame.inv_run) (simp_all add: list_all_iff)

text \<open>A magnitude that some decimal carries for certain: at most \<open>10^2000000000\<close>.\<close>

definition within_scale :: "rat \<Rightarrow> bool" where
  "within_scale r \<longleftrightarrow> (\<exists>k \<le> 2000000000. \<bar>r\<bar> \<le> 10 ^ k)"

lemma within_scale_total: "within_scale r \<Longrightarrow> ToProtoScaled (Some r) \<noteq> None"
  using ToProtoScaled_total unfolding within_scale_def by fastforce

text \<open>
  C10: a fill of an admitted order whose resulting quantities and average price are at most \<open>10^2000000000\<close> in
  magnitude is applied exactly when the order is open and the fill is positive and within the open quantity; otherwise
  it is refused, with the code of the first of these that fails. A fill that is applied leaves the filled quantity,
  the open quantity and the average price exact to 5/9 of a unit in the last place, the order filled exactly when
  nothing of it is left, and partially filled otherwise. Only a result beyond that magnitude can make it
  unrepresentable, and the division by the filled quantity never panics.
\<close>

theorem ApplyFill_correct:
  assumes "admitted st"
  shows "let F = FromProto (st_filled_quantity st); q = FromProto (fill_quantity f);
             left = FromProto (st_ordered_quantity st) - (F + q);
             avg = (F * FromProto (st_average_fill_price st) + q * FromProto (fill_price f)) / (F + q);
             fits = \<not> IsTerminal st \<and> 0 < q \<and> q \<le> FromProto (st_leaves_quantity st) in
         case ApplyFill st f now of
           Inr st' \<Rightarrow> fits \<and> (\<exists>d l a. st_filled_quantity st' = Some d \<and> st_leaves_quantity st' = Some l
             \<and> st_average_fill_price st' = Some a
             \<and> \<bar>FromProto (Some d) - (F + q)\<bar> \<le> 5 / 9 * 10 powi sint (exponent d)
             \<and> \<bar>FromProto (Some l) - left\<bar> \<le> 5 / 9 * 10 powi sint (exponent l)
             \<and> \<bar>FromProto (Some a) - avg\<bar> \<le> 5 / 9 * 10 powi sint (exponent a))
             \<and> st_status st' = (if left = 0 then ORDER_STATUS_FILLED else ORDER_STATUS_PARTIALLY_FILLED)
         | Inl (Refused r) \<Rightarrow> \<not> fits
             \<and> Code r = (if IsTerminal st then ''ORDER_TERMINAL'' else if q \<le> 0 then ''INVALID_FILL'' else ''OVERFILL'')
         | Inl (Not_representable _ _) \<Rightarrow> fits \<and> \<not> (within_scale (F + q) \<and> within_scale left \<and> within_scale avg)
         | Inl Quo_by_zero \<Rightarrow> False"
proof (cases "ApplyFill st f now")
  case (Inl e)
  then show ?thesis using ApplyFill_no_panic [OF admitted_ok [OF assms], of f now]
    by (auto simp: Let_def ApplyFill_def reject_def IsPositive_FromProto split: if_splits option.splits
        dest!: within_scale_total)
next
  case (Inr st')
  then show ?thesis
    by (rule ApplyFill_Inr) (auto simp: Inr Let_def dest!: ToProtoScaled_FromProto)
qed

text \<open>
  what \<open>Accept\<close> admits is well formed (identifiers present, instrument id of at most 64 bytes and
  free of control bytes, a side, a positive quantity, the prices and the deadline its type needs) and
  starts pending, with nothing filled and everything left.
\<close>

theorem Accept_sound:
  assumes "Accept cmd now = Inr st"
  shows "st_order_id st \<noteq> [] \<and> st_portfolio_id st \<noteq> [] \<and> st_instrument_id st \<noteq> []
    \<and> length (st_instrument_id st) \<le> 64 \<and> (\<forall>b \<in> set (st_instrument_id st). \<not> control_byte b)
    \<and> st_side st \<noteq> SIDE_UNSPECIFIED \<and> 0 < FromProto (st_ordered_quantity st)
    \<and> (st_time_in_force st \<noteq> TIME_IN_FORCE_GTD \<or> st_expire_at st \<noteq> None)
    \<and> (st_order_type st \<notin> {ORDER_TYPE_LIMIT, ORDER_TYPE_STOP_LIMIT} \<or> 0 < FromProto (st_limit_price st))
    \<and> (st_order_type st \<notin> {ORDER_TYPE_STOP, ORDER_TYPE_STOP_LIMIT} \<or> 0 < FromProto (st_stop_price st))
    \<and> st_status st = ORDER_STATUS_PENDING_NEW \<and> FromProto (st_filled_quantity st) = 0
    \<and> st_leaves_quantity st = st_ordered_quantity st"
proof -
  have v: "validateInstrumentID (sub_instrument_id cmd) = None"
    using assms by (auto simp: Accept_def split: if_splits option.splits)
  have "sub_order_id cmd \<noteq> [] \<and> sub_portfolio_id cmd \<noteq> [] \<and> sub_side cmd \<noteq> SIDE_UNSPECIFIED
    \<and> 0 < FromProto (sub_quantity cmd)
    \<and> (sub_time_in_force cmd \<noteq> TIME_IN_FORCE_GTD \<or> sub_expire_at cmd \<noteq> None)
    \<and> (sub_order_type cmd \<notin> {ORDER_TYPE_LIMIT, ORDER_TYPE_STOP_LIMIT} \<or> 0 < FromProto (sub_limit_price cmd))
    \<and> (sub_order_type cmd \<notin> {ORDER_TYPE_STOP, ORDER_TYPE_STOP_LIMIT} \<or> 0 < FromProto (sub_stop_price cmd))"
    using assms by (simp add: Accept_def v IsPositive_FromProto split: if_splits)
  then show ?thesis
    using v by (simp add: Accept_Inr(1) [OF assms] initial_state_def validateInstrumentID_None)
qed

section \<open>Witnesses\<close>

lemma sample_accept: "Accept sample_order 5 = Inr (initial_state sample_order 5)"
  by (simp add: Accept_def sample_order_def validateInstrumentID_def MaxInstrumentIDLen_def control_byte_def
      IsPositive_def sign_def get_coefficient_def)

theorem order_conservation_witness:
  "let st' = run_events apply_event (initial_state sample_order 5) [EvFill (sample_fill 1 0) 6, EvFill (sample_fill 4 0) 7];
       filled = FromProto (st_filled_quantity st'); leaves = FromProto (st_leaves_quantity st') in
     filled = sum_list (map filled_by (accepted apply_event (initial_state sample_order 5)
        [EvFill (sample_fill 1 0) 6, EvFill (sample_fill 4 0) 7]))
     \<and> filled + leaves = FromProto (st_ordered_quantity st') \<and> 0 \<le> filled \<and> 0 \<le> leaves
     \<and> (st_status st' \<noteq> ORDER_STATUS_FILLED \<or> leaves = 0)"
  by (rule order_conservation [OF sample_accept])
    (simp_all add: sample_order_def sample_fill_def grid_event_def grid_quantity_def InDomain_def maxSafeExponent_def
      on_grid_def FromProto_def IsInt64_def)

theorem terminal_absorbing_witness:
  "run_events apply_event ((initial_state sample_order 5)\<lparr>st_status := ORDER_STATUS_CANCELLED\<rparr>) [EvRoute 6, EvFill (sample_fill 1 0) 7]
   = (initial_state sample_order 5)\<lparr>st_status := ORDER_STATUS_CANCELLED\<rparr>"
  by (rule terminal_absorbing [THEN conjunct2]) (simp add: IsTerminal_def)

theorem ApplyFill_correct_witness:
  "admitted (initial_state sample_order 5)
   \<and> (\<exists>st'. ApplyFill (initial_state sample_order 5) (sample_fill 3 0) 6 = Inr st' \<and> st_status st' = ORDER_STATUS_FILLED)"
proof -
  have q: "FromProto (sub_quantity sample_order) = 3" "FromProto (fill_quantity (sample_fill 3 0)) = 3"
    "FromProto (fill_price (sample_fill 3 0)) = FromProto (fill_price (sample_fill 1 0))"
    by (simp_all add: sample_order_def sample_fill_def FromProto_def)
  have w: "within_scale r" if "\<bar>r\<bar> \<le> 10 ^ 3" for r using that unfolding within_scale_def by (intro exI [of _ 3]) simp
  have "\<bar>FromProto (fill_price (sample_fill 3 0))\<bar> \<le> 10 ^ 3" by (simp add: sample_fill_def FromProto_def)
  then show ?thesis
    using ApplyFill_correct [OF admitted.accept [OF sample_accept], of "sample_fill 3 0" 6]
      admitted.accept [OF sample_accept] w [of 3] w [of 0] w [of "FromProto (fill_price (sample_fill 3 0))"]
    by (auto simp: Let_def initial_state_def q IsTerminal_def split: sum.splits order_error.splits)
qed

theorem Accept_sound_witness:
  "0 < FromProto (st_ordered_quantity (initial_state sample_order 5))
   \<and> st_leaves_quantity (initial_state sample_order 5) = st_ordered_quantity (initial_state sample_order 5)"
  using Accept_sound [OF sample_accept] by blast

text \<open>A history with a partial fill, an over-fill that is refused, and the completing fill.\<close>

lemma sample_history:
  "accepted apply_event (initial_state sample_order 5)
     [EvRoute 5, EvFill (sample_fill 1 0) 6, EvFill (sample_fill 4 0) 7, EvFill (sample_fill 2 0) 8, EvCancel 9]
    = [EvRoute 5, EvFill (sample_fill 1 0) 6, EvFill (sample_fill 2 0) 8]"
  by code_simp

text \<open>
  Off the grid the over-fill guard compares with a rounded quantity: an order for 1.000000005 takes
  fills of 0.5 and 0.50000001, more than was ordered, and stays partially filled with negative leaves.
\<close>

lemma overfill_off_grid:
  "let st = run_events apply_event (initial_state off_grid_order 5)
      [EvFill (sample_fill 5 (- 1)) 6, EvFill (sample_fill 50000001 (- 8)) 7] in
   FromProto (st_filled_quantity st) > FromProto (st_ordered_quantity st)
   \<and> FromProto (st_leaves_quantity st) < 0 \<and> st_status st = ORDER_STATUS_PARTIALLY_FILLED"
  by code_simp

text \<open>An amendment may set a limit price that admission would have refused.\<close>

lemma amend_accepts_negative_limit:
  "\<exists>st'. Amend (initial_state sample_order 5)
      \<lparr>am_metadata = None, am_order_id = ''o1'', am_new_quantity = None,
       am_new_limit_price = Some \<lparr>coefficient = - 1, exponent = 0\<rparr>\<rparr> 6 = Inr st'
    \<and> FromProto (st_limit_price st') < 0"
  by (simp add: Amend_def amend_quantity_def amend_limit_def IsTerminal_def initial_state_def sample_order_def FromProto_def)

end
