(* ===== verification/Go_Lib.thy ===== *)
theory Go_Lib
  imports Kanz_Prelude
begin

text \<open>
  The parts of Go's standard library that the components use on strings and bytes, with the lemmas
  about them: \<open>hex.EncodeToString\<close>, \<open>binary.BigEndian.PutUint64\<close>, \<open>strings.HasPrefix\<close>, decimal
  rendering, and \<open>time.Time.Format\<close> with the layout \<open>RFC3339\<close> in UTC. \<open>sha256\<close> is an argument of
  the definitions that hash, and so are the Unicode-table functions \<open>strings.TrimSpace\<close> and
  \<open>strings.ToLower\<close> (collected in the record \<open>strings_lib\<close>): what is shown of them holds for every
  such function, and a statement about equal hashes exhibits the colliding inputs.
\<close>

section \<open>Definitions\<close>

record strings_lib =
  TrimSpace :: "string \<Rightarrow> string"
  ToLower :: "string \<Rightarrow> string"

definition HasPrefix :: "string \<Rightarrow> string \<Rightarrow> bool" where
  "HasPrefix s p \<longleftrightarrow> take (length p) s = p"

definition hex_digit :: "nat \<Rightarrow> char" where
  "hex_digit n = ''0123456789abcdef'' ! n"

fun hex_encode :: "string \<Rightarrow> string" where
  "hex_encode [] = []"
| "hex_encode (b # bs) = hex_digit (of_char b div 16) # hex_digit (of_char b mod 16) # hex_encode bs"

text \<open>The \<open>k\<close> low-order bytes of \<open>n\<close>, most significant first.\<close>

fun big_endian :: "nat \<Rightarrow> nat \<Rightarrow> string" where
  "big_endian 0 n = []"
| "big_endian (Suc k) n = big_endian k (n div 256) @ [char_of n]"

definition PutUint64 :: "64 word \<Rightarrow> string" where
  "PutUint64 n = big_endian 8 (unat n)"

fun dec_digits :: "nat \<Rightarrow> string" where
  "dec_digits n = (if n < 10 then [char_of (48 + n)] else dec_digits (n div 10) @ [char_of (48 + n mod 10)])"

declare dec_digits.simps [simp del]

definition zero_pad :: "nat \<Rightarrow> string \<Rightarrow> string" where
  "zero_pad w s = replicate (w - length s) (CHR ''0'') @ s"

text \<open>
  The civil date of a number of days since 1 January of year 1: whole 400-, 100-, 4- and 1-year
  cycles, then the month by its cumulative days.
\<close>

definition leap :: "int \<Rightarrow> bool" where
  "leap y \<longleftrightarrow> y mod 4 = 0 \<and> (y mod 100 \<noteq> 0 \<or> y mod 400 = 0)"

definition year_day :: "int \<Rightarrow> int \<times> int" where
  "year_day d =
     (let n400 = d div 146097; d1 = d mod 146097;
          n100 = min 3 (d1 div 36524); d2 = d1 - n100 * 36524;
          n4 = d2 div 1461; d3 = d2 mod 1461;
          n1 = min 3 (d3 div 365)
      in (400 * n400 + 100 * n100 + 4 * n4 + n1 + 1, d3 - n1 * 365))"

definition month_lengths :: "int \<Rightarrow> int list" where
  "month_lengths y = [31, if leap y then 29 else 28, 31, 30, 31, 30, 31, 31, 30, 31, 30, 31]"

fun month_day :: "int \<Rightarrow> int list \<Rightarrow> int \<Rightarrow> int \<times> int" where
  "month_day m [] d = (m, d + 1)"
| "month_day m (l # ls) d = (if d < l then (m, d + 1) else month_day (m + 1) ls (d - l))"

definition RFC3339 :: "instant \<Rightarrow> string" where
  "RFC3339 t =
     (let secs = t div 1000000000; days = secs div 86400; s = secs mod 86400;
          y = fst (year_day days); md = month_day 1 (month_lengths y) (snd (year_day days));
          two = (\<lambda>n. zero_pad 2 (dec_digits (nat n)))
      in (if y < 0 then ''-'' else []) @ zero_pad 4 (dec_digits (nat \<bar>y\<bar>)) @ ''-'' @ two (fst md) @ ''-'' @ two (snd md)
         @ ''T'' @ two (s div 3600) @ '':'' @ two (s mod 3600 div 60) @ '':'' @ two (s mod 60) @ ''Z'')"

text \<open>
  The layout \<open>2006-01-02T15:04:05.999999999Z07:00\<close> in UTC: the fraction of a second without its trailing
  zeros, and nothing when it is zero.
\<close>

definition RFC3339Nano :: "instant \<Rightarrow> string" where
  "RFC3339Nano t =
     (let n = nat (t mod 1000000000);
          frac = (if n = 0 then [] else CHR ''.'' # rev (dropWhile (\<lambda>c. c = CHR ''0'') (rev (zero_pad 9 (dec_digits n)))))
      in butlast (RFC3339 t) @ frac @ ''Z'')"

text \<open>\<open>hex.DecodeString\<close>: the number of bytes decoded, if the string is well-formed hexadecimal.\<close>

definition is_hex :: "char \<Rightarrow> bool" where
  "is_hex c \<longleftrightarrow> c \<in> set ''0123456789abcdefABCDEF''"

definition hex_decoded_len :: "string \<Rightarrow> nat option" where
  "hex_decoded_len s = (if list_all is_hex s \<and> even (length s) then Some (length s div 2) else None)"

definition Itoa :: "int \<Rightarrow> string" where
  "Itoa n = (if n < 0 then CHR ''-'' # dec_digits (nat (- n)) else dec_digits (nat n))"

text \<open>\<open>strings.Join\<close> and \<open>strings.Cut\<close> on one separating character, \<open>strings.CutPrefix\<close>.\<close>

fun strings_Join :: "string list \<Rightarrow> string \<Rightarrow> string" where
  "strings_Join [] sep = []"
| "strings_Join [s] sep = s"
| "strings_Join (s # t # ss) sep = s @ sep @ strings_Join (t # ss) sep"

definition strings_Cut :: "string \<Rightarrow> char \<Rightarrow> (string \<times> string) option" where
  "strings_Cut s c =
     (if c \<in> set s then Some (takeWhile (\<lambda>x. x \<noteq> c) s, tl (dropWhile (\<lambda>x. x \<noteq> c) s)) else None)"

definition CutPrefix :: "string \<Rightarrow> string \<Rightarrow> string option" where
  "CutPrefix s p = (if HasPrefix s p then Some (drop (length p) s) else None)"

text \<open>
  \<open>big.Rat.FloatString\<close>: a fixed number of digits after the point, the last one rounded half away from
  zero, a whole number without rounding.
\<close>

definition FloatString :: "nat \<Rightarrow> rat \<Rightarrow> string" where
  "FloatString prec r =
     (case quotient_of r of (a, b) \<Rightarrow>
        if b = 1 then Itoa a @ (if prec > 0 then ''.'' @ replicate prec (CHR ''0'') else [])
        else let q = \<bar>a\<bar> div b; p = 10 ^ prec;
                 f = (\<bar>a\<bar> mod b) * p div b; g = (\<bar>a\<bar> mod b) * p mod b;
                 f1 = (if 2 * g \<ge> b then f + 1 else f);
                 q2 = (if f1 \<ge> p then q + 1 else q); f2 = (if f1 \<ge> p then f1 - p else f1)
             in (if a < 0 then ''-'' else []) @ dec_digits (nat q2)
                @ (if prec > 0 then ''.'' @ zero_pad prec (dec_digits (nat f2)) else []))"

text \<open>\<open>big.Rat.RatString\<close>: the numerator, with the denominator unless it is 1.\<close>

definition RatString :: "rat \<Rightarrow> string" where
  "RatString r = (case quotient_of r of (a, b) \<Rightarrow> if b = 1 then Itoa a else Itoa a @ ''/'' @ Itoa b)"

text \<open>\<open>timestamppb.New\<close>: whole seconds since 1970 and the nanoseconds of the second.\<close>

definition timestamppb_New :: "instant \<Rightarrow> Timestamp" where
  "timestamppb_New t = \<lparr>ts_seconds = word_of_int (Unix t), ts_nanos = word_of_int (t mod 1000000000)\<rparr>"

text \<open>A loop that returns the first result its body gives.\<close>

fun first_some :: "('a \<Rightarrow> 'b option) \<Rightarrow> 'a list \<Rightarrow> 'b option" where
  "first_some f [] = None"
| "first_some f (x # xs) = (case f x of None \<Rightarrow> first_some f xs | Some y \<Rightarrow> Some y)"

lemma first_some_None: "first_some f xs = None \<longleftrightarrow> (\<forall>x\<in>set xs. f x = None)"
  by (induction xs) (auto split: option.split)

text \<open>A guard that returns early.\<close>

lemma guarded_None: "(case m of None \<Rightarrow> x | Some v \<Rightarrow> Some v) = None \<longleftrightarrow> m = None \<and> x = None"
  by (cases m) auto

section \<open>Hexadecimal and fixed-width encodings\<close>

lemma hex_digit_inject: "m < 16 \<Longrightarrow> n < 16 \<Longrightarrow> hex_digit m = hex_digit n \<Longrightarrow> m = n"
proof -
  have "distinct ''0123456789abcdef''" by simp
  then show "m < 16 \<Longrightarrow> n < 16 \<Longrightarrow> hex_digit m = hex_digit n \<Longrightarrow> m = n"
    unfolding hex_digit_def by (subst (asm) nth_eq_iff_index_eq) auto
qed

lemma hex_digit_mem: "n < 16 \<Longrightarrow> hex_digit n \<in> set ''0123456789abcdef''"
  unfolding hex_digit_def by (rule nth_mem) simp

lemma length_hex_encode [simp]: "length (hex_encode bs) = 2 * length bs"
  by (induction bs) auto

lemma of_char_lt: "of_char b < (256 :: nat)"
  by (metis of_char_mod_256 mod_less_divisor zero_less_numeral)

lemma hex_encode_inject: "hex_encode as = hex_encode bs \<Longrightarrow> as = bs"
proof (induction as arbitrary: bs)
  case Nil
  then show ?case by (cases bs) auto
next
  case (Cons a as)
  then obtain b bs' where bs: "bs = b # bs'" by (cases bs) auto
  have lt: "of_char c div 16 < (16 :: nat)" for c using of_char_lt [of c] by (simp add: less_mult_imp_div_less)
  have "(of_char a :: nat) div 16 = of_char b div 16" "(of_char a :: nat) mod 16 = of_char b mod 16"
    using Cons.prems lt by (auto simp: bs intro: hex_digit_inject)
  then have "(of_char a :: nat) = of_char b" by (metis mult_div_mod_eq)
  then have "a = b" by simp
  then show ?case using Cons bs by auto
qed

lemma hex_encode_no_nul: "CHR 0x00 \<notin> set (hex_encode bs)"
proof (induction bs)
  case (Cons b bs)
  have "of_char b div 16 < (16 :: nat)" using of_char_lt [of b] by (simp add: less_mult_imp_div_less)
  then have "hex_digit (of_char b div 16) \<noteq> CHR 0x00" "hex_digit (of_char b mod 16) \<noteq> CHR 0x00"
    using hex_digit_mem [of "of_char b div 16"] hex_digit_mem [of "of_char b mod 16"] by auto
  then show ?case using Cons by (auto dest: sym)
qed simp

lemma length_big_endian [simp]: "length (big_endian k n) = k"
  by (induction k arbitrary: n) auto

lemma big_endian_inject:
  "m < 256 ^ k \<Longrightarrow> n < 256 ^ k \<Longrightarrow> big_endian k m = big_endian k n \<Longrightarrow> m = n"
proof (induction k arbitrary: m n)
  case (Suc k)
  then have "m div 256 = n div 256" by (intro Suc.IH) (auto simp: less_mult_imp_div_less mult.commute)
  moreover have "m mod 256 = n mod 256"
  proof -
    have "char_of m = (char_of n :: char)" using Suc.prems(3) by simp
    then have "(of_char (char_of m :: char) :: nat) = of_char (char_of n :: char)" by simp
    then show ?thesis by simp
  qed
  ultimately show ?case by (metis mult_div_mod_eq)
qed simp

lemma length_PutUint64 [simp]: "length (PutUint64 n) = 8"
  by (simp add: PutUint64_def)

lemma PutUint64_inject: "PutUint64 m = PutUint64 n \<Longrightarrow> m = n"
proof -
  assume h: "PutUint64 m = PutUint64 n"
  have "unat m < 256 ^ 8" "unat n < 256 ^ 8" using unsigned_less [of m, where ?'a = nat] unsigned_less [of n, where ?'a = nat] by simp_all
  then have "unat m = unat n" using h unfolding PutUint64_def by (rule big_endian_inject)
  then show ?thesis by (rule word_unat_eq_iff [THEN iffD2])
qed

text \<open>Decimal numerals read back; none contains a separator or begins with a sign.\<close>

fun undigits :: "nat \<Rightarrow> string \<Rightarrow> nat" where
  "undigits n [] = n"
| "undigits n (c # cs) = undigits (10 * n + (of_char c - 48)) cs"

lemma undigits_append: "undigits n (cs @ ds) = undigits (undigits n cs) ds"
  by (induction n cs rule: undigits.induct) simp_all

lemma undigits_dec_digits: "undigits 0 (dec_digits n) = n"
proof (induction n rule: dec_digits.induct)
  case (1 n)
  then show ?case
    by (subst dec_digits.simps) (auto simp: undigits_append of_char_of)
qed

lemma dec_digits_chars: "c \<in> set (dec_digits n) \<Longrightarrow> \<exists>k < 10. c = char_of (48 + k :: nat)"
proof (induction n rule: dec_digits.induct)
  case (1 n)
  show ?case
  proof (cases "n < 10")
    case True
    then show ?thesis using 1(2) by (auto simp: dec_digits.simps [of n])
  next
    case False
    then show ?thesis using 1 by (auto simp: dec_digits.simps [of n] intro: exI [of _ "n mod 10"])
  qed
qed

lemma char_of_digit: "k < 10 \<Longrightarrow> char_of (48 + k :: nat) \<noteq> CHR 0x1F \<and> char_of (48 + k) \<noteq> CHR ''-''"
proof -
  assume "k < 10"
  then have "of_char (char_of (48 + k :: nat) :: char) = 48 + k" by (simp add: of_char_of)
  moreover have "c \<noteq> CHR 0x1F \<and> c \<noteq> CHR ''-''" if "of_char c = 48 + k" for c using that by auto
  ultimately show ?thesis by blast
qed

lemma Itoa_no_separator: "CHR 0x1F \<notin> set (Itoa n)"
proof -
  have "CHR 0x1F \<notin> set (dec_digits k)" for k
    using dec_digits_chars [of "CHR 0x1F" k] char_of_digit by fastforce
  then show ?thesis by (simp add: Itoa_def)
qed

lemma Itoa_inject: "Itoa m = Itoa n \<Longrightarrow> m = n"
proof -
  have inj: "a = b" if "dec_digits a = dec_digits b" for a b using that undigits_dec_digits by metis
  have "hd (dec_digits k) \<noteq> CHR ''-''" for k
    using dec_digits_chars [of "hd (dec_digits k)" k] char_of_digit dec_digits.simps [of k] by (metis hd_in_set append_is_Nil_conv not_Cons_self2)
  then have neg: "CHR ''-'' # xs \<noteq> dec_digits k" for xs k by (metis list.sel(1))
  assume "Itoa m = Itoa n"
  then show "m = n" using neg inj [of "nat (- m)" "nat (- n)"] inj [of "nat m" "nat n"]
    by (auto simp: Itoa_def split: if_splits dest: sym)
qed

lemma cut_at:
  assumes "s @ c # t = s' @ c # t'" and "c \<notin> set s" and "c \<notin> set s'"
  shows "s = s' \<and> t = t'"
  using assms by (induction s arbitrary: s') (auto simp: Cons_eq_append_conv split: list.splits)

lemma Itoa_chars: "c \<in> set (Itoa n) \<Longrightarrow> c = CHR ''-'' \<or> 48 \<le> (of_char c :: nat)"
  using dec_digits_chars [of c "nat n"] dec_digits_chars [of c "nat (- n)"] by (auto simp: Itoa_def split: if_splits)

lemma Itoa_plain: "CHR ''/'' \<notin> set (Itoa n)" "CHR ''.'' \<notin> set (Itoa n)"
  using Itoa_chars [of "CHR ''/''" n] Itoa_chars [of "CHR ''.''" n] by auto

lemma Itoa_nonempty [simp]: "Itoa n \<noteq> []"
  by (simp add: Itoa_def dec_digits.simps)

lemma RatString_inject: "RatString a = RatString b \<Longrightarrow> a = b"
proof -
  obtain n d where a: "quotient_of a = (n, d)" by (cases "quotient_of a")
  obtain n' d' where b: "quotient_of b = (n', d')" by (cases "quotient_of b")
  have mixed: "Itoa x \<noteq> Itoa y @ CHR ''/'' # t" for x y t using Itoa_plain(1) [of x] by auto
  assume h: "RatString a = RatString b"
  have "n = n' \<and> d = d'"
  proof (cases "d = 1 \<or> d' = 1")
    case True
    then have "d = 1 \<and> d' = 1 \<and> Itoa n = Itoa n'"
      using h mixed [of n n'] mixed [of n' n] by (auto simp: RatString_def a b split: if_splits dest: sym)
    then show ?thesis using Itoa_inject by blast
  next
    case False
    then have "Itoa n @ CHR ''/'' # Itoa d = Itoa n' @ CHR ''/'' # Itoa d'" using h by (simp add: RatString_def a b)
    from cut_at [OF this Itoa_plain(1) Itoa_plain(1)] show ?thesis using Itoa_inject by blast
  qed
  then show "a = b" using a b by (simp add: quotient_of_inject)
qed

lemma RatString_nonempty [simp]: "RatString r \<noteq> []"
  by (simp add: RatString_def split: prod.split)

lemma undigits_pad: "undigits 0 (zero_pad w s) = undigits 0 s"
proof -
  have "undigits 0 (replicate k (CHR ''0'')) = 0" for k by (induction k) simp_all
  then show ?thesis by (simp add: zero_pad_def undigits_append)
qed

lemma RFC3339_samples:
  "RFC3339 0 = ''0001-01-01T00:00:00Z''"
  "RFC3339 (62135596800 * 1000000000) = ''1970-01-01T00:00:00Z''"
  "RFC3339 ((62135596800 + 1709210096) * 1000000000) = ''2024-02-29T12:34:56Z''"
  by code_simp+

end
