(* ===== verification/Halt_Gate.thy ===== *)
theory Halt_Gate
  imports Go_Lib
begin

text \<open>
  The platform kill-switch \<open>internal/platform/halt\<close> (\<open>halt.go\<close>, and of \<open>arm.go\<close> the refusal text
  and the ways arming closes the gate). A \<open>*Gate\<close> that may be nil is \<open>Gate option\<close>; the mutex makes
  each method one atomic step, so a run of the gate is a sequence of \<open>halt_event\<close>s. The clock
  \<open>g.now\<close> is the instant each step carries. Decoding of a bus payload (\<open>proto.Unmarshal\<close>) is the
  parameter \<open>unmarshal\<close>.
\<close>

section \<open>Data\<close>

datatype OperatingMode = OPERATING_MODE_UNSPECIFIED | OPERATING_MODE_NORMAL | OPERATING_MODE_DEGRADED
  | OPERATING_MODE_MAINTENANCE | OPERATING_MODE_HALTED | OPERATING_MODE_unnamed i32

record ModeChanged =
  component :: string
  previous_mode :: OperatingMode
  new_mode :: OperatingMode
  mc_reason :: string
  changed_by :: string

record Gate =
  mode :: OperatingMode
  reason :: string
  since :: instant

definition SubjectModeChanged :: string where
  "SubjectModeChanged = ''platform.mode.changed''"

definition ComponentSystem :: string where
  "ComponentSystem = ''system''"

section \<open>Operations\<close>

definition NewGate :: "instant \<Rightarrow> Gate" where
  "NewGate now = \<lparr>mode = OPERATING_MODE_UNSPECIFIED, reason = ''gate has not been opened since startup'', since = now\<rparr>"

definition OpenGate :: "instant \<Rightarrow> Gate" where
  "OpenGate now = (NewGate now)\<lparr>mode := OPERATING_MODE_NORMAL, reason := ''opened explicitly at construction''\<rparr>"

definition Halted :: "Gate option \<Rightarrow> bool" where
  "Halted g = (case g of None \<Rightarrow> True | Some x \<Rightarrow> mode x \<noteq> OPERATING_MODE_NORMAL)"

definition State :: "Gate option \<Rightarrow> OperatingMode \<times> string \<times> instant" where
  "State g = (case g of None \<Rightarrow> (OPERATING_MODE_UNSPECIFIED, ''gate not wired'', 0)
              | Some x \<Rightarrow> (mode x, reason x, since x))"

definition Trip :: "instant \<Rightarrow> OperatingMode \<Rightarrow> string \<Rightarrow> Gate option \<Rightarrow> Gate option" where
  "Trip now m why g =
     (case g of None \<Rightarrow> None
      | Some x \<Rightarrow>
          if mode x \<noteq> OPERATING_MODE_NORMAL then Some x
          else Some (x\<lparr>mode := m, reason := why, since := now\<rparr>))"

definition Resume :: "instant \<Rightarrow> string \<Rightarrow> string \<Rightarrow> Gate option \<Rightarrow> Gate option" where
  "Resume now who why g =
     map_option (\<lambda>x. x\<lparr>mode := OPERATING_MODE_NORMAL, reason := ''resumed by '' @ who @ '': '' @ why, since := now\<rparr>) g"

definition Observe :: "instant \<Rightarrow> ModeChanged option \<Rightarrow> Gate option \<Rightarrow> Gate option" where
  "Observe now m g =
     (case (g, m) of
        (Some _, Some mc) \<Rightarrow>
          if new_mode mc \<noteq> OPERATING_MODE_NORMAL then Trip now (new_mode mc) (mc_reason mc) g
          else if HasPrefix (changed_by mc) ''system:'' then g
          else Resume now (changed_by mc) (mc_reason mc) g
      | _ \<Rightarrow> g)"

definition Handle :: "(string \<Rightarrow> string + ModeChanged) \<Rightarrow> instant \<Rightarrow> string \<Rightarrow> Gate option \<Rightarrow> Gate option" where
  "Handle unmarshal now payload g =
     (case unmarshal payload of
        Inl err \<Rightarrow> Trip now OPERATING_MODE_HALTED
          (''undecodable ModeChanged FACT on '' @ SubjectModeChanged @ '': '' @ err) g
      | Inr mc \<Rightarrow> if component mc \<noteq> ComponentSystem then g else Observe now (Some mc) g)"

definition TripOnBusLoss :: "instant \<Rightarrow> string option \<Rightarrow> Gate option \<Rightarrow> Gate option" where
  "TripOnBusLoss now err g =
     Trip now OPERATING_MODE_HALTED
       (''NATS spine disconnected'' @ (case err of None \<Rightarrow> [] | Some e \<Rightarrow> '': '' @ e)) g"

definition modeWord :: "OperatingMode \<Rightarrow> string" where
  "modeWord m = (case m of
       OPERATING_MODE_HALTED \<Rightarrow> ''halted''
     | OPERATING_MODE_DEGRADED \<Rightarrow> ''degraded''
     | OPERATING_MODE_MAINTENANCE \<Rightarrow> ''in maintenance''
     | OPERATING_MODE_NORMAL \<Rightarrow> ''normal''
     | _ \<Rightarrow> ''in an unknown mode'')"

text \<open>\<open>Refusal\<close> returns a text and whether the gate refuses; \<open>None\<close> is the second answer \<open>false\<close>.\<close>

definition Refusal :: "Gate option \<Rightarrow> string option" where
  "Refusal g =
     (if \<not> Halted g then None
      else case State g of (m, why, snc) \<Rightarrow>
        if snc = 0 then Some (''platform is '' @ modeWord m @ '': '' @ why)
        else Some (''platform is '' @ modeWord m @ '' since '' @ RFC3339 snc @ '': '' @ why))"

section \<open>Arming\<close>

text \<open>
  What ends an attempt to arm, as \<open>Arm\<close> and its goroutine see it: no subscriber, a subscription that
  fails with an error, one that ends before it is confirmed, and a confirmation that never comes. A
  cancelled context trips nothing.
\<close>

datatype arm_failure = Nil_subscriber | Subscription_failed string bool | Ended_before_armed bool | Arm_timeout

definition arm_reason :: "arm_failure \<Rightarrow> string option" where
  "arm_reason f =
     (case f of
        Nil_subscriber \<Rightarrow> Some (''no bus subscriber was wired to '' @ SubjectModeChanged
          @ '', so this process cannot hear the platform brake'')
      | Subscription_failed err cancelled \<Rightarrow>
          if cancelled then None else Some (''the halt subscription on '' @ SubjectModeChanged @ '' failed: '' @ err)
      | Ended_before_armed cancelled \<Rightarrow>
          if cancelled then None else Some (''the halt subscription on '' @ SubjectModeChanged @ '' ended before it was armed'')
      | Arm_timeout \<Rightarrow> Some (''the halt subscription on '' @ SubjectModeChanged @ '' did not arm within 30s''))"

definition Arm_fails :: "instant \<Rightarrow> arm_failure \<Rightarrow> Gate option \<Rightarrow> Gate option" where
  "Arm_fails now f g =
     (case arm_reason f of None \<Rightarrow> g | Some why \<Rightarrow> Trip now OPERATING_MODE_HALTED why g)"

text \<open>
  \<open>Arm\<close>: the wait ends when the broker confirms the subscription, when the subscription is done (with
  or without an error) or by the timer. The goroutine trips the gate on an error before it reports it.
\<close>

datatype arm_wait = Armed | Done "string option" | Timed_out

datatype arm_error = Nil_gate | No_subscriber | Could_not_subscribe string | Did_not_arm

definition Arm :: "instant \<Rightarrow> bool \<Rightarrow> bool \<Rightarrow> arm_wait \<Rightarrow> Gate option \<Rightarrow> (arm_error + unit) \<times> Gate option" where
  "Arm now subscriber cancelled waited g =
     (case g of None \<Rightarrow> (Inl Nil_gate, None)
      | Some _ \<Rightarrow>
          if \<not> subscriber then (Inl No_subscriber, Arm_fails now Nil_subscriber g)
          else case waited of
            Armed \<Rightarrow> (Inr (), g)
          | Done (Some err) \<Rightarrow> (Inl (Could_not_subscribe err), Arm_fails now (Subscription_failed err cancelled) g)
          | Done None \<Rightarrow> (Inl (Could_not_subscribe ''the subscription ended before the broker confirmed it''),
              Arm_fails now (Ended_before_armed cancelled) g)
          | Timed_out \<Rightarrow> (Inl Did_not_arm, Arm_fails now Arm_timeout g))"

section \<open>Histories\<close>

datatype halt_event =
    Bus_message string
  | Bus_lost "string option"
  | Arm_attempt bool bool arm_wait
  | Subscription_lost string bool
  | Operator_resume string string

definition halt_step :: "(string \<Rightarrow> string + ModeChanged) \<Rightarrow> Gate option \<Rightarrow> instant \<times> halt_event \<Rightarrow> Gate option" where
  "halt_step unmarshal g ev =
     (case ev of (now, e) \<Rightarrow>
       (case e of
          Bus_message payload \<Rightarrow> Handle unmarshal now payload g
        | Bus_lost err \<Rightarrow> TripOnBusLoss now err g
        | Arm_attempt subscriber cancelled waited \<Rightarrow> snd (Arm now subscriber cancelled waited g)
        | Subscription_lost err cancelled \<Rightarrow> Arm_fails now (Subscription_failed err cancelled) g
        | Operator_resume who why \<Rightarrow> Resume now who why g))"

definition halt_run :: "(string \<Rightarrow> string + ModeChanged) \<Rightarrow> Gate option \<Rightarrow> (instant \<times> halt_event) list \<Rightarrow> Gate option" where
  "halt_run unmarshal = foldl (halt_step unmarshal)"

text \<open>
  An operator's decision to trade: a resume, or a system-wide \<open>NORMAL\<close> fact not issued by \<open>system:\<close>.
\<close>

definition reopens :: "(string \<Rightarrow> string + ModeChanged) \<Rightarrow> halt_event \<Rightarrow> bool" where
  "reopens unmarshal e =
     (case e of
        Bus_message payload \<Rightarrow>
          (case unmarshal payload of Inl _ \<Rightarrow> False
           | Inr mc \<Rightarrow> component mc = ComponentSystem \<and> new_mode mc = OPERATING_MODE_NORMAL
               \<and> \<not> HasPrefix (changed_by mc) ''system:'')
      | Operator_resume _ _ \<Rightarrow> True
      | _ \<Rightarrow> False)"

text \<open>
  A reason not to trade: an undecodable fact, any other system-wide mode, a lost bus, a failed arming.
\<close>

definition closes :: "(string \<Rightarrow> string + ModeChanged) \<Rightarrow> halt_event \<Rightarrow> bool" where
  "closes unmarshal e =
     (case e of
        Bus_message payload \<Rightarrow>
          (case unmarshal payload of Inl _ \<Rightarrow> True
           | Inr mc \<Rightarrow> component mc = ComponentSystem \<and> new_mode mc \<noteq> OPERATING_MODE_NORMAL)
      | Bus_lost _ \<Rightarrow> True
      | Arm_attempt subscriber cancelled waited \<Rightarrow>
          \<not> subscriber \<or> waited = Timed_out \<or> (\<not> cancelled \<and> waited \<noteq> Armed)
      | Subscription_lost _ cancelled \<Rightarrow> \<not> cancelled
      | Operator_resume _ _ \<Rightarrow> False)"

text \<open>A sample decoding, for the witnesses.\<close>

definition sample_unmarshal :: "string \<Rightarrow> string + ModeChanged" where
  "sample_unmarshal p =
     (if p = ''resume'' then Inr \<lparr>component = ''system'', previous_mode = OPERATING_MODE_HALTED,
        new_mode = OPERATING_MODE_NORMAL, mc_reason = ''ok'', changed_by = ''operator:ann''\<rparr>
      else if p = ''auto'' then Inr \<lparr>component = ''system'', previous_mode = OPERATING_MODE_HALTED,
        new_mode = OPERATING_MODE_NORMAL, mc_reason = ''ok'', changed_by = ''system:probe''\<rparr>
      else Inl ''bad'')"

section \<open>One step\<close>

lemmas halt_defs = halt_step_def Handle_def TripOnBusLoss_def Arm_def Arm_fails_def arm_reason_def Observe_def

lemma Trip_Halted: "Halted g \<Longrightarrow> Trip now m why g = g"
  by (auto simp: Halted_def Trip_def split: option.splits)

lemma Trip_closes: "m \<noteq> OPERATING_MODE_NORMAL \<Longrightarrow> Halted (Trip now m why g)"
  by (auto simp: Halted_def Trip_def split: option.split)

lemma Resume_opens: "\<not> Halted (Resume now who why (Some x))"
  by (simp add: Halted_def Resume_def)

lemma halt_step_latched: "Halted g \<Longrightarrow> \<not> reopens unmarshal (snd ev) \<Longrightarrow> halt_step unmarshal g ev = g"
  by (cases ev; cases "snd ev")
    (auto simp: halt_defs reopens_def Trip_Halted split: option.splits sum.splits arm_wait.splits)

lemma halt_step_closes: "closes unmarshal (snd ev) \<Longrightarrow> Halted (halt_step unmarshal g ev)"
  by (cases ev; cases "snd ev"; cases g)
    (auto simp: halt_defs closes_def Trip_closes Halted_def [of None] split: sum.splits arm_wait.splits option.splits)

lemma halt_step_opens: "reopens unmarshal (snd ev) \<Longrightarrow> \<not> Halted (halt_step unmarshal (Some x) ev)"
  by (cases ev; cases "snd ev")
    (auto simp: halt_defs reopens_def Resume_opens split: sum.splits)

lemma halt_run_snoc: "halt_run unmarshal g (evs @ [ev]) = halt_step unmarshal (halt_run unmarshal g evs) ev"
  by (simp add: halt_run_def)

lemma halt_run_latched:
  "Halted g \<Longrightarrow> list_all (\<lambda>ev. \<not> reopens unmarshal (snd ev)) evs \<Longrightarrow> halt_run unmarshal g evs = g"
  by (induction evs) (auto simp: halt_run_def halt_step_latched)

lemma halt_run_open:
  "\<not> Halted (halt_run unmarshal g evs) \<Longrightarrow> Halted g \<Longrightarrow>
   \<exists>pre ev post. evs = pre @ ev # post \<and> reopens unmarshal (snd ev)
     \<and> list_all (\<lambda>e. \<not> closes unmarshal (snd e)) (ev # post)"
proof (induction evs rule: rev_induct)
  case (snoc ev evs)
  have nc: "\<not> closes unmarshal (snd ev)"
    using snoc.prems(1) unfolding halt_run_snoc by (blast dest: halt_step_closes)
  show ?case
  proof (cases "reopens unmarshal (snd ev)")
    case True
    then show ?thesis using nc by (intro exI [of _ evs] exI [of _ ev] exI [of _ "[]"]) simp
  next
    case False
    then have "\<not> Halted (halt_run unmarshal g evs)"
      using snoc.prems(1) halt_step_latched [of "halt_run unmarshal g evs" unmarshal ev]
      by (auto simp: halt_run_snoc)
    then obtain pre e post where "evs = pre @ e # post" "reopens unmarshal (snd e)"
      "list_all (\<lambda>e. \<not> closes unmarshal (snd e)) (e # post)" using snoc.IH snoc.prems(2) by blast
    then show ?thesis using nc
      by (intro exI [of _ pre] exI [of _ e] exI [of _ "post @ [ev]"]) simp
  qed
qed (simp add: halt_run_def)

section \<open>Properties\<close>

text \<open>
  C17: the gate denies by default and latches: one that starts closed (a new gate, or none at all) is
  open at the end of a history only if an operator reopened it at some point and nothing after that
  point, that event included, gave a reason to stop.
\<close>

theorem halt_open_only_by_operator:
  assumes "g = None \<or> g = Some (NewGate t0)" and "\<not> Halted (halt_run unmarshal g evs)"
  shows "\<exists>pre ev post. evs = pre @ ev # post \<and> reopens unmarshal (snd ev)
    \<and> list_all (\<lambda>e. \<not> closes unmarshal (snd e)) (ev # post)"
  using assms by (intro halt_run_open) (auto simp: Halted_def NewGate_def)

text \<open>
  a closed gate keeps its state through every event that is not an operator reopening it: the
  first cause, with its reason and its time, is what an operator reads however long the cascade.
\<close>

theorem halt_first_cause:
  assumes "Halted g" and "list_all (\<lambda>ev. \<not> reopens unmarshal (snd ev)) evs"
  shows "halt_run unmarshal g evs = g \<and> Refusal (halt_run unmarshal g evs) \<noteq> None"
  using halt_run_latched [OF assms] assms(1) by (auto simp: Refusal_def split: prod.splits)

text \<open>
  one event leaves a wired gate open exactly when it reopens it, or when it was open and the event
  gives no reason to close: an undecodable fact, a lost bus or a failed arming always closes it, and
  a component's own mode or an automatic recovery never moves it.
\<close>

theorem halt_step_open_iff:
  "\<not> Halted (halt_step unmarshal (Some x) ev) \<longleftrightarrow>
   reopens unmarshal (snd ev) \<or> (\<not> Halted (Some x) \<and> \<not> closes unmarshal (snd ev))"
proof (cases "reopens unmarshal (snd ev) \<or> closes unmarshal (snd ev) \<or> Halted (Some x)")
  case True
  moreover have "\<not> (reopens unmarshal (snd ev) \<and> closes unmarshal (snd ev))"
    by (cases "snd ev") (auto simp: reopens_def closes_def split: sum.splits)
  ultimately show ?thesis
    using halt_step_opens halt_step_closes halt_step_latched by metis
next
  case False
  then have "halt_step unmarshal (Some x) ev = Some x"
    by (cases ev; cases "snd ev")
      (auto simp: halt_defs reopens_def closes_def split: option.splits sum.splits arm_wait.splits)
  then show ?thesis using False by simp
qed

section \<open>Witnesses\<close>

theorem halt_open_only_by_operator_witness:
  "\<exists>pre ev post. [(2 :: int, Bus_message ''auto''), (3, Bus_message ''resume'')] = pre @ ev # post
    \<and> reopens sample_unmarshal (snd ev) \<and> list_all (\<lambda>e. \<not> closes sample_unmarshal (snd e)) (ev # post)"
proof (rule halt_open_only_by_operator [of "Some (NewGate 1)" 1])
  show "\<not> Halted (halt_run sample_unmarshal (Some (NewGate 1)) [(2, Bus_message ''auto''), (3, Bus_message ''resume'')])"
    by code_simp
qed simp

theorem halt_first_cause_witness:
  "halt_run sample_unmarshal (Some (NewGate 1)) [(2, Bus_lost None), (3, Bus_message ''auto'')] = Some (NewGate 1)
   \<and> Refusal (halt_run sample_unmarshal (Some (NewGate 1)) [(2, Bus_lost None), (3, Bus_message ''auto'')]) \<noteq> None"
proof (rule halt_first_cause)
  show "Halted (Some (NewGate 1))" by (simp add: Halted_def NewGate_def)
  show "list_all (\<lambda>ev. \<not> reopens sample_unmarshal (snd ev)) [(2, Bus_lost None), (3, Bus_message ''auto'')]"
    by code_simp
qed

end
