(* ===== verification/Dual_Control.thy ===== *)
theory Dual_Control
  imports Go_Lib
begin

text \<open>
  The four-eyes rule \<open>internal/dualcontrol/dualcontrol.go\<close>: proposals, their approval by a second
  person, the evidence an approval is, and the digest that binds it to a payload. \<open>sha256\<close> and the
  Unicode-aware string functions (\<open>strings_lib\<close>) are arguments. An \<open>Act\<close> is a Go string.
\<close>

section \<open>Data\<close>

type_synonym Act = string

definition ActExecutionFeeCorrection :: Act where "ActExecutionFeeCorrection = ''EXECUTION_FEE_CORRECTION''"
definition ActPricingOverride :: Act where "ActPricingOverride = ''PRICING_OVERRIDE''"
definition ActMandateChange :: Act where "ActMandateChange = ''MANDATE_CHANGE''"
definition ActOrderSubmission :: Act where "ActOrderSubmission = ''ORDER_SUBMISSION''"

text \<open>The rule that refused; which of its guards did, where a rule has several, is the argument.\<close>

datatype malformed = Id_empty | Act_empty | Subject_empty | Proposer_empty | Digest_empty
  | Ttl_not_positive | Created_zero | No_expiry | Approver_empty | No_pair | No_act | No_timestamp | No_payload

datatype dc_error = ErrSelfApproval string | ErrPayloadChanged string string | ErrExpired instant instant
  | ErrMalformed malformed

record Proposal =
  ID :: string
  p_act :: Act
  Subject :: string
  Proposer :: string
  p_digest :: string
  CreatedAt :: instant
  ExpiresAt :: instant

record Approval =
  act :: Act
  subject :: string
  proposer :: string
  approver :: string
  digest :: string
  approvedAt :: instant

definition DefaultTTL :: duration where
  "DefaultTTL = 24 * 3600 * 1000000000"

section \<open>Operations\<close>

definition normalize :: "strings_lib \<Rightarrow> string \<Rightarrow> string" where
  "normalize lib s = ToLower lib (TrimSpace lib s)"

definition SameSubject :: "strings_lib \<Rightarrow> string \<Rightarrow> string \<Rightarrow> bool" where
  "SameSubject lib a b \<longleftrightarrow> normalize lib a = normalize lib b"

definition short :: "string \<Rightarrow> string" where
  "short d = (if length d \<le> 12 then d else take 12 d)"

definition Propose :: "strings_lib \<Rightarrow> string \<Rightarrow> Act \<Rightarrow> string \<Rightarrow> string \<Rightarrow> string \<Rightarrow> instant \<Rightarrow> duration \<Rightarrow> dc_error + Proposal" where
  "Propose lib i a subj prop dig now ttl =
     (if TrimSpace lib i = [] then Inl (ErrMalformed Id_empty)
      else if a = [] then Inl (ErrMalformed Act_empty)
      else if TrimSpace lib subj = [] then Inl (ErrMalformed Subject_empty)
      else if normalize lib prop = [] then Inl (ErrMalformed Proposer_empty)
      else if TrimSpace lib dig = [] then Inl (ErrMalformed Digest_empty)
      else if ttl \<le> 0 then Inl (ErrMalformed Ttl_not_positive)
      else if now = 0 then Inl (ErrMalformed Created_zero)
      else Inr \<lparr>ID = i, p_act = a, Subject = subj, Proposer = prop, p_digest = dig,
                CreatedAt = now, ExpiresAt = now + ttl\<rparr>)"

definition Approve :: "strings_lib \<Rightarrow> Proposal \<Rightarrow> string \<Rightarrow> string \<Rightarrow> instant \<Rightarrow> dc_error + Approval" where
  "Approve lib p who dig now =
     (if normalize lib (Proposer p) = [] then Inl (ErrMalformed Proposer_empty)
      else if ExpiresAt p = 0 then Inl (ErrMalformed No_expiry)
      else if normalize lib who = [] then Inl (ErrMalformed Approver_empty)
      else if normalize lib who = normalize lib (Proposer p) then Inl (ErrSelfApproval (Proposer p))
      else if dig \<noteq> p_digest p then Inl (ErrPayloadChanged (short (p_digest p)) (short dig))
      else if \<not> now < ExpiresAt p then Inl (ErrExpired (CreatedAt p) (ExpiresAt p))
      else Inr \<lparr>act = p_act p, subject = Subject p, proposer = Proposer p, approver = who,
                digest = p_digest p, approvedAt = now\<rparr>)"

definition proposal_Pending :: "Proposal \<Rightarrow> instant \<Rightarrow> bool" where
  "proposal_Pending p now \<longleftrightarrow> ExpiresAt p \<noteq> 0 \<and> now < ExpiresAt p"

text \<open>What \<open>Digest\<close> writes to the hash: each part behind its length, as eight bytes.\<close>

definition frame :: "string list \<Rightarrow> string" where
  "frame parts = concat (map (\<lambda>part. PutUint64 (word_of_nat (length part)) @ part) parts)"

definition Digest :: "(string \<Rightarrow> string) \<Rightarrow> string list \<Rightarrow> string" where
  "Digest sha256 parts = hex_encode (sha256 (frame parts))"

definition Covers :: "strings_lib \<Rightarrow> Approval \<Rightarrow> Act \<Rightarrow> string \<Rightarrow> dc_error option" where
  "Covers lib ap a dig =
     (if normalize lib (approver ap) = [] \<or> normalize lib (proposer ap) = [] then Some (ErrMalformed No_pair)
      else if act ap = [] then Some (ErrMalformed No_act)
      else if approvedAt ap = 0 then Some (ErrMalformed No_timestamp)
      else if TrimSpace lib (digest ap) = [] then Some (ErrMalformed No_payload)
      else if normalize lib (approver ap) = normalize lib (proposer ap) then Some (ErrSelfApproval (proposer ap))
      else if a \<noteq> act ap then Some (ErrPayloadChanged (act ap) a)
      else if dig \<noteq> digest ap then Some (ErrPayloadChanged (short (digest ap)) (short dig))
      else None)"

text \<open>A sample string library, for the witnesses: ASCII letters and blanks only.\<close>

definition ascii_lib :: strings_lib where
  "ascii_lib = \<lparr>TrimSpace = (\<lambda>s. rev (dropWhile (\<lambda>c. c = CHR '' '') (rev (dropWhile (\<lambda>c. c = CHR '' '') s)))),
     ToLower = map (\<lambda>c. if CHR ''A'' = c then CHR ''a'' else c)\<rparr>"

section \<open>The digest\<close>

lemma frame_Nil [simp]: "frame [] = []"
  by (simp add: frame_def)

lemma frame_Cons [simp]: "frame (p # ps) = PutUint64 (word_of_nat (length p)) @ p @ frame ps"
  by (simp add: frame_def)

lemma word_of_length_inject:
  assumes "length p < 2 ^ 64" and "length q < 2 ^ 64"
    and "(word_of_nat (length p) :: 64 word) = word_of_nat (length q)"
  shows "length p = length q"
proof -
  have "unat (word_of_nat (length p) :: 64 word) = unat (word_of_nat (length q) :: 64 word)" using assms(3) by simp
  then show ?thesis using assms(1,2) by (simp add: unsigned_of_nat take_bit_nat_eq_self)
qed

text \<open>Length prefixes make the framing injective: no separator can be forged inside a part.\<close>

lemma frame_inject:
  assumes "frame ps = frame qs" and "\<forall>p \<in> set ps. length p < 2 ^ 64" and "\<forall>q \<in> set qs. length q < 2 ^ 64"
  shows "ps = qs"
  using assms
proof (induction ps arbitrary: qs)
  case Nil
  then show ?case by (cases qs) (auto dest: arg_cong [where f = length])
next
  case (Cons p ps)
  then obtain q qs' where qs: "qs = q # qs'"
    by (cases qs) (auto dest: arg_cong [where f = length])
  from Cons.prems(1) have h: "PutUint64 (word_of_nat (length p)) @ p @ frame ps
      = PutUint64 (word_of_nat (length q)) @ q @ frame qs'" by (simp add: qs)
  then have w: "PutUint64 (word_of_nat (length p)) = PutUint64 (word_of_nat (length q))"
    and r: "p @ frame ps = q @ frame qs'" by (simp_all add: append_eq_append_conv)
  have "length p = length q"
    using PutUint64_inject [OF w] Cons.prems by (intro word_of_length_inject) (auto simp: qs)
  then have "p = q" "frame ps = frame qs'" using r by (auto simp: append_eq_append_conv)
  then show ?case using Cons by (auto simp: qs)
qed

section \<open>Approvals\<close>

lemma Approve_Inr:
  assumes "Approve lib p who dig now = Inr ap"
  shows "\<not> SameSubject lib who (Proposer p)" "dig = p_digest p" "proposal_Pending p now"
    and "normalize lib who \<noteq> []" "normalize lib (Proposer p) \<noteq> []"
    and "ap = \<lparr>act = p_act p, subject = Subject p, proposer = Proposer p, approver = who,
                digest = p_digest p, approvedAt = now\<rparr>"
  using assms by (auto simp: Approve_def SameSubject_def proposal_Pending_def split: if_splits)

lemma Propose_Inr:
  assumes "Propose lib i a subj prop dig now ttl = Inr p"
  shows "p = \<lparr>ID = i, p_act = a, Subject = subj, Proposer = prop, p_digest = dig, CreatedAt = now, ExpiresAt = now + ttl\<rparr>"
    and "a \<noteq> []" "TrimSpace lib dig \<noteq> []" "0 < ttl" "now \<noteq> 0" "normalize lib prop \<noteq> []"
  using assms by (auto simp: Propose_def split: if_splits)

lemma Covers_None:
  "Covers lib ap a dig = None \<longleftrightarrow>
     normalize lib (approver ap) \<noteq> [] \<and> normalize lib (proposer ap) \<noteq> [] \<and> act ap \<noteq> [] \<and> approvedAt ap \<noteq> 0
     \<and> TrimSpace lib (digest ap) \<noteq> [] \<and> \<not> SameSubject lib (approver ap) (proposer ap) \<and> a = act ap \<and> dig = digest ap"
  by (auto simp: Covers_def SameSubject_def)

section \<open>Properties\<close>

text \<open>
  Equal digests mean equal payloads, part by part, unless the two framed payloads collide under the hash: the length
  prefixes leave no other way for an approval of one value to authorise another.
\<close>

lemma Digest_binds:
  assumes "Digest sha256 ps = Digest sha256 qs"
    and "\<forall>p \<in> set ps. length p < 2 ^ 64" and "\<forall>q \<in> set qs. length q < 2 ^ 64"
    and "sha256 (frame ps) = sha256 (frame qs) \<Longrightarrow> frame ps = frame qs"
  shows "ps = qs"
  using hex_encode_inject [OF assms(1) [unfolded Digest_def]] frame_inject [OF _ assms(2,3)] assms(4) by blast

text \<open>
  C19: four eyes, end to end. If a payload was proposed, a payload was approved and a payload was then accepted under
  the evidence, all three are the same payload, provided they do not collide under \<open>sha256\<close>; the approver is a
  different person from the proposer, the approval came before the proposal expired, and the act and the subject are
  the ones proposed.
\<close>

theorem four_eyes:
  assumes "Propose lib i a subj prop (Digest sha256 ps) created ttl = Inr p"
    and "Approve lib p who (Digest sha256 qs) now = Inr ap"
    and "Covers lib ap a' (Digest sha256 rs) = None"
    and "\<forall>x \<in> set ps \<union> set qs \<union> set rs. length x < 2 ^ 64"
    and "inj_on sha256 {frame ps, frame qs, frame rs}"
  shows "\<not> SameSubject lib (approver ap) (proposer ap) \<and> approver ap = who \<and> proposer ap = prop
    \<and> now < created + ttl \<and> a' = a \<and> subject ap = subj
    \<and> qs = ps \<and> rs = ps"
proof -
  note P = Propose_Inr(1) [OF assms(1)]
  note A = Approve_Inr [OF assms(2)]
  have t: "now < created + ttl" and q: "Digest sha256 qs = Digest sha256 ps"
    and ap: "ap = \<lparr>act = a, subject = subj, proposer = prop, approver = who,
      digest = Digest sha256 ps, approvedAt = now\<rparr>" using A(2,3,6) by (auto simp: P proposal_Pending_def)
  have c: "a' = act ap" "Digest sha256 rs = digest ap" "\<not> SameSubject lib (approver ap) (proposer ap)"
    using assms(3) by (auto simp: Covers_None)
  have "qs = ps" using Digest_binds [of sha256 qs ps] q assms(4,5) by (auto simp: inj_on_def)
  moreover have "rs = ps" using Digest_binds [of sha256 rs ps] c(2) assms(4,5) by (auto simp: ap inj_on_def)
  ultimately show ?thesis using t c ap by simp
qed

lemma sample_digest: "Digest (\<lambda>x. x) [''p''] = ''000000000000000170''"
proof -
  have "big_endian 8 1 = replicate 7 (CHR 0x00) @ [CHR 0x01]" by code_simp
  then have "frame [''p''] = replicate 7 (CHR 0x00) @ [CHR 0x01] @ ''p''" by (simp add: PutUint64_def)
  moreover have "hex_encode (replicate 7 (CHR 0x00) @ [CHR 0x01] @ ''p'') = ''000000000000000170''" by code_simp
  ultimately show ?thesis by (simp only: Digest_def)
qed

theorem four_eyes_witness:
  "\<exists>p ap. Propose ascii_lib ''1'' ActPricingOverride ''x'' ''ann'' (Digest (\<lambda>x. x) [''p'']) 5 10 = Inr p
    \<and> Approve ascii_lib p ''bob'' (Digest (\<lambda>x. x) [''p'']) 7 = Inr ap
    \<and> Covers ascii_lib ap ActPricingOverride (Digest (\<lambda>x. x) [''p'']) = None
    \<and> \<not> SameSubject ascii_lib (approver ap) (proposer ap)"
proof -
  define p where "p = \<lparr>ID = ''1'', p_act = ActPricingOverride, Subject = ''x'', Proposer = ''ann'',
     p_digest = Digest (\<lambda>x. x) [''p''], CreatedAt = 5, ExpiresAt = 15\<rparr>"
  define ap where "ap = \<lparr>act = ActPricingOverride, subject = ''x'', proposer = ''ann'', approver = ''bob'',
     digest = Digest (\<lambda>x. x) [''p''], approvedAt = 7\<rparr>"
  have 1: "Propose ascii_lib ''1'' ActPricingOverride ''x'' ''ann'' (Digest (\<lambda>x. x) [''p'']) 5 10 = Inr p"
    unfolding p_def sample_digest by code_simp
  have 2: "Approve ascii_lib p ''bob'' (Digest (\<lambda>x. x) [''p'']) 7 = Inr ap"
    unfolding p_def ap_def sample_digest by code_simp
  have 3: "Covers ascii_lib ap ActPricingOverride (Digest (\<lambda>x. x) [''p'']) = None"
    unfolding ap_def sample_digest by code_simp
  have 4: "\<forall>x \<in> set [''p''] \<union> set [''p''] \<union> set [''p'']. length x < 2 ^ 64" by simp
  have 5: "inj_on (\<lambda>x. x) {frame [''p''], frame [''p''], frame [''p'']}" by simp
  have "\<not> SameSubject ascii_lib (approver ap) (proposer ap)" using four_eyes [OF 1 2 3 4 5] by blast
  with 1 2 3 show ?thesis by blast
qed

text \<open>
  Nobody approves his own proposal, whatever case or blanks he signs with, and the refusal says
  so: with a well-formed proposal and a non-empty signature, the same subject always gets
  \<open>ErrSelfApproval\<close>, before the payload and the expiry are even looked at.
\<close>

lemma self_approval_refused:
  assumes "Propose lib i a subj prop dig created ttl = Inr p" and "SameSubject lib who prop"
    and "created + ttl \<noteq> 0"
  shows "Approve lib p who dig' now = Inl (ErrSelfApproval prop)"
  using assms Propose_Inr [OF assms(1)] by (auto simp: Approve_def SameSubject_def)

lemma self_approval_refused_witness:
  "\<exists>p. Propose ascii_lib ''1'' ActPricingOverride ''x'' ''ann'' ''d'' 5 10 = Inr p
    \<and> Approve ascii_lib p '' Ann'' ''d'' 7 = Inl (ErrSelfApproval ''ann'')"
proof -
  define p where "p = \<lparr>ID = ''1'', p_act = ActPricingOverride, Subject = ''x'', Proposer = ''ann'',
     p_digest = ''d'', CreatedAt = 5, ExpiresAt = 15\<rparr>"
  have 1: "Propose ascii_lib ''1'' ActPricingOverride ''x'' ''ann'' ''d'' 5 10 = Inr p"
    unfolding p_def by code_simp
  have 2: "SameSubject ascii_lib '' Ann'' ''ann''" by code_simp
  have "(5 :: int) + 10 \<noteq> 0" by simp
  from self_approval_refused [OF 1 2 this] 1 show ?thesis by blast
qed

end
