(* ===== verification/Audit_Chain.thy ===== *)
theory Audit_Chain
  imports Go_Lib
begin

text \<open>
  The tamper-evident audit chain \<open>internal/audit/chain/chain.go\<close>: the hash of a record folds in its
  predecessor's, and a streaming verifier finds the first break. \<open>sha256\<close> is an argument; where its
  documented output length of 32 bytes is used it is a hypothesis.
\<close>

section \<open>Definitions\<close>

definition Genesis :: string where
  "Genesis = ''genesis''"

text \<open>What \<open>Next\<close> writes to the hash.\<close>

definition preimage :: "string \<Rightarrow> string \<Rightarrow> string" where
  "preimage prevHash canonical = prevHash @ [CHR 0x00] @ canonical"

definition Next :: "(string \<Rightarrow> string) \<Rightarrow> string \<Rightarrow> string \<Rightarrow> string" where
  "Next sha256 prevHash canonical = hex_encode (sha256 (preimage prevHash canonical))"

record Link =
  PrevHash :: string
  Hash :: string
  Canonical :: string

record VerifyError =
  Index :: int
  Kind :: string
  Want :: string
  Got :: string

record Verifier =
  prev :: string
  count :: int
  failed :: "VerifyError option"

definition NewVerifier :: Verifier where
  "NewVerifier = \<lparr>prev = [], count = 0, failed = None\<rparr>"

text \<open>\<open>Push\<close> returns the error of the first break and the verifier after the call.\<close>

definition Push :: "(string \<Rightarrow> string) \<Rightarrow> Verifier \<Rightarrow> Link \<Rightarrow> VerifyError option \<times> Verifier" where
  "Push sha256 v0 l =
     (let v = (if prev v0 = [] then v0\<lparr>prev := Genesis\<rparr> else v0);
          i = count v;
          v1 = v\<lparr>count := count v + 1\<rparr>
      in if failed v1 \<noteq> None then (None, v1)
         else if PrevHash l \<noteq> prev v1 then
           let e = \<lparr>Index = i, Kind = ''prev-hash mismatch'', Want = prev v1, Got = PrevHash l\<rparr>
           in (Some e, v1\<lparr>failed := Some e\<rparr>)
         else
           let want = Next sha256 (prev v1) (Canonical l) in
           if Hash l \<noteq> want then
             let e = \<lparr>Index = i, Kind = ''content hash mismatch'', Want = want, Got = Hash l\<rparr>
             in (Some e, v1\<lparr>failed := Some e\<rparr>)
           else (None, v1\<lparr>prev := Hash l\<rparr>))"

definition Result :: "Verifier \<Rightarrow> int \<times> VerifyError option" where
  "Result v = (case failed v of Some e \<Rightarrow> (Index e, Some e) | None \<Rightarrow> (- 1, None))"

text \<open>The loop of \<open>Verify\<close>, which stops at the first error.\<close>

fun verify_from :: "(string \<Rightarrow> string) \<Rightarrow> Verifier \<Rightarrow> Link list \<Rightarrow> int \<times> VerifyError option" where
  "verify_from sha256 v [] = Result v"
| "verify_from sha256 v (l # ls) =
     (case Push sha256 v l of (err, v') \<Rightarrow>
        if err \<noteq> None then Result v' else verify_from sha256 v' ls)"

definition Verify :: "(string \<Rightarrow> string) \<Rightarrow> Link list \<Rightarrow> int \<times> VerifyError option" where
  "Verify sha256 links = verify_from sha256 NewVerifier links"

text \<open>A caller that keeps streaming past the first break.\<close>

definition push_all :: "(string \<Rightarrow> string) \<Rightarrow> Verifier \<Rightarrow> Link list \<Rightarrow> Verifier" where
  "push_all sha256 = foldl (\<lambda>v l. snd (Push sha256 v l))"

section \<open>Error texts\<close>

definition ellipsis :: string where
  "ellipsis = [CHR 0xE2, CHR 0x80, CHR 0xA6]"

definition short_hash :: "string \<Rightarrow> string" where
  "short_hash s = (if length s > 12 then take 12 s @ ellipsis else s)"

text \<open>\<open>itoa\<close> fills a buffer from the back; negating the smallest \<open>int\<close> leaves it negative.\<close>

function itoa_loop :: "int \<Rightarrow> string \<Rightarrow> string" where
  "itoa_loop i b = (if i > 0 then itoa_loop (i div 10) (char_of (nat (48 + i mod 10)) # b) else b)"
  by pat_completeness auto
termination
  by (relation "measure (\<lambda>(i, b). nat i)") auto

declare itoa_loop.simps [simp del]

definition itoa :: "i64 \<Rightarrow> string" where
  "itoa i =
     (if i = 0 then ''0''
      else let neg = sint i < 0; j = (if neg then - i else i); b = itoa_loop (sint j) []
           in if neg then CHR ''-'' # b else b)"

definition VerifyError_Error :: "VerifyError \<Rightarrow> string" where
  "VerifyError_Error e =
     ''chain: '' @ Kind e @ '' at index '' @ itoa (word_of_int (Index e)) @ '' (want '' @ short_hash (Want e)
       @ '', got '' @ short_hash (Got e) @ '')''"

section \<open>Specification\<close>

text \<open>The links an append-only log writes for a sequence of contents.\<close>

fun chain_from :: "(string \<Rightarrow> string) \<Rightarrow> string \<Rightarrow> string list \<Rightarrow> Link list" where
  "chain_from sha256 p [] = []"
| "chain_from sha256 p (c # cs) =
     \<lparr>PrevHash = p, Hash = Next sha256 p c, Canonical = c\<rparr> # chain_from sha256 (Next sha256 p c) cs"

text \<open>The hash after the last link.\<close>

definition head_hash :: "Link list \<Rightarrow> string" where
  "head_hash ls = (if ls = [] then Genesis else Hash (last ls))"

text \<open>The last hash of the chain of some contents, as a fold.\<close>

definition chain_head :: "(string \<Rightarrow> string) \<Rightarrow> string list \<Rightarrow> string" where
  "chain_head sha256 cs = foldl (Next sha256) Genesis cs"

text \<open>A live verifier at predecessor hash \<open>p\<close> (empty only before the first push).\<close>

definition at_hash :: "string \<Rightarrow> Verifier \<Rightarrow> bool" where
  "at_hash p v \<longleftrightarrow> failed v = None \<and> p \<noteq> [] \<and> (prev v = p \<or> prev v = [] \<and> p = Genesis)"

section \<open>The verifier\<close>

lemma at_hash_New: "at_hash Genesis NewVerifier"
  by (simp add: at_hash_def NewVerifier_def Genesis_def)

text \<open>One push of a live verifier, with the predecessor hash resolved.\<close>

lemma Push_at:
  assumes "at_hash p v"
  shows "Push sha256 v l =
    (if PrevHash l \<noteq> p then
       (let e = \<lparr>Index = count v, Kind = ''prev-hash mismatch'', Want = p, Got = PrevHash l\<rparr>
        in (Some e, \<lparr>prev = p, count = count v + 1, failed = Some e\<rparr>))
     else if Hash l \<noteq> Next sha256 p (Canonical l) then
       (let e = \<lparr>Index = count v, Kind = ''content hash mismatch'', Want = Next sha256 p (Canonical l), Got = Hash l\<rparr>
        in (Some e, \<lparr>prev = p, count = count v + 1, failed = Some e\<rparr>))
     else (None, \<lparr>prev = Hash l, count = count v + 1, failed = None\<rparr>))"
proof (cases "prev v = []")
  case True
  then have "p = Genesis" using assms by (auto simp: at_hash_def)
  then show ?thesis using True assms by (cases v) (simp add: Push_def at_hash_def Let_def)
next
  case False
  then show ?thesis using assms by (cases v) (simp add: Push_def at_hash_def Let_def)
qed

lemma Push_ok:
  assumes "at_hash p v" and "PrevHash l = p" and "Hash l = Next sha256 p (Canonical l)"
  shows "Push sha256 v l = (None, \<lparr>prev = Hash l, count = count v + 1, failed = None\<rparr>)"
  using assms by (simp add: Push_at [OF assms(1)])

lemma Push_bad:
  assumes "at_hash p v" and "\<not> (PrevHash l = p \<and> Hash l = Next sha256 p (Canonical l))"
  shows "\<exists>e. Push sha256 v l = (Some e, \<lparr>prev = p, count = count v + 1, failed = Some e\<rparr>) \<and> Index e = count v"
  using assms(2) by (auto simp: Push_at [OF assms(1)] Let_def)

lemma Push_failed:
  assumes "failed v \<noteq> None"
  shows "failed (snd (Push sha256 v l)) = failed v"
  using assms by (cases "prev v = []") (simp_all add: Push_def Let_def)

lemma Push_error:
  assumes "Push sha256 v l = (Some e, v')"
  shows "failed v' = Some e"
  using assms by (cases "prev v = []") (auto simp: Push_def Let_def split: if_splits)

lemma push_all_failed: "failed v \<noteq> None \<Longrightarrow> Result (push_all sha256 v ls) = Result v"
proof (induction ls arbitrary: v)
  case (Cons l ls)
  let ?v = "snd (Push sha256 v l)"
  have f: "failed ?v = failed v" using Cons.prems by (rule Push_failed)
  then have "Result (push_all sha256 ?v ls) = Result ?v" using Cons by simp
  then show ?case using f by (simp add: push_all_def Result_def)
qed (simp add: push_all_def)

lemma Next_nonempty: "length (sha256 (preimage p c)) = 32 \<Longrightarrow> Next sha256 p c \<noteq> []"
  unfolding Next_def by (metis length_hex_encode list.size(3) mult_eq_0_iff zero_neq_numeral)

lemma at_hash_step:
  assumes "\<And>x. length (sha256 x) = 32"
  shows "at_hash (Next sha256 p c) \<lparr>prev = Next sha256 p c, count = n, failed = None\<rparr>"
  using Next_nonempty [of sha256 p c] assms by (simp add: at_hash_def)

text \<open>The verifier accepts exactly the chains an append-only log writes.\<close>

lemma verify_from_intact:
  assumes "\<And>x. length (sha256 x) = 32" and "at_hash p v"
  shows "snd (verify_from sha256 v ls) = None \<longleftrightarrow> ls = chain_from sha256 p (map Canonical ls)"
  using assms(2)
proof (induction ls arbitrary: p v)
  case Nil
  then show ?case by (simp add: Result_def at_hash_def)
next
  case (Cons l ls)
  show ?case
  proof (cases "PrevHash l = p \<and> Hash l = Next sha256 p (Canonical l)")
    case True
    then have l: "l = \<lparr>PrevHash = p, Hash = Next sha256 p (Canonical l), Canonical = Canonical l\<rparr>" by simp
    have a: "at_hash (Next sha256 p (Canonical l)) \<lparr>prev = Hash l, count = count v + 1, failed = None\<rparr>"
      using at_hash_step [OF assms(1)] True by simp
    show ?thesis using Push_ok [OF Cons.prems, of l sha256] True l Cons.IH [OF a] by auto
  next
    case False
    obtain e where "Push sha256 v l = (Some e, \<lparr>prev = p, count = count v + 1, failed = Some e\<rparr>)"
      using Push_bad [OF Cons.prems False] by blast
    then show ?thesis using False by (cases l) (auto simp: Result_def)
  qed
qed

lemma verify_from_push_all:
  "verify_from sha256 v ls = Result (push_all sha256 v ls)"
proof (induction ls arbitrary: v)
  case (Cons l ls)
  obtain err v' where p: "Push sha256 v l = (err, v')" by (cases "Push sha256 v l")
  show ?case
  proof (cases err)
    case None
    then show ?thesis using Cons p by (simp add: push_all_def)
  next
    case (Some e)
    then have "failed v' \<noteq> None" using Push_error p by auto
    then show ?thesis using push_all_failed [of v' sha256 ls] p Some by (simp add: push_all_def)
  qed
qed (simp add: push_all_def)

section \<open>Injectivity of the links\<close>

lemma split_nul: "CHR 0x00 \<notin> set p \<Longrightarrow> CHR 0x00 \<notin> set q \<Longrightarrow> preimage p c = preimage q d \<Longrightarrow> p = q \<and> c = d"
  unfolding preimage_def
proof (induction p arbitrary: q)
  case Nil
  then show ?case by (cases q) auto
next
  case (Cons a p)
  then show ?case by (cases q) auto
qed

lemma Next_inject:
  assumes "Next sha256 p c = Next sha256 q d" and "CHR 0x00 \<notin> set p" and "CHR 0x00 \<notin> set q"
    and "sha256 (preimage p c) = sha256 (preimage q d) \<Longrightarrow> preimage p c = preimage q d"
  shows "p = q \<and> c = d"
  using hex_encode_inject [OF assms(1) [unfolded Next_def]] split_nul [OF assms(2,3), of c d] assms(4) by blast

text \<open>What a link hashes.\<close>

definition link_input :: "Link \<Rightarrow> string" where
  "link_input l = preimage (PrevHash l) (Canonical l)"

lemma chain_from_snoc:
  "chain_from sha256 p (cs @ [c]) = chain_from sha256 p cs
     @ [\<lparr>PrevHash = foldl (Next sha256) p cs, Hash = Next sha256 (foldl (Next sha256) p cs) c, Canonical = c\<rparr>]"
  by (induction cs arbitrary: p) auto

lemma Next_no_nul: "CHR 0x00 \<notin> set (Next sha256 p c)"
  by (simp add: Next_def hex_encode_no_nul)

lemma Next_not_Genesis: "length (sha256 (preimage p c)) = 32 \<Longrightarrow> Next sha256 p c \<noteq> Genesis"
proof
  assume "length (sha256 (preimage p c)) = 32" and "Next sha256 p c = Genesis"
  then have "2 * 32 = length Genesis" by (metis Next_def length_hex_encode)
  then show False by (simp add: Genesis_def)
qed

lemma head_chain_from:
  "(if cs = [] then p else Hash (last (chain_from sha256 p cs))) = foldl (Next sha256) p cs"
proof (induction cs arbitrary: p)
  case (Cons c cs)
  show ?case using Cons.IH [of "Next sha256 p c"] by (cases cs) auto
qed simp

lemma chain_from_Nil: "chain_from sha256 p cs = [] \<longleftrightarrow> cs = []"
  by (cases cs) auto

lemma head_hash_chain: "head_hash (chain_from sha256 Genesis cs) = chain_head sha256 cs"
  using head_chain_from [of cs Genesis sha256] by (simp add: head_hash_def chain_head_def chain_from_Nil)

lemma chain_head_no_nul: "CHR 0x00 \<notin> set (chain_head sha256 cs)"
proof (cases cs rule: rev_cases)
  case Nil
  then show ?thesis by (simp add: chain_head_def Genesis_def)
next
  case (snoc ds d)
  then show ?thesis by (simp add: chain_head_def Next_no_nul)
qed

lemma chain_head_inject:
  assumes "\<And>x. length (sha256 x) = 32" and "chain_head sha256 cs = chain_head sha256 ds"
    and "inj_on sha256 (link_input ` (set (chain_from sha256 Genesis cs) \<union> set (chain_from sha256 Genesis ds)))"
  shows "cs = ds"
  using assms(2,3)
proof (induction cs arbitrary: ds rule: rev_induct)
  case Nil
  show ?case
  proof (cases ds rule: rev_cases)
    case (snoc ds' d)
    then show ?thesis
      using Nil(1) Next_not_Genesis [OF assms(1)] by (auto simp: chain_head_def dest: sym)
  qed simp
next
  case (snoc c cs)
  note IH = snoc.IH and prem = snoc.prems
  show ?case
  proof (cases ds rule: rev_cases)
    case Nil
    then show ?thesis using prem(1) Next_not_Genesis [OF assms(1)] by (simp add: chain_head_def)
  next
    case (snoc ds' d)
    then have "Next sha256 (chain_head sha256 cs) c = Next sha256 (chain_head sha256 ds') d"
      using prem(1) by (simp add: chain_head_def)
    moreover have "sha256 (preimage (chain_head sha256 cs) c) = sha256 (preimage (chain_head sha256 ds') d) \<Longrightarrow>
        preimage (chain_head sha256 cs) c = preimage (chain_head sha256 ds') d"
      by (rule inj_onD [OF prem(2)]) (simp_all add: snoc chain_from_snoc link_input_def chain_head_def)
    ultimately have "chain_head sha256 cs = chain_head sha256 ds'" "c = d"
      using Next_inject [OF _ chain_head_no_nul chain_head_no_nul] by blast+
    moreover have "inj_on sha256 (link_input ` (set (chain_from sha256 Genesis cs) \<union> set (chain_from sha256 Genesis ds')))"
      using prem(2) snoc by (auto simp: chain_from_snoc elim!: inj_on_subset)
    ultimately show ?thesis using IH [of ds'] snoc by simp
  qed
qed

lemma Canonical_chain_from [simp]: "map Canonical (chain_from sha256 p cs) = cs"
  by (induction cs arbitrary: p) auto

lemma Verify_chain_from:
  assumes "\<And>x. length (sha256 x) = 32"
  shows "snd (Verify sha256 (chain_from sha256 Genesis cs)) = None"
  using verify_from_intact [OF assms at_hash_New, where ls = "chain_from sha256 Genesis cs"] by (simp add: Verify_def)

section \<open>The first break\<close>

lemma verify_from_index:
  assumes "\<And>x. length (sha256 x) = 32" and "at_hash p v" and "verify_from sha256 v ls = (i, Some e)"
  shows "\<exists>k < length ls. i = count v + int k
    \<and> take k ls = chain_from sha256 p (map Canonical (take k ls))
    \<and> take (Suc k) ls \<noteq> chain_from sha256 p (map Canonical (take (Suc k) ls))"
  using assms(2,3)
proof (induction ls arbitrary: p v)
  case Nil
  then show ?case by (simp add: Result_def at_hash_def)
next
  case (Cons l ls)
  show ?case
  proof (cases "PrevHash l = p \<and> Hash l = Next sha256 p (Canonical l)")
    case True
    have a: "at_hash (Next sha256 p (Canonical l)) \<lparr>prev = Hash l, count = count v + 1, failed = None\<rparr>"
      using at_hash_step [OF assms(1)] True by simp
    have "verify_from sha256 \<lparr>prev = Hash l, count = count v + 1, failed = None\<rparr> ls = (i, Some e)"
      using Cons.prems(2) Push_ok [OF Cons.prems(1), of l sha256] True by simp
    from Cons.IH [OF a this] obtain k where "k < length ls" "i = count v + int (Suc k)"
      "take k ls = chain_from sha256 (Next sha256 p (Canonical l)) (map Canonical (take k ls))"
      "take (Suc k) ls \<noteq> chain_from sha256 (Next sha256 p (Canonical l)) (map Canonical (take (Suc k) ls))"
      by auto
    then show ?thesis using True by (intro exI [of _ "Suc k"]) (cases l, auto)
  next
    case False
    then obtain e' where e': "Push sha256 v l = (Some e', \<lparr>prev = p, count = count v + 1, failed = Some e'\<rparr>)"
      "Index e' = count v" using Push_bad [OF Cons.prems(1)] by blast
    then have "i = count v" using Cons.prems(2) by (simp add: Result_def)
    then show ?thesis using False by (intro exI [of _ 0]) (cases l, auto)
  qed
qed

section \<open>Decimal rendering\<close>

lemma itoa_loop_digits: "0 < i \<Longrightarrow> itoa_loop i b = dec_digits (nat i) @ b"
proof (induction i b rule: itoa_loop.induct)
  case (1 i b)
  have d: "char_of (nat (48 + i mod 10)) = (char_of (48 + nat i mod 10) :: char)"
    using "1.prems" by (simp add: nat_add_distrib nat_mod_distrib)
  show ?case
  proof (cases "i < 10")
    case True
    then have "i div 10 = 0" "nat i mod 10 = nat i" using "1.prems" by auto
    then show ?thesis using "1.prems" True d by (simp add: itoa_loop.simps dec_digits.simps)
  next
    case False
    then have "0 < i div 10" by (simp add: pos_imp_zdiv_pos_iff)
    then have "itoa_loop (i div 10) (char_of (nat (48 + i mod 10)) # b)
        = dec_digits (nat i div 10) @ char_of (48 + nat i mod 10) # b"
      using 1 d by (simp add: nat_div_distrib)
    moreover have "\<not> nat i < 10" using False by simp
    ultimately show ?thesis using "1.prems" by (simp add: itoa_loop.simps [of i] dec_digits.simps [of "nat i"])
  qed
qed

lemma itoa_nonneg:
  assumes "0 \<le> sint i"
  shows "itoa i = dec_digits (nat (sint i))"
proof (cases "sint i = 0")
  case True
  have "i = word_of_int (sint i)" by simp
  then have "i = 0" by (simp only: True) simp
  moreover have "dec_digits 0 = ''0''" by code_simp
  ultimately show ?thesis by (simp add: itoa_def)
next
  case False
  then have "i \<noteq> 0" by auto
  then show ?thesis using assms False itoa_loop_digits [of "sint i" "[]"] by (simp add: itoa_def Let_def)
qed

section \<open>Properties\<close>

text \<open>
  C22: tamper evidence. Two logs that both verify and end in the same hash are the same log, link by link, provided no
  two different inputs that their links hash collide under \<open>sha256\<close>: nothing can be altered, dropped, added or
  reordered behind a head that was noted elsewhere.
\<close>

theorem tamper_evidence:
  assumes "\<forall>x. length (sha256 x) = 32"
    and "snd (Verify sha256 ls) = None" and "snd (Verify sha256 ms) = None"
    and "head_hash ls = head_hash ms"
    and "inj_on sha256 (link_input ` (set ls \<union> set ms))"
  shows "ls = ms"
proof -
  have h: "\<And>x. length (sha256 x) = 32" using assms(1) by simp
  have c: "ls = chain_from sha256 Genesis (map Canonical ls)" "ms = chain_from sha256 Genesis (map Canonical ms)"
    using assms(2,3) verify_from_intact [OF h at_hash_New] by (auto simp: Verify_def)
  then have "chain_head sha256 (map Canonical ls) = chain_head sha256 (map Canonical ms)"
    using assms(4) head_hash_chain by metis
  then have "map Canonical ls = map Canonical ms"
    using chain_head_inject [where cs = "map Canonical ls" and ds = "map Canonical ms", OF h] assms(5) by (simp flip: c)
  then show ?thesis using c by metis
qed

text \<open>
  verification accepts exactly the chains an append-only log writes from the genesis anchor, and
  reports index -1 for them.
\<close>

theorem Verify_iff_chain:
  assumes "\<forall>x. length (sha256 x) = 32"
  shows "Verify sha256 ls = (- 1, None) \<longleftrightarrow> ls = chain_from sha256 Genesis (map Canonical ls)"
proof -
  have h: "\<And>x. length (sha256 x) = 32" using assms by simp
  have "Verify sha256 ls = (- 1, None) \<longleftrightarrow> snd (Verify sha256 ls) = None"
    by (auto simp: Verify_def verify_from_push_all Result_def split: option.splits)
  then show ?thesis using verify_from_intact [OF h at_hash_New] by (simp add: Verify_def)
qed

text \<open>
  a reported break is the first one: the links before the index are a well-formed chain and the
  link at the index is not its continuation.
\<close>

theorem Verify_first_break:
  assumes "\<forall>x. length (sha256 x) = 32" and "Verify sha256 ls = (i, Some e)"
  shows "\<exists>k < length ls. i = int k
    \<and> take k ls = chain_from sha256 Genesis (map Canonical (take k ls))
    \<and> take (Suc k) ls \<noteq> chain_from sha256 Genesis (map Canonical (take (Suc k) ls))"
proof -
  have h: "\<And>x. length (sha256 x) = 32" using assms(1) by simp
  from verify_from_index [OF h at_hash_New assms(2) [unfolded Verify_def]]
  show ?thesis by (simp add: NewVerifier_def)
qed

text \<open>
  Verifying as rows stream in, without stopping at a break, gives the same answer as the batch
  walk that stops there.
\<close>

lemma Verify_streaming: "Result (push_all sha256 NewVerifier ls) = Verify sha256 ls"
  by (simp add: Verify_def verify_from_push_all)

section \<open>Witnesses\<close>

text \<open>A stand-in for the hash: the first 32 characters of the input, padded.\<close>

definition sample_hash :: "string \<Rightarrow> string" where
  "sample_hash x = take 32 (x @ replicate 32 (CHR ''a''))"

theorem tamper_evidence_witness:
  "chain_from sample_hash Genesis [''x'', ''y''] = chain_from sample_hash Genesis [''x'', ''y'']
   \<and> link_input ` set (chain_from sample_hash Genesis [''x'', ''y'']) \<noteq> {}"
proof -
  have len: "length (sample_hash x) = 32" for x by (simp add: sample_hash_def)
  have v: "snd (Verify sample_hash (chain_from sample_hash Genesis [''x'', ''y''])) = None"
    by (rule Verify_chain_from [OF len])
  have "distinct (map sample_hash (map link_input (chain_from sample_hash Genesis [''x'', ''y''])))" by code_simp
  then have "inj_on sample_hash (set (map link_input (chain_from sample_hash Genesis [''x'', ''y''])))"
    by (simp only: distinct_map [of _ "map link_input _"])
  then have "inj_on sample_hash (link_input ` (set (chain_from sample_hash Genesis [''x'', ''y''])
      \<union> set (chain_from sample_hash Genesis [''x'', ''y''])))" by (simp only: set_map Un_absorb)
  from tamper_evidence [OF _ v v refl this] len show ?thesis by simp
qed

theorem Verify_iff_chain_witness:
  "Verify (\<lambda>_. replicate 32 (CHR ''a'')) (chain_from (\<lambda>_. replicate 32 (CHR ''a'')) Genesis [''x'', ''y'']) = (- 1, None)"
  by (subst Verify_iff_chain) simp_all

theorem Verify_first_break_witness:
  "\<exists>k < length [\<lparr>PrevHash = ''forged'', Hash = [], Canonical = ''x''\<rparr>]. (0 :: int) = int k"
proof -
  have "Verify (\<lambda>_. replicate 32 (CHR ''a'')) [\<lparr>PrevHash = ''forged'', Hash = [], Canonical = ''x''\<rparr>]
    = (0, Some \<lparr>Index = 0, Kind = ''prev-hash mismatch'', Want = Genesis, Got = ''forged''\<rparr>)"
    by (simp add: Verify_def Push_at [OF at_hash_New]) (simp add: Genesis_def Result_def NewVerifier_def Let_def)
  from Verify_first_break [OF _ this] show ?thesis by auto
qed

end
