(* ===== verification/Outbox_Record.thy ===== *)
theory Outbox_Record
  imports Go_Lib
begin

text \<open>
  The records of the transactional outbox (\<open>internal/outbox/outbox.go\<close>): capturing a bus event as a
  row (\<open>From\<close>) and rebuilding the event from the row (\<open>Event\<close>). The protobuf runtime is the
  parameter \<open>proto_lib\<close> over the message type \<open>'m\<close>; what the code relies on (a registered message
  type decodes what it encoded) is the hypothesis \<open>proto_roundtrip\<close>.
\<close>

section \<open>Data\<close>

text \<open>\<open>bus.Event\<close>: what the caller of a publish supplies. A nil payload is \<open>None\<close>.\<close>

record 'm BusEvent =
  ev_EventID :: string
  ev_Subject :: string
  ev_EventType :: string
  ev_EventClass :: i32
  ev_SchemaVersion :: "32 word"
  ev_Domain :: string
  ev_EventTime :: instant
  ev_IngestionTime :: instant
  ev_PartitionKey :: string
  ev_IdempotencyKey :: string
  ev_PayloadSchemaRef :: string
  ev_QualityFlags :: "i32 list"
  ev_CorrelationID :: string
  ev_CausationID :: string
  ev_TraceContext :: string
  ev_TenantID :: string
  ev_Payload :: "'m option"
  ev_ExpectedLastSubjectSeq :: "64 word option"

record Record =
  Subject :: string
  EventType :: string
  EventClass :: i32
  SchemaVersion :: "32 word"
  Domain :: string
  EventTime :: instant
  PartitionKey :: string
  PayloadSchemaRef :: string
  CorrelationID :: string
  CausationID :: string
  TraceContext :: string
  TenantID :: string
  Payload :: string

text \<open>What the context carries for the lineage fields.\<close>

record Ctx =
  TenantIDFromContext :: string
  CorrelationIDFromContext :: string
  CausationIDFromContext :: string
  TraceparentFromContext :: string
  TraceContextFromContext :: string

datatype outbox_error =
    Payload_required
  | EventTime_required
  | PartitionKey_required
  | ErrNoTenant string
  | Marshal_failed string string
  | No_schema_ref string
  | ErrUnknownPayloadType string string string
  | Decode_failed string string string

text \<open>The protobuf runtime, and the rendering of an error by \<open>fmt\<close>.\<close>

record 'm proto_lib =
  Marshal :: "'m \<Rightarrow> string + string"
  FullName :: "'m \<Rightarrow> string"
  FindMessageByName :: "string \<Rightarrow> string + (string \<Rightarrow> string + 'm)"
  Render :: "outbox_error \<Rightarrow> string"

section \<open>Capture and rebuild\<close>

definition schemaRef :: "'m proto_lib \<Rightarrow> 'm BusEvent \<Rightarrow> 'm \<Rightarrow> string" where
  "schemaRef lib e payload =
     (if ev_PayloadSchemaRef e \<noteq> [] then ev_PayloadSchemaRef e
      else FullName lib payload @ '':'' @ dec_digits (unat (ev_SchemaVersion e)))"

text \<open>An explicit field, and failing that what the context carries.\<close>

definition or_else :: "string \<Rightarrow> string \<Rightarrow> string" where
  "or_else s d = (if s = [] then d else s)"

definition From :: "'m proto_lib \<Rightarrow> Ctx \<Rightarrow> 'm BusEvent \<Rightarrow> outbox_error + Record" where
  "From lib ctx e =
     (case ev_Payload e of None \<Rightarrow> Inl Payload_required
      | Some m \<Rightarrow>
      if ev_EventTime e = 0 then Inl EventTime_required
      else if ev_PartitionKey e = [] then Inl PartitionKey_required
      else let tenant = or_else (ev_TenantID e) (TenantIDFromContext ctx) in
      if tenant = [] then Inl (ErrNoTenant (ev_EventType e))
      else case Marshal lib m of Inl err \<Rightarrow> Inl (Marshal_failed (ev_EventType e) err)
      | Inr bytes \<Rightarrow>
        Inr \<lparr>Subject = ev_Subject e, EventType = ev_EventType e, EventClass = ev_EventClass e,
             SchemaVersion = ev_SchemaVersion e, Domain = ev_Domain e, EventTime = ev_EventTime e,
             PartitionKey = ev_PartitionKey e, PayloadSchemaRef = schemaRef lib e m,
             CorrelationID = or_else (ev_CorrelationID e) (CorrelationIDFromContext ctx),
             CausationID = or_else (ev_CausationID e) (CausationIDFromContext ctx),
             TraceContext = or_else (or_else (ev_TraceContext e) (TraceparentFromContext ctx)) (TraceContextFromContext ctx),
             TenantID = tenant, Payload = bytes\<rparr>)"

text \<open>\<open>name[:strings.LastIndex(name, ":")]\<close>, or the whole name where there is no colon.\<close>

definition before_last_colon :: "string \<Rightarrow> string" where
  "before_last_colon s =
     (if CHR '':'' \<in> set s then rev (tl (dropWhile (\<lambda>c. c \<noteq> CHR '':'') (rev s))) else s)"

definition Event :: "'m proto_lib \<Rightarrow> Record \<Rightarrow> outbox_error + 'm BusEvent" where
  "Event lib r =
     (let name = before_last_colon (PayloadSchemaRef r) in
      if name = [] then Inl (No_schema_ref (EventType r))
      else case FindMessageByName lib name of Inl err \<Rightarrow> Inl (ErrUnknownPayloadType name (EventType r) err)
      | Inr unmarshal \<Rightarrow>
        (case unmarshal (Payload r) of Inl err \<Rightarrow> Inl (Decode_failed (EventType r) name err)
         | Inr msg \<Rightarrow>
           Inr \<lparr>ev_EventID = [], ev_Subject = Subject r, ev_EventType = EventType r, ev_EventClass = EventClass r,
                ev_SchemaVersion = SchemaVersion r, ev_Domain = Domain r, ev_EventTime = EventTime r,
                ev_IngestionTime = 0, ev_PartitionKey = PartitionKey r, ev_IdempotencyKey = [],
                ev_PayloadSchemaRef = PayloadSchemaRef r, ev_QualityFlags = [],
                ev_CorrelationID = CorrelationID r, ev_CausationID = CausationID r,
                ev_TraceContext = TraceContext r, ev_TenantID = TenantID r, ev_Payload = Some msg,
                ev_ExpectedLastSubjectSeq = None\<rparr>))"

definition causeLimit :: nat where
  "causeLimit = 1000"

definition boundedCause :: "string option \<Rightarrow> string" where
  "boundedCause cause =
     (case cause of None \<Rightarrow> [] | Some msg \<Rightarrow> if length msg > causeLimit then take causeLimit msg else msg)"

section \<open>Specification\<close>

text \<open>
  The event with its lineage resolved against the context, which is what the producer would stamp,
  without the fields the row has no column for.
\<close>

definition resolved :: "'m proto_lib \<Rightarrow> Ctx \<Rightarrow> 'm BusEvent \<Rightarrow> 'm BusEvent" where
  "resolved lib ctx e =
     e\<lparr>ev_PayloadSchemaRef := (case ev_Payload e of None \<Rightarrow> [] | Some m \<Rightarrow> schemaRef lib e m),
       ev_CorrelationID := or_else (ev_CorrelationID e) (CorrelationIDFromContext ctx),
       ev_CausationID := or_else (ev_CausationID e) (CausationIDFromContext ctx),
       ev_TraceContext := or_else (or_else (ev_TraceContext e) (TraceparentFromContext ctx)) (TraceContextFromContext ctx),
       ev_TenantID := or_else (ev_TenantID e) (TenantIDFromContext ctx),
       ev_EventID := [], ev_IngestionTime := 0, ev_IdempotencyKey := [], ev_QualityFlags := [],
       ev_ExpectedLastSubjectSeq := None\<rparr>"

text \<open>The protobuf contract: a registered name, which has no colon, decodes what its messages encode to.\<close>

definition proto_roundtrip :: "'m proto_lib \<Rightarrow> bool" where
  "proto_roundtrip lib \<longleftrightarrow>
     (\<forall>m bytes. Marshal lib m = Inr bytes \<longrightarrow>
        FullName lib m \<noteq> [] \<and> (\<exists>u. FindMessageByName lib (FullName lib m) = Inr u \<and> u bytes = Inr m))"

text \<open>A sample library, whose only messages are strings.\<close>

definition string_lib :: "string proto_lib" where
  "string_lib = \<lparr>Marshal = Inr, FullName = (\<lambda>_. ''t.S''),
     FindMessageByName = (\<lambda>n. if n = ''t.S'' then Inr Inr else Inl ''unknown''),
     Render = (\<lambda>_. ''error'')\<rparr>"

definition sample_event :: "string BusEvent" where
  "sample_event = \<lparr>ev_EventID = [], ev_Subject = ''s'', ev_EventType = ''T'', ev_EventClass = 1, ev_SchemaVersion = 2,
     ev_Domain = ''d'', ev_EventTime = 5, ev_IngestionTime = 0, ev_PartitionKey = ''o1'', ev_IdempotencyKey = [],
     ev_PayloadSchemaRef = [], ev_QualityFlags = [],
     ev_CorrelationID = [], ev_CausationID = [], ev_TraceContext = [], ev_TenantID = [], ev_Payload = Some ''x'',
     ev_ExpectedLastSubjectSeq = None\<rparr>"

definition sample_ctx :: Ctx where
  "sample_ctx = \<lparr>TenantIDFromContext = ''acme'', CorrelationIDFromContext = ''c'', CausationIDFromContext = [],
     TraceparentFromContext = [], TraceContextFromContext = ''t''\<rparr>"

section \<open>Lemmas\<close>

lemma dec_digits_no_colon: "CHR '':'' \<notin> set (dec_digits n)"
proof (induction n rule: dec_digits.induct)
  case (1 n)
  have d: "char_of (48 + d) \<noteq> CHR '':''" if "d < 10" for d :: nat
  proof
    assume "char_of (48 + d) = CHR '':''"
    then have "(of_char (char_of (48 + d) :: char) :: nat) = of_char (CHR '':'')" by simp
    then show False using that by simp
  qed
  show ?case using 1 d [of n] d [of "n mod 10"] by (auto simp: dec_digits.simps [of n] dest: sym)
qed

lemma before_last_colon_append:
  assumes "CHR '':'' \<notin> set ys"
  shows "before_last_colon (xs @ '':'' @ ys) = xs"
proof -
  have "dropWhile (\<lambda>c. c \<noteq> CHR '':'') (rev ys @ CHR '':'' # rev xs) = CHR '':'' # rev xs"
    using assms by (subst dropWhile_append2) auto
  then show ?thesis by (simp add: before_last_colon_def)
qed

lemma From_Inr:
  assumes "From lib ctx e = Inr r"
  obtains m bytes where "ev_Payload e = Some m" "Marshal lib m = Inr bytes" "ev_PartitionKey e \<noteq> []"
    "or_else (ev_TenantID e) (TenantIDFromContext ctx) \<noteq> []"
    "r = \<lparr>Subject = ev_Subject e, EventType = ev_EventType e, EventClass = ev_EventClass e,
             SchemaVersion = ev_SchemaVersion e, Domain = ev_Domain e, EventTime = ev_EventTime e,
             PartitionKey = ev_PartitionKey e, PayloadSchemaRef = schemaRef lib e m,
             CorrelationID = or_else (ev_CorrelationID e) (CorrelationIDFromContext ctx),
             CausationID = or_else (ev_CausationID e) (CausationIDFromContext ctx),
             TraceContext = or_else (or_else (ev_TraceContext e) (TraceparentFromContext ctx)) (TraceContextFromContext ctx),
             TenantID = or_else (ev_TenantID e) (TenantIDFromContext ctx), Payload = bytes\<rparr>"
  using assms by (auto simp: From_def Let_def split: option.splits sum.splits if_splits)

lemma length_boundedCause: "length (boundedCause c) \<le> causeLimit"
  by (simp add: boundedCause_def causeLimit_def split: option.split)

section \<open>Properties\<close>

text \<open>
  an event captured in the outbox is rebuilt exactly as the synchronous publish would have stamped
  it: same payload, same routing, and the correlation, causation, trace and tenant resolved from the
  context it was captured in, with only the fields the row has no column for (event id, ingestion
  time, idempotency key, quality flags, expected sequence) back at their zero values; and what is
  captured always has a tenant and a partition key.
\<close>

theorem capture_rebuild:
  assumes "proto_roundtrip lib" and "ev_PayloadSchemaRef e = []" and "From lib ctx e = Inr r"
  shows "Event lib r = Inr (resolved lib ctx e) \<and> TenantID r \<noteq> [] \<and> PartitionKey r \<noteq> []"
  using assms(3)
proof (rule From_Inr)
  fix m bytes
  assume m: "ev_Payload e = Some m" "Marshal lib m = Inr bytes" "ev_PartitionKey e \<noteq> []"
    "or_else (ev_TenantID e) (TenantIDFromContext ctx) \<noteq> []"
    and r: "r = \<lparr>Subject = ev_Subject e, EventType = ev_EventType e, EventClass = ev_EventClass e,
             SchemaVersion = ev_SchemaVersion e, Domain = ev_Domain e, EventTime = ev_EventTime e,
             PartitionKey = ev_PartitionKey e, PayloadSchemaRef = schemaRef lib e m,
             CorrelationID = or_else (ev_CorrelationID e) (CorrelationIDFromContext ctx),
             CausationID = or_else (ev_CausationID e) (CausationIDFromContext ctx),
             TraceContext = or_else (or_else (ev_TraceContext e) (TraceparentFromContext ctx)) (TraceContextFromContext ctx),
             TenantID = or_else (ev_TenantID e) (TenantIDFromContext ctx), Payload = bytes\<rparr>"
  obtain u where u: "FullName lib m \<noteq> []" "FindMessageByName lib (FullName lib m) = Inr u" "u bytes = Inr m"
    using assms(1) m(2) unfolding proto_roundtrip_def by blast
  have ref: "schemaRef lib e m = FullName lib m @ '':'' @ dec_digits (unat (ev_SchemaVersion e))"
    using assms(2) by (simp add: schemaRef_def)
  have "before_last_colon (schemaRef lib e m) = FullName lib m"
    unfolding ref by (rule before_last_colon_append) (rule dec_digits_no_colon)
  then show ?thesis using u m by (simp add: Event_def r resolved_def)
qed

theorem capture_rebuild_witness:
  "\<exists>r. From string_lib sample_ctx sample_event = Inr r
     \<and> Event string_lib r = Inr (resolved string_lib sample_ctx sample_event)"
proof -
  have 1: "proto_roundtrip string_lib" by (simp add: proto_roundtrip_def string_lib_def)
  have 2: "ev_PayloadSchemaRef sample_event = []" by (simp add: sample_event_def)
  obtain r where 3: "From string_lib sample_ctx sample_event = Inr r"
    by (simp add: From_def sample_event_def sample_ctx_def string_lib_def or_else_def)
  from capture_rebuild [OF 1 2 3] 3 show ?thesis by blast
qed

text \<open>A caller's quality flags and publish condition do not survive the outbox.\<close>

lemma capture_drops_flags:
  "\<exists>r e'. From string_lib sample_ctx (sample_event\<lparr>ev_QualityFlags := [3], ev_ExpectedLastSubjectSeq := Some 7\<rparr>) = Inr r
     \<and> Event string_lib r = Inr e' \<and> ev_QualityFlags e' = [] \<and> ev_ExpectedLastSubjectSeq e' = None"
proof -
  have "before_last_colon (''t.S:'' @ dec_digits 2) = ''t.S''"
    using before_last_colon_append [OF dec_digits_no_colon, of "''t.S''" 2] by simp
  then show ?thesis
    by (simp add: From_def sample_event_def sample_ctx_def string_lib_def or_else_def schemaRef_def Event_def)
qed

end
