(* ===== verification/Outbox_Relay.thy ===== *)
theory Outbox_Relay
  imports Outbox_Record
begin

text \<open>
  The outbox queue and the relay that drains it: the in-process queue \<open>internal/outbox/memory.go\<close>
  and \<open>internal/outbox/relay.go\<close>. The Go interface \<open>Queue\<close> is a record of operations over a queue
  state \<open>'q\<close>; its contract is the locale \<open>queue_contract\<close>, in which the relay's behaviour is proved once, and
  which is interpreted on \<open>Memory\<close>. Each method of \<open>Memory\<close> holds its mutex throughout, so it is one
  atomic step. A publisher may fail at any call, before or after the broker stored the event: \<open>pub n e\<close> is the
  answer to the \<open>n\<close>-th publish. Any number of relays and handlers drain at once: \<open>relay_world\<close> interleaves their single
  calls of the queue and the publisher, and the drains run alone are among its runs.
\<close>

section \<open>The queue interface\<close>

record Pending =
  p_ID :: int
  p_Attempts :: int
  p_Record :: Record
  p_LastError :: string

text \<open>
  \<open>LockKey\<close> gets the key, finds it held, or gives up waiting because its context ended. A waiting call
  is the call made once the wait is over: it sees the key held only if the context ended first.
\<close>

datatype lock_result = Acquired | Held | Wait_cancelled string

record 'q Queue =
  PendingKeys :: "nat \<Rightarrow> 'q \<Rightarrow> string + string list"
  LockKey :: "string \<Rightarrow> bool \<Rightarrow> 'q \<Rightarrow> lock_result \<times> 'q"
  release :: "string \<Rightarrow> 'q \<Rightarrow> 'q"
  PendingFor :: "string \<Rightarrow> nat \<Rightarrow> 'q \<Rightarrow> string + Pending list"
  MarkPublished :: "int \<Rightarrow> 'q \<Rightarrow> string option \<times> 'q"
  MarkFailed :: "int \<Rightarrow> string \<Rightarrow> 'q \<Rightarrow> string option \<times> 'q"
  OldestPendingAge :: "instant \<Rightarrow> 'q \<Rightarrow> string + duration option"

section \<open>The in-process queue\<close>

record memRow =
  row_id :: int
  attempts :: int
  rec :: Record
  enqueued :: instant
  lastErr :: string

record Memory =
  next_id :: int
  rows :: "memRow list"
  locked :: "string \<Rightarrow> bool"

definition NewMemory :: Memory where
  "NewMemory = \<lparr>next_id = 0, rows = [], locked = (\<lambda>_. False)\<rparr>"

text \<open>\<open>Append\<close> stops at the first record without a tenant, keeping what it appended before.\<close>

fun mem_Append :: "instant \<Rightarrow> Record list \<Rightarrow> Memory \<Rightarrow> string option \<times> Memory" where
  "mem_Append now [] m = (None, m)"
| "mem_Append now (r # rs) m =
     (if TenantID r = [] then (Some ''outbox: record with no tenant'', m)
      else mem_Append now rs
        (m\<lparr>next_id := next_id m + 1,
           rows := rows m @ [\<lparr>row_id = next_id m + 1, attempts = 0, rec = r, enqueued = now, lastErr = []\<rparr>]\<rparr>))"

text \<open>The map \<open>first\<close> of \<open>PendingKeys\<close>: the smallest id of each key, built over the rows.\<close>

fun first_ids :: "memRow list \<Rightarrow> (string \<rightharpoonup> int) \<Rightarrow> (string \<rightharpoonup> int)" where
  "first_ids [] first = first"
| "first_ids (r # rs) first =
     first_ids rs
       (case first (PartitionKey (rec r)) of
          None \<Rightarrow> first(PartitionKey (rec r) \<mapsto> row_id r)
        | Some cur \<Rightarrow> if row_id r < cur then first(PartitionKey (rec r) \<mapsto> row_id r) else first)"

definition mem_PendingKeys :: "nat \<Rightarrow> Memory \<Rightarrow> string + string list" where
  "mem_PendingKeys limit m =
     (if limit = 0 then Inr []
      else let first = first_ids (rows m) Map.empty;
               keys = remdups (map (\<lambda>r. PartitionKey (rec r)) (rows m))
           in Inr (take limit (sort_key (\<lambda>k. the (first k)) keys)))"

definition mem_LockKey :: "string \<Rightarrow> bool \<Rightarrow> Memory \<Rightarrow> lock_result \<times> Memory" where
  "mem_LockKey key wait m =
     (if \<not> locked m key then (Acquired, m\<lparr>locked := (locked m)(key := True)\<rparr>)
      else if \<not> wait then (Held, m)
      else (Wait_cancelled ''context canceled'', m))"

definition mem_release :: "string \<Rightarrow> Memory \<Rightarrow> Memory" where
  "mem_release key m = m\<lparr>locked := (locked m)(key := False)\<rparr>"

definition pending_of :: "memRow \<Rightarrow> Pending" where
  "pending_of r = \<lparr>p_ID = row_id r, p_Attempts = attempts r, p_Record = rec r, p_LastError = lastErr r\<rparr>"

definition mem_Pending :: "string \<Rightarrow> nat \<Rightarrow> Memory \<Rightarrow> string + Pending list" where
  "mem_Pending key limit m =
     (if limit = 0 then Inr []
      else Inr (take limit (map pending_of (filter (\<lambda>r. PartitionKey (rec r) = key) (rows m)))))"

fun indexOf :: "int \<Rightarrow> memRow list \<Rightarrow> nat option" where
  "indexOf i [] = None"
| "indexOf i (r # rs) = (if row_id r = i then Some 0 else map_option Suc (indexOf i rs))"

definition mem_MarkPublished :: "int \<Rightarrow> Memory \<Rightarrow> string option \<times> Memory" where
  "mem_MarkPublished i m =
     (case indexOf i (rows m) of None \<Rightarrow> (None, m)
      | Some n \<Rightarrow> (None, m\<lparr>rows := take n (rows m) @ drop (Suc n) (rows m)\<rparr>))"

definition mem_MarkFailed :: "int \<Rightarrow> string \<Rightarrow> Memory \<Rightarrow> string option \<times> Memory" where
  "mem_MarkFailed i cause m =
     (case indexOf i (rows m) of None \<Rightarrow> (None, m)
      | Some n \<Rightarrow>
          let r = rows m ! n in
          (None, m\<lparr>rows := (rows m)[n := r\<lparr>attempts := attempts r + 1, lastErr := boundedCause (Some cause)\<rparr>]\<rparr>))"

fun oldest :: "memRow list \<Rightarrow> instant \<Rightarrow> instant" where
  "oldest [] t = t"
| "oldest (r # rs) t = oldest rs (if t = 0 \<or> enqueued r < t then enqueued r else t)"

definition mem_OldestPendingAge :: "instant \<Rightarrow> Memory \<Rightarrow> string + duration option" where
  "mem_OldestPendingAge now m =
     (let t = oldest (rows m) 0 in
      if t = 0 then Inr None
      else let age = now - t in Inr (Some (if age < 0 then 0 else age)))"

definition PendingCount :: "Memory \<Rightarrow> nat" where
  "PendingCount m = length (rows m)"

definition memory_queue :: "Memory Queue" where
  "memory_queue =
     \<lparr>PendingKeys = mem_PendingKeys, LockKey = mem_LockKey, release = mem_release, PendingFor = mem_Pending,
      MarkPublished = mem_MarkPublished, MarkFailed = mem_MarkFailed, OldestPendingAge = mem_OldestPendingAge\<rparr>"

section \<open>The relay\<close>

definition defaultBatch :: nat where
  "defaultBatch = 256"

text \<open>
  What the broker has been given: the events it stored, in order, and the number of calls so far. A call returns no
  error once the broker acknowledged; an error means either that the broker did not store the event or, as the call
  is under a timeout, that it did and the acknowledgement was lost.
\<close>

datatype publish_answer = Acknowledged | Not_stored string | Stored_unacknowledged string

record 'm Broker =
  taken :: "'m BusEvent list"
  calls :: nat

definition publish :: "(nat \<Rightarrow> 'm BusEvent \<Rightarrow> publish_answer) \<Rightarrow> 'm BusEvent \<Rightarrow> 'm Broker \<Rightarrow> string option \<times> 'm Broker" where
  "publish pub e b =
     (case pub (calls b) e of
        Acknowledged \<Rightarrow> (None, b\<lparr>taken := taken b @ [e], calls := calls b + 1\<rparr>)
      | Not_stored err \<Rightarrow> (Some err, b\<lparr>calls := calls b + 1\<rparr>)
      | Stored_unacknowledged err \<Rightarrow> (Some err, b\<lparr>taken := taken b @ [e], calls := calls b + 1\<rparr>))"

text \<open>Why a key still holds records, and what makes draining it impossible.\<close>

datatype stall = Another_replica string | Stalled_on string int string | Beyond_batch string nat

datatype drain_error = Queue_error string | Mark_failed_error string

record ('q, 'm) drained =
  sent :: nat
  stalled :: "stall option"
  fault :: "drain_error option"
  queue :: 'q
  broker :: "'m Broker"

text \<open>One record: rebuilt and published.\<close>

definition publish_record :: "'m proto_lib \<Rightarrow> (nat \<Rightarrow> 'm BusEvent \<Rightarrow> publish_answer) \<Rightarrow> Record \<Rightarrow> 'm Broker
    \<Rightarrow> string option \<times> 'm Broker" where
  "publish_record lib pub r b =
     (case Event lib r of Inl e \<Rightarrow> (Some (Render lib e), b) | Inr event \<Rightarrow> publish pub event b)"

text \<open>The loop of \<open>drainKey\<close> over the records read under the lock.\<close>

fun drain_loop :: "'q Queue \<Rightarrow> 'm proto_lib \<Rightarrow> (nat \<Rightarrow> 'm BusEvent \<Rightarrow> publish_answer) \<Rightarrow> string
    \<Rightarrow> Pending list \<Rightarrow> nat \<Rightarrow> 'q \<Rightarrow> 'm Broker \<Rightarrow> ('q, 'm) drained" where
  "drain_loop ops lib pub key [] n q b = \<lparr>sent = n, stalled = None, fault = None, queue = q, broker = b\<rparr>"
| "drain_loop ops lib pub key (p # ps) n q b =
     (let (err, b') = publish_record lib pub (p_Record p) b in
      case err of
        Some cause \<Rightarrow>
          (case MarkFailed ops (p_ID p) cause q of
             (Some merr, q') \<Rightarrow> \<lparr>sent = n, stalled = None, fault = Some (Mark_failed_error merr), queue = q', broker = b'\<rparr>
           | (None, q') \<Rightarrow> \<lparr>sent = n, stalled = Some (Stalled_on key (p_ID p) cause), fault = None, queue = q', broker = b'\<rparr>)
      | None \<Rightarrow>
          (case MarkPublished ops (p_ID p) q of
             (Some merr, q') \<Rightarrow> \<lparr>sent = n, stalled = None, fault = Some (Queue_error merr), queue = q', broker = b'\<rparr>
           | (None, q') \<Rightarrow> drain_loop ops lib pub key ps (n + 1) q' b'))"

definition drainKey :: "'q Queue \<Rightarrow> 'm proto_lib \<Rightarrow> (nat \<Rightarrow> 'm BusEvent \<Rightarrow> publish_answer) \<Rightarrow> nat \<Rightarrow> string \<Rightarrow> bool
    \<Rightarrow> 'q \<Rightarrow> 'm Broker \<Rightarrow> ('q, 'm) drained" where
  "drainKey ops lib pub batch key wait q b =
     (case LockKey ops key wait q of
        (Wait_cancelled err, q1) \<Rightarrow> \<lparr>sent = 0, stalled = None, fault = Some (Queue_error err), queue = q1, broker = b\<rparr>
      | (Held, q1) \<Rightarrow> \<lparr>sent = 0, stalled = Some (Another_replica key), fault = None, queue = q1, broker = b\<rparr>
      | (Acquired, q1) \<Rightarrow>
          let d =
            (case PendingFor ops key batch q1 of
               Inl err \<Rightarrow> \<lparr>sent = 0, stalled = None, fault = Some (Queue_error err), queue = q1, broker = b\<rparr>
             | Inr pending \<Rightarrow>
                 let d = drain_loop ops lib pub key pending 0 q1 b in
                 if stalled d = None \<and> fault d = None \<and> length pending = batch
                 then d\<lparr>stalled := Some (Beyond_batch key batch)\<rparr> else d)
          in d\<lparr>queue := release ops key (queue d)\<rparr>)"

definition Flush :: "'q Queue \<Rightarrow> 'm proto_lib \<Rightarrow> (nat \<Rightarrow> 'm BusEvent \<Rightarrow> publish_answer) \<Rightarrow> nat \<Rightarrow> string
    \<Rightarrow> 'q \<Rightarrow> 'm Broker \<Rightarrow> (drain_error + stall) option \<times> nat \<times> 'q \<times> 'm Broker" where
  "Flush ops lib pub batch key q b =
     (let d = drainKey ops lib pub batch key True q b in
      (case fault d of Some e \<Rightarrow> Some (Inl e) | None \<Rightarrow> map_option Inr (stalled d), sent d, queue d, broker d))"

text \<open>
  The loop of \<open>DrainOnce\<close>: \<open>cancelled\<close> says before which key the context is found ended.
\<close>

fun drain_keys :: "'q Queue \<Rightarrow> 'm proto_lib \<Rightarrow> (nat \<Rightarrow> 'm BusEvent \<Rightarrow> publish_answer) \<Rightarrow> nat \<Rightarrow> (string \<Rightarrow> bool)
    \<Rightarrow> string list \<Rightarrow> nat \<Rightarrow> 'q \<Rightarrow> 'm Broker \<Rightarrow> drain_error option \<times> nat \<times> 'q \<times> 'm Broker" where
  "drain_keys ops lib pub batch cancelled [] n q b = (None, n, q, b)"
| "drain_keys ops lib pub batch cancelled (key # keys) n q b =
     (if cancelled key then (Some (Queue_error ''context canceled''), n, q, b)
      else let d = drainKey ops lib pub batch key False q b in
        case fault d of
          Some e \<Rightarrow> (Some e, n + sent d, queue d, broker d)
        | None \<Rightarrow> drain_keys ops lib pub batch cancelled keys (n + sent d) (queue d) (broker d))"

definition DrainOnce :: "'q Queue \<Rightarrow> 'm proto_lib \<Rightarrow> (nat \<Rightarrow> 'm BusEvent \<Rightarrow> publish_answer) \<Rightarrow> nat \<Rightarrow> (string \<Rightarrow> bool)
    \<Rightarrow> 'q \<Rightarrow> 'm Broker \<Rightarrow> drain_error option \<times> nat \<times> 'q \<times> 'm Broker" where
  "DrainOnce ops lib pub batch cancelled q b =
     (case PendingKeys ops batch q of
        Inl err \<Rightarrow> (Some (Queue_error err), 0, q, b)
      | Inr keys \<Rightarrow> drain_keys ops lib pub batch cancelled keys 0 q b)"

section \<open>Relays at work\<close>

definition mem_ok :: "Memory \<Rightarrow> bool" where
  "mem_ok m \<longleftrightarrow> distinct (map row_id (rows m)) \<and> (\<forall>r \<in> set (rows m). row_id r \<le> next_id m)"

definition mem_backlog :: "Memory \<Rightarrow> string \<Rightarrow> (int \<times> Record) list" where
  "mem_backlog m k = map (\<lambda>r. (row_id r, rec r)) (filter (\<lambda>r. PartitionKey (rec r) = k) (rows m))"

text \<open>
  Where a goroutine stands in \<open>drainKey\<close>: outside it, with the key locked, in the loop with the records still to
  publish, with a record published and to be marked, with a failure to be recorded, and about to release the key.
\<close>

datatype worker =
    Idle
  | Locked_key string
  | Draining string "Pending list"
  | Marking string Pending "Pending list"
  | Failing string Pending string
  | Releasing string

fun holds :: "worker \<Rightarrow> string option" where
  "holds Idle = None"
| "holds (Locked_key k) = Some k"
| "holds (Draining k ps) = Some k"
| "holds (Marking k p ps) = Some k"
| "holds (Failing k p c) = Some k"
| "holds (Releasing k) = Some k"

text \<open>
  The states that handlers enqueuing records and any number of goroutines draining them can reach, one call of the
  queue or the publisher at a time, with what was enqueued for each key. \<open>Append\<close> keeps the records before the first
  one without a tenant.
\<close>

inductive relay_world :: "'m proto_lib \<Rightarrow> (nat \<Rightarrow> 'm BusEvent \<Rightarrow> publish_answer) \<Rightarrow> nat
    \<Rightarrow> (string \<Rightarrow> Record list) \<Rightarrow> Memory \<Rightarrow> 'm Broker \<Rightarrow> (nat \<Rightarrow> worker) \<Rightarrow> bool"
  for lib pub batch where
  start: "relay_world lib pub batch (\<lambda>_. []) NewMemory \<lparr>taken = [], calls = 0\<rparr> (\<lambda>_. Idle)"
| enqueue: "relay_world lib pub batch enq m b ws \<Longrightarrow>
    relay_world lib pub batch
      (\<lambda>k. enq k @ filter (\<lambda>r. PartitionKey r = k) (takeWhile (\<lambda>r. TenantID r \<noteq> []) rs)) (snd (mem_Append now rs m)) b ws"
| lock: "relay_world lib pub batch enq m b ws \<Longrightarrow> ws w = Idle \<Longrightarrow> LockKey memory_queue k wait m = (Acquired, m') \<Longrightarrow>
    relay_world lib pub batch enq m' b (ws(w := Locked_key k))"
| read: "relay_world lib pub batch enq m b ws \<Longrightarrow> ws w = Locked_key k \<Longrightarrow> PendingFor memory_queue k batch m = Inr ps \<Longrightarrow>
    relay_world lib pub batch enq m b (ws(w := Draining k ps))"
| sent: "relay_world lib pub batch enq m b ws \<Longrightarrow> ws w = Draining k (p # ps) \<Longrightarrow>
    publish_record lib pub (p_Record p) b = (None, b') \<Longrightarrow>
    relay_world lib pub batch enq m b' (ws(w := Marking k p ps))"
| not_sent: "relay_world lib pub batch enq m b ws \<Longrightarrow> ws w = Draining k (p # ps) \<Longrightarrow>
    publish_record lib pub (p_Record p) b = (Some c, b') \<Longrightarrow>
    relay_world lib pub batch enq m b' (ws(w := Failing k p c))"
| mark: "relay_world lib pub batch enq m b ws \<Longrightarrow> ws w = Marking k p ps \<Longrightarrow>
    MarkPublished memory_queue (p_ID p) m = (None, m') \<Longrightarrow>
    relay_world lib pub batch enq m' b (ws(w := Draining k ps))"
| mark_failed: "relay_world lib pub batch enq m b ws \<Longrightarrow> ws w = Failing k p c \<Longrightarrow>
    MarkFailed memory_queue (p_ID p) c m = (None, m') \<Longrightarrow>
    relay_world lib pub batch enq m' b (ws(w := Releasing k))"
| last: "relay_world lib pub batch enq m b ws \<Longrightarrow> ws w = Draining k [] \<Longrightarrow>
    relay_world lib pub batch enq m b (ws(w := Releasing k))"
| unlock: "relay_world lib pub batch enq m b ws \<Longrightarrow> ws w = Releasing k \<Longrightarrow>
    relay_world lib pub batch enq (release memory_queue k m) b (ws(w := Idle))"

text \<open>Every element of a list delivered, in order, one or more times in a row.\<close>

definition delivered :: "'a list \<Rightarrow> 'a list \<Rightarrow> bool" where
  "delivered xs ys \<longleftrightarrow> (\<exists>ns. length ns = length xs \<and> (\<forall>n \<in> set ns. 1 \<le> n) \<and> ys = concat (map2 replicate ns xs))"

definition sample_record :: Record where
  "sample_record = \<lparr>Subject = ''s'', EventType = ''T'', EventClass = 1, SchemaVersion = 2, Domain = ''d'', EventTime = 5,
     PartitionKey = ''o1'', PayloadSchemaRef = ''t.S:2'', CorrelationID = [], CausationID = [], TraceContext = [],
     TenantID = ''acme'', Payload = ''x''\<rparr>"

section \<open>The contract of a queue\<close>

text \<open>
  \<open>backlog\<close> is what a key has unpublished, in enqueue order, with ids; \<open>held\<close> is who is draining. A
  mark that fails leaves the backlog as it was.
\<close>

locale queue_contract =
  fixes ops :: "'q Queue"
    and backlog :: "'q \<Rightarrow> string \<Rightarrow> (int \<times> Record) list"
    and held :: "'q \<Rightarrow> string \<Rightarrow> bool"
    and ok :: "'q \<Rightarrow> bool"
  assumes lock_acquired: "ok q \<Longrightarrow> LockKey ops k w q = (Acquired, q') \<Longrightarrow>
      ok q' \<and> backlog q' = backlog q \<and> \<not> held q k \<and> held q' = (held q)(k := True)"
    and lock_refused: "ok q \<Longrightarrow> LockKey ops k w q = (r, q') \<Longrightarrow> r \<noteq> Acquired \<Longrightarrow> q' = q"
    and released: "ok q \<Longrightarrow> ok (release ops k q) \<and> backlog (release ops k q) = backlog q
      \<and> held (release ops k q) = (held q)(k := False)"
    and pending: "ok q \<Longrightarrow> PendingFor ops k n q = Inr ps \<Longrightarrow>
      map (\<lambda>p. (p_ID p, p_Record p)) ps = take n (backlog q k)"
    and published: "ok q \<Longrightarrow> MarkPublished ops i q = (None, q') \<Longrightarrow>
      ok q' \<and> held q' = held q \<and> backlog q' = (\<lambda>k. filter (\<lambda>x. fst x \<noteq> i) (backlog q k))"
    and not_published: "ok q \<Longrightarrow> MarkPublished ops i q = (Some e, q') \<Longrightarrow>
      ok q' \<and> held q' = held q \<and> backlog q' = backlog q"
    and failed: "ok q \<Longrightarrow> MarkFailed ops i c q = (me, q') \<Longrightarrow> ok q' \<and> held q' = held q \<and> backlog q' = backlog q"
    and ids: "ok q \<Longrightarrow> distinct (map fst (backlog q k))"
    and ids_disjoint: "ok q \<Longrightarrow> k \<noteq> k' \<Longrightarrow> set (map fst (backlog q k)) \<inter> set (map fst (backlog q k')) = {}"
    and keyed: "ok q \<Longrightarrow> x \<in> set (backlog q k) \<Longrightarrow> PartitionKey (snd x) = k"
begin

lemma published_head:
  assumes "ok q" and "backlog q k = (i, r) # rest" and "MarkPublished ops i q = (None, q')"
  shows "ok q'" and "held q' = held q" and "backlog q' = (backlog q)(k := rest)"
proof -
  note P = published [OF assms(1,3)]
  show "ok q'" and "held q' = held q" using P by auto
  have d: "distinct (map fst ((i, r) # rest))" using ids [OF assms(1), of k] assms(2) by simp
  have "filter (\<lambda>x. fst x \<noteq> i) (backlog q k') = ((backlog q)(k := rest)) k'" for k'
  proof (cases "k' = k")
    case True
    then show ?thesis using d assms(2) by (auto simp: filter_id_conv)
  next
    case False
    have "i \<in> set (map fst (backlog q k))" using assms(2) by simp
    then have "i \<notin> set (map fst (backlog q k'))" using ids_disjoint [OF assms(1) False] by blast
    then show ?thesis using False by (auto simp: filter_id_conv)
  qed
  then show "backlog q' = (backlog q)(k := rest)" using P by auto
qed

text \<open>
  What a drain of the head records of a key does: it publishes some of them in order, drops exactly
  those it counts from the backlog, and touches nothing else. At most one record can have been stored by
  the broker without being dropped, and then the drain reports a stall or a fault.
\<close>

definition drained_prefix :: "'m proto_lib \<Rightarrow> string \<Rightarrow> 'q \<Rightarrow> 'm Broker \<Rightarrow> nat \<Rightarrow> ('q, 'm) drained \<Rightarrow> nat \<Rightarrow> 'm BusEvent list \<Rightarrow> bool" where
  "drained_prefix lib k q b n d j es \<longleftrightarrow>
     sent d = n + j \<and> ok (queue d) \<and> held (queue d) = held q
     \<and> backlog (queue d) = (backlog q)(k := drop j (backlog q k))
     \<and> taken (broker d) = taken b @ es
     \<and> map Inr es = map (Event lib \<circ> snd) (take (length es) (backlog q k))
     \<and> length es \<le> length (backlog q k)
     \<and> (length es = j \<or> length es = Suc j \<and> (fault d \<noteq> None \<or> stalled d \<noteq> None))"

lemma drain_loop_prefix:
  assumes "ok q" and "map (\<lambda>p. (p_ID p, p_Record p)) ps = take (length ps) (backlog q k)"
  shows "\<exists>j es. drained_prefix lib k q b n (drain_loop ops lib pub k ps n q b) j es
    \<and> (stalled (drain_loop ops lib pub k ps n q b) = None \<and> fault (drain_loop ops lib pub k ps n q b) = None \<longrightarrow> j = length ps)"
  using assms
proof (induction ps arbitrary: n q b)
  case Nil
  have "drained_prefix lib k q b n (drain_loop ops lib pub k [] n q b) 0 []"
    using Nil by (simp add: drained_prefix_def)
  then show ?case by (intro exI [of _ 0] exI [of _ "[]"]) simp
next
  case (Cons p ps)
  obtain rest where bl: "backlog q k = (p_ID p, p_Record p) # rest"
    and rest: "map (\<lambda>p. (p_ID p, p_Record p)) ps = take (length ps) rest"
    using Cons.prems(2) by (cases "backlog q k") auto
  define eb where "eb = publish_record lib pub (p_Record p) b"
  obtain err b' where eb': "eb = (err, b')" by (cases eb)
  show ?case
  proof (cases err)
    case (Some cause)
    obtain es where es: "taken b' = taken b @ es" "es = [] \<or> (\<exists>event. es = [event] \<and> Event lib (p_Record p) = Inr event)"
      using Some eb' that by (auto simp: eb_def publish_record_def publish_def split: sum.splits publish_answer.splits)
    obtain me q' where mf: "MarkFailed ops (p_ID p) cause q = (me, q')" by fastforce
    have F: "ok q'" "held q' = held q" "backlog q' = backlog q" using failed [OF Cons.prems(1) mf] by auto
    define d where "d = drain_loop ops lib pub k (p # ps) n q b"
    have d: "sent d = n" "queue d = q'" "broker d = b'" "stalled d \<noteq> None \<or> fault d \<noteq> None"
      using eb' Some mf by (auto simp: d_def eb_def [symmetric] split: option.splits)
    have "drained_prefix lib k q b n d 0 es" using d F es bl by (auto simp: drained_prefix_def fun_eq_iff)
    then show ?thesis using d(4) unfolding d_def by (intro exI [of _ 0] exI [of _ es] conjI) (assumption, metis)
  next
    case None
    then obtain event where ev: "Event lib (p_Record p) = Inr event" and tk: "taken b' = taken b @ [event]"
      using eb' by (auto simp: eb_def publish_record_def publish_def split: sum.splits publish_answer.splits)
    obtain me q' where mp: "MarkPublished ops (p_ID p) q = (me, q')" by fastforce
    show ?thesis
    proof (cases me)
      case (Some merr)
      then have F: "ok q'" "held q' = held q" "backlog q' = backlog q"
        using not_published [OF Cons.prems(1)] mp by auto
      define d where "d = drain_loop ops lib pub k (p # ps) n q b"
      have d: "sent d = n" "queue d = q'" "broker d = b'" "fault d \<noteq> None"
        using eb' None mp Some by (auto simp: d_def eb_def [symmetric])
      have "drained_prefix lib k q b n d 0 [event]"
        using d F tk bl ev by (simp add: drained_prefix_def fun_eq_iff)
      then show ?thesis using d(4) unfolding d_def by (intro exI [of _ 0] exI [of _ "[event]"] conjI) (assumption, metis)
    next
      case me: None
      note P = published_head [OF Cons.prems(1) bl mp [unfolded me]]
      have bl': "backlog q' k = rest" using P(3) by simp
      define d where "d = drain_loop ops lib pub k ps (n + 1) q' b'"
      have dd: "drain_loop ops lib pub k (p # ps) n q b = d"
        using eb' None mp me by (simp add: d_def eb_def [symmetric])
      obtain j es where je: "drained_prefix lib k q' b' (n + 1) d j es" "stalled d = None \<and> fault d = None \<longrightarrow> j = length ps"
        using Cons.IH [OF P(1), of b' "n + 1"] rest bl' unfolding d_def by auto
      have "drained_prefix lib k q b n d (Suc j) (event # es)"
        using je(1) P tk bl ev unfolding drained_prefix_def by (auto simp: bl')
      then show ?thesis using je(2) unfolding dd by (intro exI [of _ "Suc j"] exI [of _ "event # es"]) simp
    qed
  qed
qed

lemma drainKey_prefix:
  assumes "ok q"
  shows "\<exists>j es. drained_prefix lib k q b 0 (drainKey ops lib pub batch k w q b) j es
    \<and> (stalled (drainKey ops lib pub batch k w q b) = None \<and> fault (drainKey ops lib pub batch k w q b) = None
       \<longrightarrow> backlog (queue (drainKey ops lib pub batch k w q b)) k = [])"
proof -
  define D where "D = drainKey ops lib pub batch k w q b"
  obtain r q1 where lk: "LockKey ops k w q = (r, q1)" by fastforce
  show ?thesis
  proof (cases "r = Acquired")
    case False
    then have "q1 = q" using lock_refused [OF assms lk] by simp
    then have d: "sent D = 0" "queue D = q" "broker D = b" "stalled D \<noteq> None \<or> fault D \<noteq> None"
      using False lk by (cases r; auto simp: D_def drainKey_def)+
    have "drained_prefix lib k q b 0 D 0 []" using d assms by (simp add: drained_prefix_def)
    then show ?thesis using d(4) unfolding D_def [symmetric] by (intro exI [of _ 0] exI [of _ "[]"] conjI) (assumption, metis)
  next
    case True
    then have L: "ok q1" "backlog q1 = backlog q" "\<not> held q k" "held q1 = (held q)(k := True)"
      using lock_acquired [OF assms] lk by auto
    have unheld: "(held q)(k := False) = held q" using L(3) by (auto simp: fun_eq_iff)
    show ?thesis
    proof (cases "PendingFor ops k batch q1")
      case (Inl err)
      then have d: "sent D = 0" "queue D = release ops k q1" "broker D = b" "fault D \<noteq> None"
        using True lk by (auto simp: D_def drainKey_def)
      have "drained_prefix lib k q b 0 D 0 []"
        using d released [OF L(1)] L unheld by (simp add: drained_prefix_def)
      then show ?thesis using d(4) unfolding D_def [symmetric] by (intro exI [of _ 0] exI [of _ "[]"] conjI) (assumption, metis)
    next
      case (Inr ps)
      have ps: "map (\<lambda>p. (p_ID p, p_Record p)) ps = take batch (backlog q1 k)" using pending [OF L(1) Inr] .
      then have len: "length ps = min (length (backlog q1 k)) batch" by (metis length_map length_take)
      have "take batch (backlog q1 k) = take (length ps) (backlog q1 k)" using len by (simp add: min_def)
      then have ps': "map (\<lambda>p. (p_ID p, p_Record p)) ps = take (length ps) (backlog q1 k)" using ps by simp
      define d where "d = drain_loop ops lib pub k ps 0 q1 b"
      obtain j es where je: "drained_prefix lib k q1 b 0 d j es"
        "stalled d = None \<and> fault d = None \<longrightarrow> j = length ps"
        using drain_loop_prefix [OF L(1) ps', of lib b 0 pub] unfolding d_def by blast
      have D: "sent D = sent d" "fault D = fault d" "broker D = broker d" "queue D = release ops k (queue d)"
        "stalled D = None \<longrightarrow> stalled d = None \<and> (fault d = None \<longrightarrow> length ps \<noteq> batch)"
        using True lk Inr by (auto simp: D_def drainKey_def d_def [symmetric] Let_def)
      have okd: "ok (queue d)" using je(1) by (simp add: drained_prefix_def)
      have pre: "drained_prefix lib k q b 0 D j es"
        using je(1) released [OF okd] D L unheld by (auto simp: drained_prefix_def)
      have "stalled D = None \<and> fault D = None \<longrightarrow> backlog (queue D) k = []"
        using D(2,5) je(2) pre len L(2) by (auto simp: drained_prefix_def min_def split: if_splits)
      then show ?thesis using pre unfolding D_def by blast
    qed
  qed
qed

end

lemma Event_key: "Event lib r = Inr e \<Longrightarrow> ev_PartitionKey e = PartitionKey r"
  by (auto simp: Event_def Let_def split: if_splits sum.splits)

text \<open>A queue whose operations do not fail, as the in-process one.\<close>

locale reliable_queue = queue_contract ops backlog held ok
  for ops :: "'q Queue" and backlog and held and ok +
  assumes marks_published: "fst (MarkPublished ops i q) = None"
    and marks_failed: "fst (MarkFailed ops i c q) = None"
    and reads: "\<exists>ps. PendingFor ops k n q = Inr ps"
begin

lemma drain_loop_no_fault: "fault (drain_loop ops lib pub k ps n q b) = None"
proof (induction ps arbitrary: n q b)
  case (Cons p ps)
  define eb where "eb = publish_record lib pub (p_Record p) b"
  obtain err b' where eb: "eb = (err, b')" by (cases eb)
  obtain q1 where "MarkFailed ops (p_ID p) (the err) q = (None, q1)" using marks_failed by (metis prod.collapse)
  moreover obtain q2 where "MarkPublished ops (p_ID p) q = (None, q2)" using marks_published by (metis prod.collapse)
  ultimately show ?case using Cons eb by (cases err) (simp_all add: eb_def [symmetric])
qed simp

end

section \<open>The in-process queue meets the contract\<close>

lemma indexOf_Some: "indexOf i rs = Some n \<Longrightarrow> n < length rs \<and> row_id (rs ! n) = i"
  by (induction rs arbitrary: n) (auto split: if_splits)

lemma drop_indexOf:
  "distinct (map row_id rs) \<Longrightarrow> indexOf i rs = Some n \<Longrightarrow> take n rs @ drop (Suc n) rs = filter (\<lambda>r. row_id r \<noteq> i) rs"
proof (induction rs arbitrary: n)
  case (Cons r rs)
  show ?case
  proof (cases "row_id r = i")
    case True
    then have "filter (\<lambda>r. row_id r \<noteq> i) rs = rs" using Cons.prems(1) by (auto simp: filter_id_conv image_iff)
    then show ?thesis using True Cons.prems by simp
  next
    case False
    then show ?thesis using Cons by auto
  qed
qed simp

lemma indexOf_None: "indexOf i rs = None \<Longrightarrow> filter (\<lambda>r. row_id r \<noteq> i) rs = rs"
  by (induction rs) (auto split: if_splits)

lemma mem_MarkPublished_eq:
  assumes "mem_ok m"
  shows "mem_MarkPublished i m = (None, m\<lparr>rows := filter (\<lambda>r. row_id r \<noteq> i) (rows m)\<rparr>)"
  using assms drop_indexOf indexOf_None
  by (cases "indexOf i (rows m)") (auto simp: mem_MarkPublished_def mem_ok_def)

lemma mem_MarkFailed_rows:
  assumes "mem_MarkFailed i c m = (e, m')"
  shows "map (\<lambda>r. (row_id r, rec r)) (rows m') = map (\<lambda>r. (row_id r, rec r)) (rows m)"
    and "next_id m' = next_id m" and "locked m' = locked m"
proof -
  have "map (\<lambda>r. (row_id r, rec r)) ((rows m)[n := (rows m ! n)\<lparr>attempts := a, lastErr := l\<rparr>])
      = map (\<lambda>r. (row_id r, rec r)) (rows m)" if "n < length (rows m)" for n a l
    using that by (simp add: map_update list_update_same_conv)
  then show "map (\<lambda>r. (row_id r, rec r)) (rows m') = map (\<lambda>r. (row_id r, rec r)) (rows m)"
    and "next_id m' = next_id m" and "locked m' = locked m"
    using assms indexOf_Some by (auto simp: mem_MarkFailed_def Let_def split: option.splits)
qed

text \<open>The invariant and the backlog depend on the rows only through ids and records.\<close>

lemma mem_backlog_pairs: "mem_backlog m k = filter (\<lambda>x. PartitionKey (snd x) = k) (map (\<lambda>r. (row_id r, rec r)) (rows m))"
  by (simp add: mem_backlog_def filter_map comp_def)

lemma mem_ok_pairs:
  "mem_ok m \<longleftrightarrow> distinct (map fst (map (\<lambda>r. (row_id r, rec r)) (rows m)))
     \<and> (\<forall>x \<in> set (map (\<lambda>r. (row_id r, rec r)) (rows m)). fst x \<le> next_id m)"
  by (auto simp: mem_ok_def comp_def)

lemma distinct_fst_filter: "distinct (map fst xs) \<Longrightarrow> distinct (map fst (filter P xs))"
  by (induction xs) auto

lemma fst_filter_disjoint:
  "distinct (map fst xs) \<Longrightarrow> (\<And>x. \<not> (P x \<and> Q x)) \<Longrightarrow> set (map fst (filter P xs)) \<inter> set (map fst (filter Q xs)) = {}"
  by (induction xs) auto

interpretation mem: reliable_queue memory_queue mem_backlog locked mem_ok
proof unfold_locales
  fix q q' :: Memory and k k' :: string and w n ps i e c me x r
  show "mem_ok q \<Longrightarrow> LockKey memory_queue k w q = (Acquired, q') \<Longrightarrow>
      mem_ok q' \<and> mem_backlog q' = mem_backlog q \<and> \<not> locked q k \<and> locked q' = (locked q)(k := True)"
    by (auto simp: memory_queue_def mem_LockKey_def mem_ok_def mem_backlog_def fun_eq_iff split: if_splits)
  show "mem_ok q \<Longrightarrow> LockKey memory_queue k w q = (r, q') \<Longrightarrow> r \<noteq> Acquired \<Longrightarrow> q' = q"
    by (auto simp: memory_queue_def mem_LockKey_def split: if_splits)
  show "mem_ok q \<Longrightarrow> mem_ok (release memory_queue k q) \<and> mem_backlog (release memory_queue k q) = mem_backlog q
      \<and> locked (release memory_queue k q) = (locked q)(k := False)"
    by (auto simp: memory_queue_def mem_release_def mem_ok_def mem_backlog_def fun_eq_iff)
  show "mem_ok q \<Longrightarrow> PendingFor memory_queue k n q = Inr ps \<Longrightarrow>
      map (\<lambda>p. (p_ID p, p_Record p)) ps = take n (mem_backlog q k)"
    by (auto simp: memory_queue_def mem_Pending_def mem_backlog_def pending_of_def take_map comp_def split: if_splits)
  show "mem_ok q \<Longrightarrow> MarkPublished memory_queue i q = (None, q') \<Longrightarrow>
      mem_ok q' \<and> locked q' = locked q \<and> mem_backlog q' = (\<lambda>k. filter (\<lambda>x. fst x \<noteq> i) (mem_backlog q k))"
    by (auto simp: memory_queue_def mem_MarkPublished_eq mem_ok_def mem_backlog_def filter_map comp_def conj_commute distinct_map_filter)
  show "mem_ok q \<Longrightarrow> MarkPublished memory_queue i q = (Some e, q') \<Longrightarrow>
      mem_ok q' \<and> locked q' = locked q \<and> mem_backlog q' = mem_backlog q"
    by (simp add: memory_queue_def mem_MarkPublished_eq)
  show "mem_ok q \<Longrightarrow> MarkFailed memory_queue i c q = (me, q') \<Longrightarrow> mem_ok q' \<and> locked q' = locked q \<and> mem_backlog q' = mem_backlog q"
    using mem_MarkFailed_rows [of i c q me q'] unfolding mem_ok_pairs fun_eq_iff mem_backlog_pairs
    by (simp add: memory_queue_def)
  show "mem_ok q \<Longrightarrow> distinct (map fst (mem_backlog q k))"
    unfolding mem_ok_pairs mem_backlog_pairs by (blast intro: distinct_fst_filter)
  show "mem_ok q \<Longrightarrow> k \<noteq> k' \<Longrightarrow> set (map fst (mem_backlog q k)) \<inter> set (map fst (mem_backlog q k')) = {}"
    unfolding mem_ok_pairs mem_backlog_pairs by (intro fst_filter_disjoint) auto
  show "mem_ok q \<Longrightarrow> x \<in> set (mem_backlog q k) \<Longrightarrow> PartitionKey (snd x) = k"
    by (auto simp: mem_backlog_def)
  show "fst (MarkPublished memory_queue i q) = None"
    by (auto simp: memory_queue_def mem_MarkPublished_def split: option.split)
  show "fst (MarkFailed memory_queue i c q) = None"
    by (auto simp: memory_queue_def mem_MarkFailed_def Let_def split: option.split)
  show "\<exists>ps. PendingFor memory_queue k n q = Inr ps"
    by (simp add: memory_queue_def mem_Pending_def)
qed

section \<open>Histories keep the contract\<close>

lemma mem_Append_ok:
  assumes "mem_ok m"
  shows "mem_ok (snd (mem_Append now rs m))"
    and "map snd (mem_backlog (snd (mem_Append now rs m)) k) =
      map snd (mem_backlog m k) @ filter (\<lambda>r. PartitionKey r = k) (takeWhile (\<lambda>r. TenantID r \<noteq> []) rs)"
proof -
  have "mem_ok (snd (mem_Append now rs m)) \<and> map snd (mem_backlog (snd (mem_Append now rs m)) k) =
      map snd (mem_backlog m k) @ filter (\<lambda>r. PartitionKey r = k) (takeWhile (\<lambda>r. TenantID r \<noteq> []) rs)"
    using assms
  proof (induction rs arbitrary: m)
    case (Cons r rs)
    define m' where "m' = m\<lparr>next_id := next_id m + 1,
           rows := rows m @ [\<lparr>row_id = next_id m + 1, attempts = 0, rec = r, enqueued = now, lastErr = []\<rparr>]\<rparr>"
    have "mem_ok m'" using Cons.prems by (fastforce simp: m'_def mem_ok_def)
    moreover have "map snd (mem_backlog m' k) = map snd (mem_backlog m k) @ filter (\<lambda>r. PartitionKey r = k) [r]"
      by (simp add: m'_def mem_backlog_def)
    ultimately show ?case using Cons.IH [of m'] Cons.prems by (auto simp: m'_def [symmetric])
  qed simp
  then show "mem_ok (snd (mem_Append now rs m))"
    and "map snd (mem_backlog (snd (mem_Append now rs m)) k) =
      map snd (mem_backlog m k) @ filter (\<lambda>r. PartitionKey r = k) (takeWhile (\<lambda>r. TenantID r \<noteq> []) rs)" by auto
qed

section \<open>Delivery at least once, in order\<close>

lemma delivered_Nil [simp]: "delivered [] ys \<longleftrightarrow> ys = []"
  by (auto simp: delivered_def)

lemma delivered_snoc:
  assumes "delivered xs ys" and "j \<noteq> 0"
  shows "delivered (xs @ [x]) (ys @ replicate j x)"
proof -
  from assms(1) obtain ns where "length ns = length xs" "\<forall>n \<in> set ns. 1 \<le> n" "ys = concat (map2 replicate ns xs)"
    by (auto simp: delivered_def)
  then show ?thesis using assms(2) unfolding delivered_def by (intro exI [of _ "ns @ [j]"]) auto
qed

lemma delivered_refl: "delivered xs xs"
  unfolding delivered_def by (intro exI [of _ "replicate (length xs) 1"]) (induction xs, auto)

text \<open>
  What the broker has of one key: the records that left the queue, each one or more times in a row, then as many
  copies as there were lost acknowledgements of the record that is first in the queue, one of them acknowledged while
  it is being marked. A publisher that never loses an acknowledgement delivers each exactly once.
\<close>

definition key_delivery :: "'m proto_lib \<Rightarrow> bool \<Rightarrow> Record list \<Rightarrow> 'm BusEvent list \<Rightarrow> Record list \<Rightarrow> bool \<Rightarrow> bool" where
  "key_delivery lib exact enq got waiting marking \<longleftrightarrow>
     (\<exists>gone ts j event. map (Event lib) enq = map Inr gone @ map (Event lib) waiting
        \<and> got = ts @ replicate j event \<and> delivered gone ts
        \<and> (j \<noteq> 0 \<longrightarrow> waiting \<noteq> [] \<and> Event lib (hd waiting) = Inr event)
        \<and> (marking \<longrightarrow> j \<noteq> 0) \<and> (exact \<longrightarrow> ts = gone \<and> j = (if marking then 1 else 0)))"

lemma key_delivery_enqueue:
  "key_delivery lib exact enq got waiting marking \<Longrightarrow> key_delivery lib exact (enq @ rs) got (waiting @ rs) marking"
proof -
  assume "key_delivery lib exact enq got waiting marking"
  then obtain gone ts j e where *: "map (Event lib) enq = map Inr gone @ map (Event lib) waiting" "got = ts @ replicate j e"
    "delivered gone ts" "j \<noteq> 0 \<longrightarrow> waiting \<noteq> [] \<and> Event lib (hd waiting) = Inr e" "marking \<longrightarrow> j \<noteq> 0"
    "exact \<longrightarrow> ts = gone \<and> j = (if marking then 1 else 0)"
    unfolding key_delivery_def by (elim exE conjE) (rule that)
  then show ?thesis unfolding key_delivery_def
    by (intro exI [of _ gone] exI [of _ ts] exI [of _ j] exI [of _ e]) (auto simp: hd_append)
qed

lemma key_delivery_stored:
  assumes "key_delivery lib exact enq got (r # waiting) False" and "Event lib r = Inr event" and "exact \<longrightarrow> acked"
  shows "key_delivery lib exact enq (got @ [event]) (r # waiting) acked"
proof -
  obtain gone ts j e where *: "map (Event lib) enq = map Inr gone @ map (Event lib) (r # waiting)" "got = ts @ replicate j e"
    "delivered gone ts" "j \<noteq> 0 \<longrightarrow> Event lib r = Inr e" "exact \<longrightarrow> ts = gone \<and> j = 0"
    using assms(1) by (auto simp: key_delivery_def)
  have "got @ [event] = ts @ replicate (Suc j) event"
    using * assms(2) by (cases "j = 0") (auto simp: replicate_append_same)
  then show ?thesis unfolding key_delivery_def
    using * assms(2,3) by (intro exI [of _ gone] exI [of _ ts] exI [of _ "Suc j"] exI [of _ event]) auto
qed

lemma key_delivery_marked:
  assumes "key_delivery lib exact enq got (r # waiting) True"
  shows "key_delivery lib exact enq got waiting False"
proof -
  obtain gone ts j e where *: "map (Event lib) enq = map Inr gone @ map (Event lib) (r # waiting)" "got = ts @ replicate j e"
    "delivered gone ts" "j \<noteq> 0" "Event lib r = Inr e" "exact \<longrightarrow> ts = gone \<and> j = 1"
    using assms unfolding key_delivery_def by (elim exE conjE) (rule that, assumption, assumption, assumption, simp_all)
  then show ?thesis unfolding key_delivery_def
    using delivered_snoc [OF *(3,4), of e]
    by (intro exI [of _ "gone @ [e]"] exI [of _ "ts @ replicate j e"] exI [of _ 0]) auto
qed

section \<open>The invariant of the relays\<close>

definition rows_of :: "Pending list \<Rightarrow> (int \<times> Record) list" where
  "rows_of ps = map (\<lambda>p. (p_ID p, p_Record p)) ps"

fun worker_ok :: "Memory \<Rightarrow> worker \<Rightarrow> bool" where
  "worker_ok m (Draining k ps) \<longleftrightarrow> rows_of ps = take (length ps) (mem_backlog m k)"
| "worker_ok m (Marking k p ps) \<longleftrightarrow> rows_of (p # ps) = take (Suc (length ps)) (mem_backlog m k)"
| "worker_ok m _ \<longleftrightarrow> True"

definition is_marking :: "(nat \<Rightarrow> worker) \<Rightarrow> string \<Rightarrow> bool" where
  "is_marking ws k \<longleftrightarrow> (\<exists>w p ps. ws w = Marking k p ps)"

definition workers_ok :: "Memory \<Rightarrow> (nat \<Rightarrow> worker) \<Rightarrow> bool" where
  "workers_ok m ws \<longleftrightarrow>
     (\<forall>k. locked m k \<longleftrightarrow> (\<exists>w. holds (ws w) = Some k))
     \<and> (\<forall>v w k. holds (ws v) = Some k \<longrightarrow> holds (ws w) = Some k \<longrightarrow> v = w)
     \<and> (\<forall>w. worker_ok m (ws w))"

definition exact_publisher :: "(nat \<Rightarrow> 'm BusEvent \<Rightarrow> publish_answer) \<Rightarrow> bool" where
  "exact_publisher pub \<longleftrightarrow> (\<forall>n e c. pub n e \<noteq> Stored_unacknowledged c)"

definition relay_ok :: "'m proto_lib \<Rightarrow> bool \<Rightarrow> (string \<Rightarrow> Record list) \<Rightarrow> Memory \<Rightarrow> 'm Broker \<Rightarrow> (nat \<Rightarrow> worker) \<Rightarrow> bool" where
  "relay_ok lib exact enq m b ws \<longleftrightarrow> mem_ok m \<and> workers_ok m ws
     \<and> (\<forall>k. key_delivery lib exact (enq k) (filter (\<lambda>e. ev_PartitionKey e = k) (taken b)) (map snd (mem_backlog m k)) (is_marking ws k))"

lemma mem_Append_locked: "locked (snd (mem_Append now rs m)) = locked m"
  by (induction rs arbitrary: m) auto

lemma mem_Append_prefix: "\<exists>ys. mem_backlog (snd (mem_Append now rs m)) k = mem_backlog m k @ ys"
proof (induction rs arbitrary: m)
  case (Cons r rs)
  define m' where "m' = m\<lparr>next_id := next_id m + 1,
         rows := rows m @ [\<lparr>row_id = next_id m + 1, attempts = 0, rec = r, enqueued = now, lastErr = []\<rparr>]\<rparr>"
  have "\<exists>zs. mem_backlog m' k = mem_backlog m k @ zs" by (simp add: m'_def mem_backlog_def)
  then show ?case using Cons.IH [of m'] by (auto simp: m'_def [symmetric])
qed simp

text \<open>A worker that keeps its key or releases it leaves the others alone; the records they read are still first.\<close>

lemma worker_ok_other:
  assumes "workers_ok m ws" and "holds (ws w) = Some k" and "v \<noteq> w"
    and "\<And>k'. k' \<noteq> k \<Longrightarrow> mem_backlog m' k' = mem_backlog m k'"
  shows "worker_ok m' (ws v)"
proof -
  have "holds (ws v) \<noteq> Some k" using assms(1-3) by (auto simp: workers_ok_def)
  then show ?thesis using assms(1,4) unfolding workers_ok_def by (cases "ws v") (auto, (metis worker_ok.simps)+)
qed

lemma workers_ok_step:
  assumes "workers_ok m ws" and "holds (ws w) = Some k" and "holds x = Some k" and "worker_ok m' x"
    and "locked m' = locked m" and "\<And>k'. k' \<noteq> k \<Longrightarrow> mem_backlog m' k' = mem_backlog m k'"
  shows "workers_ok m' (ws(w := x))"
proof -
  have "worker_ok m' ((ws(w := x)) v)" for v
    using worker_ok_other [OF assms(1,2) _ assms(6), of v] assms(4) by (cases "v = w") auto
  moreover have "holds ((ws(w := x)) v) = holds (ws v)" for v using assms(2,3) by simp
  ultimately show ?thesis using assms(1,5) unfolding workers_ok_def by (simp del: fun_upd_apply)
qed

lemma is_marking_upd:
  assumes "workers_ok m ws" and "holds (ws w) = Some k" and "holds x = Some k"
  shows "is_marking (ws(w := x)) k' = (if k' = k then (\<exists>p ps. x = Marking k p ps) else is_marking ws k')"
proof (cases "k' = k")
  case True
  have "ws v \<noteq> Marking k p ps" if "v \<noteq> w" for v p ps
    using assms(1,2) that by (auto simp: workers_ok_def)
  then show ?thesis using True by (auto simp: is_marking_def)
next
  case False
  then show ?thesis using assms(2,3) by (auto simp: is_marking_def) (metis holds.simps(4) option.inject)
qed

lemma not_marking:
  assumes "workers_ok m ws" and "holds (ws w) = Some k" and "\<And>p ps. ws w \<noteq> Marking k p ps"
  shows "\<not> is_marking ws k"
  using is_marking_upd [OF assms(1,2,2), of k] assms(3) by simp

lemma is_marking_aside:
  assumes "\<And>k p ps. ws w \<noteq> Marking k p ps" and "\<And>k p ps. x \<noteq> Marking k p ps"
  shows "is_marking (ws(w := x)) k' = is_marking ws k'"
  using assms unfolding is_marking_def by (metis fun_upd_apply)

lemma publish_record_cases:
  assumes "publish_record lib pub r b = (err, b')"
  obtains (same) c where "err = Some c" "taken b' = taken b"
  | (stored) event where "Event lib r = Inr event" "taken b' = taken b @ [event]" "exact_publisher pub \<longrightarrow> err = None"
proof (cases "taken b' = taken b")
  case True
  then have "\<exists>c. err = Some c"
    using assms by (auto simp: publish_record_def publish_def split: sum.splits publish_answer.splits)
  then show ?thesis using same True by blast
next
  case False
  then obtain event where e: "Event lib r = Inr event" and p: "publish pub event b = (err, b')"
    using assms by (auto simp: publish_record_def split: sum.splits)
  then have "taken b' = taken b @ [event]" "exact_publisher pub \<longrightarrow> err = None"
    using False by (auto simp: publish_def exact_publisher_def split: publish_answer.splits)
  then show ?thesis using stored e by blast
qed

lemma relay_ok_step:
  assumes "relay_ok lib exact enq m b ws" and "holds (ws w) = Some k" and "holds x = Some k" and "mem_ok m'"
    and "worker_ok m' x" and "locked m' = locked m" and "\<And>k'. k' \<noteq> k \<Longrightarrow> mem_backlog m' k' = mem_backlog m k'"
    and "\<And>k'. k' \<noteq> k \<Longrightarrow> filter (\<lambda>e. ev_PartitionKey e = k') (taken b') = filter (\<lambda>e. ev_PartitionKey e = k') (taken b)"
    and "key_delivery lib exact (enq k) (filter (\<lambda>e. ev_PartitionKey e = k) (taken b')) (map snd (mem_backlog m' k)) (\<exists>p ps. x = Marking k p ps)"
  shows "relay_ok lib exact enq m' b' (ws(w := x))"
proof -
  have ok: "workers_ok m ws" using assms(1) by (simp add: relay_ok_def)
  have "key_delivery lib exact (enq k') (filter (\<lambda>e. ev_PartitionKey e = k') (taken b')) (map snd (mem_backlog m' k')) (is_marking (ws(w := x)) k')" for k'
    using assms(1,7-9) is_marking_upd [OF ok assms(2,3), of k'] by (cases "k' = k") (simp_all add: relay_ok_def)
  then show ?thesis using workers_ok_step [OF ok assms(2,3,5,6,7)] assms(4) by (simp add: relay_ok_def)
qed

lemma relay_ok_key:
  assumes "relay_ok lib exact enq m b ws" and "mem_backlog m k = bl" and "is_marking ws k = x"
  shows "key_delivery lib exact (enq k) (filter (\<lambda>e. ev_PartitionKey e = k) (taken b)) (map snd bl) x"
  using assms by (auto simp: relay_ok_def)

text \<open>What a worker in the loop sees: the key's first record is the one it is about to publish.\<close>

lemma draining_head:
  assumes "relay_ok lib exact enq m b ws" and "ws w = Draining k (p # ps)"
  obtains rest where "mem_backlog m k = (p_ID p, p_Record p) # rest" "rows_of ps = take (length ps) rest" "\<not> is_marking ws k"
    "PartitionKey (p_Record p) = k"
proof -
  have ok: "mem_ok m" "workers_ok m ws" using assms(1) by (simp_all add: relay_ok_def)
  then have "worker_ok m (ws w)" by (simp add: workers_ok_def)
  then obtain rest where r: "mem_backlog m k = (p_ID p, p_Record p) # rest" "rows_of ps = take (length ps) rest"
    using assms(2) by (cases "mem_backlog m k") (auto simp: rows_of_def)
  have "\<not> is_marking ws k" using not_marking [OF ok(2), of w k] assms(2) by simp
  moreover have "PartitionKey (p_Record p) = k" using mem.keyed [OF ok(1), of "(p_ID p, p_Record p)" k] r(1) by simp
  ultimately show ?thesis using that r by blast
qed

lemma relay_ok_published:
  assumes "relay_ok lib (exact_publisher pub) enq m b ws" and "ws w = Draining k (p # ps)"
    and "publish_record lib pub (p_Record p) b = (err, b')"
  shows "relay_ok lib (exact_publisher pub) enq m b' (ws(w := (case err of None \<Rightarrow> Marking k p ps | Some c \<Rightarrow> Failing k p c)))"
proof -
  obtain rest where r: "mem_backlog m k = (p_ID p, p_Record p) # rest" "rows_of ps = take (length ps) rest" "\<not> is_marking ws k"
    "PartitionKey (p_Record p) = k" using draining_head [OF assms(1,2)] by blast
  define x where "x = (case err of None \<Rightarrow> Marking k p ps | Some c \<Rightarrow> Failing k p c)"
  have x: "holds x = Some k" "worker_ok m x" "(\<exists>p ps. x = Marking k p ps) = (err = None)"
    using r by (auto simp: x_def rows_of_def split: option.split)
  have h: "holds (ws w) = Some k" "mem_ok m" using assms(1,2) by (simp_all add: relay_ok_def)
  have kd: "key_delivery lib (exact_publisher pub) (enq k) (filter (\<lambda>e. ev_PartitionKey e = k) (taken b))
      (p_Record p # map snd rest) False" using relay_ok_key [OF assms(1) r(1), of False] r(3) by simp
  show ?thesis
    using assms(3)
  proof (cases rule: publish_record_cases)
    case (same c)
    then show ?thesis
      unfolding x_def [symmetric] using kd
      by (intro relay_ok_step [OF assms(1) h(1) x(1) h(2) x(2)]) (simp_all add: x(3) r(1))
  next
    case (stored event)
    have key: "ev_PartitionKey event = k" using Event_key stored(1) r(4) by blast
    show ?thesis
      unfolding x_def [symmetric] using key_delivery_stored [OF kd stored(1), of "err = None"] stored(2,3) key
      by (intro relay_ok_step [OF assms(1) h(1) x(1) h(2) x(2)]) (simp_all add: x(3) r(1))
  qed
qed

lemma relay_ok_marked:
  assumes "relay_ok lib exact enq m b ws" and "ws w = Marking k p ps" and "MarkPublished memory_queue (p_ID p) m = (None, m')"
  shows "relay_ok lib exact enq m' b (ws(w := Draining k ps))"
proof -
  have ok: "mem_ok m" "workers_ok m ws" using assms(1) by (simp_all add: relay_ok_def)
  then have "worker_ok m (ws w)" by (simp add: workers_ok_def)
  then obtain rest where r: "mem_backlog m k = (p_ID p, p_Record p) # rest" "rows_of ps = take (length ps) rest"
    using assms(2) by (cases "mem_backlog m k") (auto simp: rows_of_def)
  note P = mem.published_head [OF ok(1) r(1) assms(3)]
  have "is_marking ws k" using assms(2) by (auto simp: is_marking_def)
  then have "key_delivery lib exact (enq k) (filter (\<lambda>e. ev_PartitionKey e = k) (taken b)) (p_Record p # map snd rest) True"
    using relay_ok_key [OF assms(1) r(1), of True] by simp
  then have "key_delivery lib exact (enq k) (filter (\<lambda>e. ev_PartitionKey e = k) (taken b)) (map snd rest) False"
    by (rule key_delivery_marked)
  then show ?thesis using P r by (intro relay_ok_step [OF assms(1), where k = k]) (simp_all add: assms(2))
qed

lemma relay_world_ok:
  "relay_world lib pub batch enq m b ws \<Longrightarrow> relay_ok lib (exact_publisher pub) enq m b ws"
proof (induction rule: relay_world.induct)
  case start
  show ?case
    by (auto simp: relay_ok_def workers_ok_def mem_ok_def NewMemory_def mem_backlog_def key_delivery_def is_marking_def)
next
  case (enqueue enq m b ws rs now)
  define m' where "m' = snd (mem_Append now rs m)"
  have ok: "mem_ok m" "workers_ok m ws" using enqueue.IH by (auto simp: relay_ok_def)
  have app: "map snd (mem_backlog m' k) = map snd (mem_backlog m k) @ filter (\<lambda>r. PartitionKey r = k) (takeWhile (\<lambda>r. TenantID r \<noteq> []) rs)" for k
    unfolding m'_def by (rule mem_Append_ok(2) [OF ok(1)])
  have pre: "take n (mem_backlog m' k) = take n (mem_backlog m k)" if "n \<le> length (mem_backlog m k)" for n k
    using mem_Append_prefix [of now rs m k] that unfolding m'_def by auto
  have "worker_ok m' x" if "worker_ok m x" for x
    using that by (cases x) (auto simp: rows_of_def dest: arg_cong [where f = length] intro!: pre [symmetric])
  then have "workers_ok m' ws" using ok(2) mem_Append_locked [of now rs m] by (simp add: workers_ok_def m'_def)
  then show ?case
    using enqueue.IH mem_Append_ok(1) [OF ok(1)] unfolding relay_ok_def app [unfolded m'_def] m'_def
    by (auto intro: key_delivery_enqueue)
next
  case (lock enq m b ws w k wait m')
  have ok: "mem_ok m" "workers_ok m ws" using lock.IH by (simp_all add: relay_ok_def)
  note L = mem.lock_acquired [OF ok(1) lock.hyps(3)]
  have bl: "mem_backlog m' = mem_backlog m" using L by simp
  have same: "worker_ok m' x = worker_ok m x" for x by (cases x) (simp_all add: bl)
  have free: "holds (ws v) \<noteq> Some k" for v using L ok(2) by (auto simp: workers_ok_def)
  have "workers_ok m' (ws(w := Locked_key k))"
    using ok(2) L free lock.hyps(2) unfolding workers_ok_def same by (auto simp: fun_upd_apply) (metis holds.simps(1) option.distinct(1))
  moreover have "is_marking (ws(w := Locked_key k)) k' = is_marking ws k'" for k'
    using lock.hyps(2) by (intro is_marking_aside) simp_all
  ultimately show ?case using lock.IH L unfolding relay_ok_def bl by presburger
next
  case (read enq m b ws w k ps)
  have ok: "mem_ok m" "workers_ok m ws" using read.IH by (simp_all add: relay_ok_def)
  have ps: "rows_of ps = take batch (mem_backlog m k)" using mem.pending [OF ok(1) read.hyps(3)] by (simp add: rows_of_def)
  then have "length ps = length (take batch (mem_backlog m k))" by (metis length_map rows_of_def)
  then have w: "worker_ok m (Draining k ps)" using ps by (simp add: min_def split: if_splits)
  have "\<not> is_marking ws k" using not_marking [OF ok(2), of w k] read.hyps(2) by simp
  then show ?case using relay_ok_key [OF read.IH refl, of k False] w ok
    by (intro relay_ok_step [OF read.IH, where k = k]) (simp_all add: read.hyps(2))
next
  case (sent enq m b ws w k p ps b')
  from relay_ok_published [OF sent.IH sent.hyps(2,3)] show ?case by (simp del: fun_upd_apply)
next
  case (not_sent enq m b ws w k p ps c b')
  from relay_ok_published [OF not_sent.IH not_sent.hyps(2,3)] show ?case by (simp del: fun_upd_apply)
next
  case (mark enq m b ws w k p ps m')
  from relay_ok_marked [OF mark.IH mark.hyps(2,3)] show ?case .
next
  case (mark_failed enq m b ws w k p c m')
  have ok: "mem_ok m" "workers_ok m ws" using mark_failed.IH by (simp_all add: relay_ok_def)
  have F: "mem_ok m'" "locked m' = locked m" "mem_backlog m' = mem_backlog m"
    using mem.failed [OF ok(1) mark_failed.hyps(3)] by auto
  have "\<not> is_marking ws k" using not_marking [OF ok(2), of w k] mark_failed.hyps(2) by simp
  then show ?case using relay_ok_key [OF mark_failed.IH refl, of k False] F
    by (intro relay_ok_step [OF mark_failed.IH, where k = k]) (simp_all add: mark_failed.hyps(2))
next
  case (last enq m b ws w k)
  have ok: "mem_ok m" "workers_ok m ws" using last.IH by (simp_all add: relay_ok_def)
  have "\<not> is_marking ws k" using not_marking [OF ok(2), of w k] last.hyps(2) by simp
  then show ?case using relay_ok_key [OF last.IH refl, of k False] ok
    by (intro relay_ok_step [OF last.IH, where k = k]) (simp_all add: last.hyps(2))
next
  case (unlock enq m b ws w k)
  have ok: "mem_ok m" "workers_ok m ws" using unlock.IH by (simp_all add: relay_ok_def)
  note R = mem.released [OF ok(1), of k]
  have bl: "mem_backlog (release memory_queue k m) = mem_backlog m" using R by simp
  have same: "worker_ok (release memory_queue k m) x = worker_ok m x" for x by (cases x) (simp_all add: bl)
  have "holds (ws v) = Some k \<Longrightarrow> v = w" for v using ok(2) unlock.hyps(2) by (auto simp: workers_ok_def)
  then have "workers_ok (release memory_queue k m) (ws(w := Idle))"
    using ok(2) R unlock.hyps(2) unfolding workers_ok_def same by (auto simp: fun_upd_apply) (metis holds.simps(6) option.inject)
  moreover have "is_marking (ws(w := Idle)) k' = is_marking ws k'" for k'
    using unlock.hyps(2) by (intro is_marking_aside) simp_all
  ultimately show ?case using unlock.IH R unfolding relay_ok_def bl by presburger
qed
section \<open>The drains are runs of the relays\<close>

lemma drain_loop_world:
  assumes "relay_world lib pub batch enq m b ws" and "ws w = Draining k ps"
  shows "relay_world lib pub batch enq (queue (drain_loop memory_queue lib pub k ps n m b))
    (broker (drain_loop memory_queue lib pub k ps n m b)) (ws(w := Releasing k))"
  using assms
proof (induction ps arbitrary: n m b ws)
  case Nil
  then show ?case using relay_world.last [OF Nil.prems] by (simp del: fun_upd_apply)
next
  case (Cons p ps)
  obtain err b' where pr: "publish_record lib pub (p_Record p) b = (err, b')" by fastforce
  show ?case
  proof (cases err)
    case (Some c)
    obtain m' where mf: "MarkFailed memory_queue (p_ID p) c m = (None, m')" using mem.marks_failed by (metis prod.collapse)
    have "relay_world lib pub batch enq m b' (ws(w := Failing k p c))"
      using relay_world.not_sent [OF Cons.prems] pr Some by simp
    from relay_world.mark_failed [OF this _ mf, of w k] show ?thesis using pr Some mf by (simp del: fun_upd_apply add: fun_upd_same fun_upd_upd)
  next
    case None
    obtain m' where mp: "MarkPublished memory_queue (p_ID p) m = (None, m')" using mem.marks_published by (metis prod.collapse)
    have "relay_world lib pub batch enq m b' (ws(w := Marking k p ps))"
      using relay_world.sent [OF Cons.prems] pr None by simp
    from relay_world.mark [OF this _ mp, of w k ps] have "relay_world lib pub batch enq m' b' (ws(w := Draining k ps))" by simp
    from Cons.IH [OF this, of "n + 1"] show ?thesis using pr None mp by (simp del: fun_upd_apply add: fun_upd_same fun_upd_upd)
  qed
qed

lemma drainKey_world:
  assumes "relay_world lib pub batch enq m b ws" and "ws w = Idle"
  shows "relay_world lib pub batch enq (queue (drainKey memory_queue lib pub batch k wait m b))
    (broker (drainKey memory_queue lib pub batch k wait m b)) ws"
proof -
  obtain r m1 where lk: "LockKey memory_queue k wait m = (r, m1)" by fastforce
  show ?thesis
  proof (cases "r = Acquired")
    case False
    have "m1 = m" using mem.lock_refused [OF _ lk False] relay_world_ok [OF assms(1)] by (simp add: relay_ok_def)
    then show ?thesis using False lk assms(1) by (cases r) (simp_all add: drainKey_def)
  next
    case True
    obtain ps where ps: "PendingFor memory_queue k batch m1 = Inr ps" using mem.reads by blast
    have "relay_world lib pub batch enq m1 b (ws(w := Locked_key k))" using relay_world.lock [OF assms] lk True by simp
    from relay_world.read [OF this _ ps, of w] have "relay_world lib pub batch enq m1 b (ws(w := Draining k ps))" by simp
    from drain_loop_world [OF this, of w k ps 0]
    have "relay_world lib pub batch enq (queue (drain_loop memory_queue lib pub k ps 0 m1 b))
        (broker (drain_loop memory_queue lib pub k ps 0 m1 b)) (ws(w := Releasing k))" by simp
    from relay_world.unlock [OF this, of w k] have "relay_world lib pub batch enq
        (release memory_queue k (queue (drain_loop memory_queue lib pub k ps 0 m1 b)))
        (broker (drain_loop memory_queue lib pub k ps 0 m1 b)) (ws(w := Idle))" by simp
    moreover have "ws(w := Idle) = ws" using assms(2) by auto
    ultimately show ?thesis using lk True ps by (simp add: drainKey_def Let_def)
  qed
qed

lemma drain_keys_world:
  assumes "relay_world lib pub batch enq m b ws" and "ws w = Idle"
    and "drain_keys memory_queue lib pub batch cancelled ks n m b = (e, n', m', b')"
  shows "relay_world lib pub batch enq m' b' ws"
  using assms(1,3)
proof (induction ks arbitrary: n m b)
  case (Cons k ks)
  define D where "D = drainKey memory_queue lib pub batch k False m b"
  have "relay_world lib pub batch enq (queue D) (broker D) ws"
    unfolding D_def by (rule drainKey_world [OF Cons.prems(1) assms(2)])
  then show ?case using Cons by (cases "fault D") (auto simp: D_def [symmetric] Let_def split: if_splits)
qed simp

lemma Flush_world:
  assumes "relay_world lib pub batch enq m b ws" and "ws w = Idle" and "Flush memory_queue lib pub batch k m b = (e, n, m', b')"
  shows "relay_world lib pub batch enq m' b' ws"
  using drainKey_world [OF assms(1,2), of k True] assms(3) by (auto simp: Flush_def Let_def)

lemma DrainOnce_world:
  assumes "relay_world lib pub batch enq m b ws" and "ws w = Idle"
    and "DrainOnce memory_queue lib pub batch cancelled m b = (e, n, m', b')"
  shows "relay_world lib pub batch enq m' b' ws"
  using drain_keys_world [OF assms(1,2)] assms(1,3) by (auto simp: DrainOnce_def split: sum.splits)

section \<open>Properties\<close>

text \<open>
  C25: in every state that handlers enqueuing records and any number of relays draining them at once can reach,
  whatever the publisher answers, for every key: the records enqueued are those that left the queue followed by those
  that wait, in order; the broker has stored exactly those that left, in that order, each once or several times in
  a row, and after them nothing but copies of the first one that waits. So no fact is lost, reordered or skipped, and one is
  repeated only before the next of its key. A publisher that never loses the acknowledgement of a stored event
  delivers each exactly once. \<open>Flush\<close> and \<open>DrainOnce\<close>, called by an idle goroutine and run to their end, are such runs.
\<close>

theorem outbox_in_order:
  assumes "relay_world lib pub batch enq m b ws"
  shows "(\<forall>k. \<exists>gone ts j event.
      map (Event lib) (enq k) = map Inr gone @ map (Event lib \<circ> snd) (mem_backlog m k)
      \<and> filter (\<lambda>e. ev_PartitionKey e = k) (taken b) = ts @ replicate j event \<and> delivered gone ts
      \<and> (j = 0 \<or> mem_backlog m k \<noteq> [] \<and> Event lib (snd (hd (mem_backlog m k))) = Inr event)
      \<and> ((\<exists>n e c. pub n e = Stored_unacknowledged c) \<or> ts = gone \<and> j = (if is_marking ws k then 1 else 0)))
    \<and> (\<forall>w k e n m' b'. ws w = Idle \<and> Flush memory_queue lib pub batch k m b = (e, n, m', b')
         \<longrightarrow> relay_world lib pub batch enq m' b' ws)
    \<and> (\<forall>w cancelled e n m' b'. ws w = Idle \<and> DrainOnce memory_queue lib pub batch cancelled m b = (e, n, m', b')
         \<longrightarrow> relay_world lib pub batch enq m' b' ws)"
proof -
  have "\<exists>gone ts j event.
      map (Event lib) (enq k) = map Inr gone @ map (Event lib \<circ> snd) (mem_backlog m k)
      \<and> filter (\<lambda>e. ev_PartitionKey e = k) (taken b) = ts @ replicate j event \<and> delivered gone ts
      \<and> (j = 0 \<or> mem_backlog m k \<noteq> [] \<and> Event lib (snd (hd (mem_backlog m k))) = Inr event)
      \<and> ((\<exists>n e c. pub n e = Stored_unacknowledged c) \<or> ts = gone \<and> j = (if is_marking ws k then 1 else 0))" for k
  proof -
    have "key_delivery lib (exact_publisher pub) (enq k) (filter (\<lambda>e. ev_PartitionKey e = k) (taken b))
        (map snd (mem_backlog m k)) (is_marking ws k)" using relay_world_ok [OF assms] by (simp add: relay_ok_def)
    then obtain gone ts j event where *: "map (Event lib) (enq k) = map Inr gone @ map (Event lib) (map snd (mem_backlog m k))"
      "filter (\<lambda>e. ev_PartitionKey e = k) (taken b) = ts @ replicate j event" "delivered gone ts"
      "j \<noteq> 0 \<longrightarrow> map snd (mem_backlog m k) \<noteq> [] \<and> Event lib (hd (map snd (mem_backlog m k))) = Inr event"
      "exact_publisher pub \<longrightarrow> ts = gone \<and> j = (if is_marking ws k then 1 else 0)"
      unfolding key_delivery_def by (elim exE conjE) (rule that)
    have "j = 0 \<or> mem_backlog m k \<noteq> [] \<and> Event lib (snd (hd (mem_backlog m k))) = Inr event" using *(4) by (auto simp: hd_map)
    then show ?thesis using *(1-3,5) unfolding exact_publisher_def map_map by blast
  qed
  then show ?thesis using Flush_world [OF assms] DrainOnce_world [OF assms] by blast
qed

lemma drain_loop_acknowledged:
  assumes "\<And>n e. pub n e = Acknowledged" and "\<forall>p \<in> set ps. \<exists>e. Event lib (p_Record p) = Inr e"
  shows "stalled (drain_loop memory_queue lib pub k ps n q b) = None"
  using assms(2)
proof (induction ps arbitrary: n q b)
  case (Cons p ps)
  then obtain e where e: "Event lib (p_Record p) = Inr e" by auto
  obtain q' where "MarkPublished memory_queue (p_ID p) q = (None, q')"
    using mem.marks_published by (metis prod.collapse)
  then show ?case using Cons e assms(1) by (simp add: publish_record_def publish_def)
qed simp

lemma Flush_acknowledged:
  assumes "mem_ok m" and "\<not> locked m k" and "\<And>n e. pub n e = Acknowledged"
    and "\<forall>x \<in> set (mem_backlog m k). \<exists>e. Event lib (snd x) = Inr e"
  shows "\<exists>m' b' es. Flush memory_queue lib pub batch k m b =
      (if length (mem_backlog m k) < batch then None else Some (Inr (Beyond_batch k batch)),
       min batch (length (mem_backlog m k)), m', b')
    \<and> mem_backlog m' = (mem_backlog m)(k := drop batch (mem_backlog m k)) \<and> locked m' = locked m
    \<and> taken b' = taken b @ es \<and> map Inr es = map (Event lib \<circ> snd) (take batch (mem_backlog m k))"
proof -
  obtain m1 where l: "LockKey memory_queue k True m = (Acquired, m1)"
    using assms(2) by (simp add: memory_queue_def mem_LockKey_def)
  have L: "mem_ok m1" "mem_backlog m1 = mem_backlog m" "locked m1 = (locked m)(k := True)"
    using mem.lock_acquired [OF assms(1) l] by auto
  obtain ps where ps: "PendingFor memory_queue k batch m1 = Inr ps" using mem.reads by blast
  have pm: "map (\<lambda>p. (p_ID p, p_Record p)) ps = take batch (mem_backlog m k)"
    using mem.pending [OF L(1) ps] L(2) by simp
  then have len: "length ps = min batch (length (mem_backlog m k))" by (metis length_map length_take min.commute)
  have pm': "map (\<lambda>p. (p_ID p, p_Record p)) ps = take (length ps) (mem_backlog m1 k)" using pm by (simp add: len L(2) min_def)
  have dec: "\<forall>p \<in> set ps. \<exists>e. Event lib (p_Record p) = Inr e"
  proof
    fix p assume "p \<in> set ps"
    then have "(p_ID p, p_Record p) \<in> set (take batch (mem_backlog m k))" unfolding pm [symmetric] by auto
    then show "\<exists>e. Event lib (p_Record p) = Inr e" using assms(4) by (auto dest!: in_set_takeD)
  qed
  define d where "d = drain_loop memory_queue lib pub k ps 0 m1 b"
  have clean: "stalled d = None" "fault d = None"
    unfolding d_def by (rule drain_loop_acknowledged [OF assms(3) dec], rule mem.drain_loop_no_fault)
  obtain es where pre: "mem.drained_prefix lib k m1 b 0 d (length ps) es"
    using mem.drain_loop_prefix [OF L(1) pm', of lib b 0 pub] clean unfolding d_def by blast
  have es: "length es = length ps" "sent d = length ps" "mem_ok (queue d)" "locked (queue d) = locked m1"
    "mem_backlog (queue d) = (mem_backlog m)(k := drop (length ps) (mem_backlog m k))" "taken (broker d) = taken b @ es"
    "map Inr es = map (Event lib \<circ> snd) (take (length es) (mem_backlog m k))"
    using pre clean unfolding mem.drained_prefix_def L(2) by auto
  have cut: "drop (length ps) (mem_backlog m k) = drop batch (mem_backlog m k)"
    "take (length ps) (mem_backlog m k) = take batch (mem_backlog m k)" by (simp_all add: len min_def)
  have R: "mem_backlog (release memory_queue k (queue d)) = mem_backlog (queue d)"
    "locked (release memory_queue k (queue d)) = (locked (queue d))(k := False)" using mem.released [OF es(3)] by auto
  have "locked (release memory_queue k (queue d)) = locked m" using R(2) es(4) L(3) assms(2) by (auto simp: fun_eq_iff)
  then show ?thesis
    using l ps clean es R cut len
    by (intro exI [of _ "release memory_queue k (queue d)"] exI [of _ "broker d"] exI [of _ es])
      (auto simp: Flush_def drainKey_def Let_def d_def [symmetric])
qed

text \<open>
  C39: whatever failed before, a key no goroutine is draining is never stuck. With a publisher that acknowledges and
  records that decode, \<open>Flush\<close> publishes the first batch of the key's backlog, in order and each once, drops exactly
  these, counts them, leaves every other key and the locks as they were, and reports no error exactly when the backlog
  was shorter than a batch; at a full batch it says that records may remain.
\<close>

theorem Flush_recovers:
  assumes "relay_world lib pub batch enq m b ws" and "\<forall>w. holds (ws w) \<noteq> Some k" and "\<forall>n e. pub' n e = Acknowledged"
    and "\<forall>r \<in> set (enq k). \<exists>e. Event lib r = Inr e"
  shows "\<exists>m' b' es. Flush memory_queue lib pub' batch k m b =
      (if length (mem_backlog m k) < batch then None else Some (Inr (Beyond_batch k batch)),
       min batch (length (mem_backlog m k)), m', b')
    \<and> mem_backlog m' = (mem_backlog m)(k := drop batch (mem_backlog m k)) \<and> locked m' = locked m
    \<and> taken b' = taken b @ es \<and> map Inr es = map (Event lib \<circ> snd) (take batch (mem_backlog m k))"
proof (rule Flush_acknowledged)
  have ok: "relay_ok lib (exact_publisher pub) enq m b ws" using assms(1) by (rule relay_world_ok)
  then show "mem_ok m" and "\<not> locked m k" using assms(2) by (auto simp: relay_ok_def workers_ok_def)
  have "set (map (Event lib) (map snd (mem_backlog m k))) \<subseteq> set (map (Event lib) (enq k))"
    using relay_ok_key [OF ok refl refl, of k] unfolding key_delivery_def by (metis set_append sup_ge2)
  then show "\<forall>x \<in> set (mem_backlog m k). \<exists>e. Event lib (snd x) = Inr e"
    using assms(4) by (force simp: subset_iff)
qed (use assms(3) in simp)

section \<open>Witnesses\<close>

text \<open>A publisher whose first acknowledgement is lost: the event is stored, and published again by the next flush.\<close>

definition lossy :: "nat \<Rightarrow> 'm BusEvent \<Rightarrow> publish_answer" where
  "lossy n e = (if n = 0 then Stored_unacknowledged ''timeout'' else Acknowledged)"

definition sample_enqueued :: Memory where
  "sample_enqueued = snd (mem_Append 1 [sample_record] NewMemory)"

definition after_flush :: "nat \<Rightarrow> Memory \<times> string Broker" where
  "after_flush n = ((\<lambda>s. snd (snd (Flush memory_queue string_lib lossy 8 ''o1'' (fst s) (snd s)))) ^^ n)
     (sample_enqueued, \<lparr>taken = [], calls = 0\<rparr>)"

lemma sample_enqueued_world:
  "relay_world string_lib lossy 8 (\<lambda>k. if k = ''o1'' then [sample_record] else []) sample_enqueued \<lparr>taken = [], calls = 0\<rparr> (\<lambda>_. Idle)"
proof -
  have "(\<lambda>k. [] @ filter (\<lambda>r. PartitionKey r = k) (takeWhile (\<lambda>r. TenantID r \<noteq> []) [sample_record]))
      = (\<lambda>k. if k = ''o1'' then [sample_record] else [])" by (auto simp: sample_record_def)
  then show ?thesis
    using relay_world.enqueue [OF relay_world.start, of string_lib lossy 8 "[sample_record]" 1] unfolding sample_enqueued_def by simp
qed

lemma after_flush_world:
  "relay_world string_lib lossy 8 (\<lambda>k. if k = ''o1'' then [sample_record] else []) (fst (after_flush n)) (snd (after_flush n)) (\<lambda>_. Idle)"
proof (induction n)
  case 0
  then show ?case using sample_enqueued_world by (simp add: after_flush_def)
next
  case (Suc n)
  obtain e c m' b' where f: "Flush memory_queue string_lib lossy 8 ''o1'' (fst (after_flush n)) (snd (after_flush n)) = (e, c, m', b')"
    by (rule prod_cases4)
  have "after_flush (Suc n) = (m', b')" using f by (simp add: after_flush_def)
  then show ?case using Flush_world [OF Suc _ f] by simp
qed

lemma after_flush_values:
  "length (taken (snd (after_flush 2))) = 2" "mem_backlog (fst (after_flush 2)) ''o1'' = []"
  "length (mem_backlog (fst (after_flush 1)) ''o1'') = 1" "length (taken (snd (after_flush 1))) = 1"
  by code_simp+

text \<open>After two flushes the one record enqueued has left the queue and was delivered twice in a row.\<close>

theorem outbox_in_order_witness:
  "\<exists>gone. length gone = 1 \<and> delivered gone (filter (\<lambda>e. ev_PartitionKey e = ''o1'') (taken (snd (after_flush 2))))
     \<and> length (taken (snd (after_flush 2))) = 2"
proof -
  obtain gone ts j event where *: "map (Event string_lib) [sample_record] =
        map Inr gone @ map (Event string_lib \<circ> snd) (mem_backlog (fst (after_flush 2)) ''o1'')"
      "filter (\<lambda>e. ev_PartitionKey e = ''o1'') (taken (snd (after_flush 2))) = ts @ replicate j event" "delivered gone ts"
      "j = 0 \<or> mem_backlog (fst (after_flush 2)) ''o1'' \<noteq> []"
    using outbox_in_order [OF after_flush_world [of 2], THEN conjunct1, THEN spec [of _ "''o1''"]] by auto
  have "length gone = 1" using *(1) by (auto simp: after_flush_values Cons_eq_append_conv)
  then show ?thesis using *(2-4) by (auto simp: after_flush_values)
qed

text \<open>The flush after the lost acknowledgement succeeds: the record, already stored once, is published again and leaves.\<close>

theorem Flush_recovers_witness:
  "\<exists>m' b'. Flush memory_queue string_lib (\<lambda>_ _. Acknowledged) 8 ''o1'' (fst (after_flush 1)) (snd (after_flush 1)) = (None, 1, m', b')
     \<and> mem_backlog m' ''o1'' = [] \<and> length (taken b') = 2"
proof -
  have "\<forall>r \<in> set (if ''o1'' = ''o1'' then [sample_record] else []). \<exists>e. Event string_lib r = Inr e"
    by (simp add: sample_record_def Event_def string_lib_def before_last_colon_def)
  from Flush_recovers [OF after_flush_world [of 1], of "''o1''" "\<lambda>_ _. Acknowledged", OF _ _ this]
  obtain m' b' es where f: "Flush memory_queue string_lib (\<lambda>_ _. Acknowledged) 8 ''o1'' (fst (after_flush 1)) (snd (after_flush 1)) = (None, 1, m', b')"
    "mem_backlog m' ''o1'' = []" "taken b' = taken (snd (after_flush 1)) @ es"
    "map Inr es = map (Event string_lib \<circ> snd) (take 8 (mem_backlog (fst (after_flush 1)) ''o1''))"
    by (auto simp: after_flush_values [unfolded One_nat_def])
  have "length es = 1" using arg_cong [OF f(4), of length] by (simp add: after_flush_values [unfolded One_nat_def])
  then show ?thesis using f(1-3) after_flush_values(4) by auto
qed

text \<open>\<open>Append\<close> is not atomic: a record without a tenant leaves those before it in the queue.\<close>

lemma Append_not_atomic:
  "mem_Append 1 [sample_record, sample_record\<lparr>TenantID := []\<rparr>] NewMemory
   = (Some ''outbox: record with no tenant'', snd (mem_Append 1 [sample_record] NewMemory))
   \<and> PendingCount (snd (mem_Append 1 [sample_record] NewMemory)) = 1"
  by (simp add: sample_record_def NewMemory_def PendingCount_def)

end
