(* ===== verification/Ledger.thy ===== *)
theory Ledger
  imports Cost_Basis Go_Lib "HOL-Library.Product_Lexorder" "HOL-Library.List_Lexorder" "HOL-Library.Char_ord"
begin

text \<open>
  The event-sourced book of record \<open>services/accounting/internal/ledger\<close>: journal entries
  (\<open>ledger.go\<close>), the settlement axis (\<open>settlement.go\<close>), corporate-action revisions and staged income
  (\<open>corporate_action.go\<close>), the identity of cash entries (\<open>cash_identity.go\<close>), the fold of an entry
  into the traded and the settled half of a book, and the bitemporal replay.

  Lists of entries hold no nil: every function of the package that walks a \<open>[]*Event\<close> skips a nil
  element before using it. Go's maps of balances are partial maps; \<open>int64\<close> counts of entries are
  \<^typ>\<open>int\<close>. \<open>sha256.Sum256\<close> and \<open>json.Marshal\<close> are the fields of \<open>ledger_lib\<close>.
\<close>

section \<open>Journal entries\<close>

datatype EntryType =
  EntryUnspecified | EntryTrade | EntryCash | EntryFee | EntryCorporateAction | EntryAccrual
  | EntryUndeclared int

datatype SettlementBasis =
  SettlementUnknown | SettlementSettled | SettlementPending | SettlementUndeclared int

datatype CorpActKind =
  CorpActUnspecified | CorpActSplit | CorpActDividend | CorpActMerger | CorpActCoupon | CorpActUndeclared int

fun EntryType_String :: "EntryType \<Rightarrow> string" where
  "EntryType_String EntryUnspecified = ''unspecified''"
| "EntryType_String EntryTrade = ''trade''"
| "EntryType_String EntryCash = ''cash''"
| "EntryType_String EntryFee = ''fee''"
| "EntryType_String EntryCorporateAction = ''corporate_action''"
| "EntryType_String EntryAccrual = ''accrual''"
| "EntryType_String (EntryUndeclared n) = ''entry_type('' @ Itoa n @ '')''"

definition EntryTypes :: "EntryType list" where
  "EntryTypes = [EntryUnspecified, EntryTrade, EntryCash, EntryFee, EntryCorporateAction, EntryAccrual]"

fun SettlementBasis_String :: "SettlementBasis \<Rightarrow> string" where
  "SettlementBasis_String SettlementUnknown = ''unknown''"
| "SettlementBasis_String SettlementSettled = ''settled''"
| "SettlementBasis_String SettlementPending = ''pending''"
| "SettlementBasis_String (SettlementUndeclared n) = ''settlement_basis('' @ Itoa n @ '')''"

definition SettlementBases :: "SettlementBasis list" where
  "SettlementBases = [SettlementUnknown, SettlementSettled, SettlementPending]"

text \<open>Go embeds \<open>ActionLifecycle\<close> in \<open>Action\<close>; here it is the record that \<open>Action\<close> extends.\<close>

record ActionLifecycle =
  ActionID :: string
  Revision :: "64 word"
  Cancelled :: bool
  PayDate :: instant
  PaidAt :: instant
  PaymentRef :: string

record Action = ActionLifecycle +
  Kind :: CorpActKind
  Ratio :: "rat option"
  PerUnit :: "rat option"
  Target :: string
  Currency :: string

record LedgerEvent =
  journalReadPosition :: int
  actionStage :: nat
  ExecutionEvidence :: string
  EntryID :: string
  PortfolioID :: string
  VenueAccountID :: string
  Type :: EntryType
  InstrumentID :: string
  Quantity :: "rat option"
  Price :: "rat option"
  Cash :: "rat option"
  CashCurrency :: string
  Action :: "Action option"
  Effective :: instant
  Knowledge :: instant
  SettlementBasis :: SettlementBasis
  SettlementDate :: instant
  SourceRef :: string

text \<open>
  \<open>book\<close>: what one portfolio holds. \<open>seen\<close> is the set of entry ids already folded.
\<close>

record Book =
  commitPrefix :: bool
  journalPosition :: int
  nextEffective :: instant
  actionCount :: int
  entitlements :: "string \<rightharpoonup> rat"
  bPortfolioID :: string
  Positions :: "string \<rightharpoonup> lot"
  bCash :: "string \<rightharpoonup> rat"
  Accrued :: "string \<rightharpoonup> rat"
  SettledPositions :: "string \<rightharpoonup> lot"
  SettledCash :: "string \<rightharpoonup> rat"
  settlementStated :: bool
  unknownSettlement :: int
  pendingSettlement :: int
  seen :: "string set"
  maxEffective :: instant

definition NewBook :: "string \<Rightarrow> Book" where
  "NewBook portfolioID =
     \<lparr>commitPrefix = False, journalPosition = 0, nextEffective = 0, actionCount = 0,
      entitlements = Map.empty, bPortfolioID = portfolioID, Positions = Map.empty, bCash = Map.empty,
      Accrued = Map.empty, SettledPositions = Map.empty, SettledCash = Map.empty,
      settlementStated = True, unknownSettlement = 0, pendingSettlement = 0, seen = {},
      maxEffective = 0\<rparr>"

section \<open>Encodings taken from the standard library\<close>

record actionJSON =
  aj_Lifecycle :: ActionLifecycle
  aj_Kind :: int
  aj_Ratio :: string
  aj_PerUnit :: string
  aj_Target :: string
  aj_Currency :: string

text \<open>
  \<open>Sum256\<close> is \<open>sha256.Sum256\<close>; \<open>MarshalIdentity\<close> is \<open>json.Marshal\<close> on the array
  \<open>[portfolio, action, revision]\<close>, and \<open>MarshalAction\<close> on an \<open>actionJSON\<close>, \<open>None\<close> when it fails (a
  time outside the years 0 to 9999).
\<close>

record ledger_lib =
  Sum256 :: "string \<Rightarrow> string"
  MarshalIdentity :: "string \<Rightarrow> string \<Rightarrow> 64 word \<Rightarrow> string"
  MarshalAction :: "actionJSON \<Rightarrow> string option"

definition ActionEntryID :: "ledger_lib \<Rightarrow> string \<Rightarrow> string \<Rightarrow> 64 word \<Rightarrow> string" where
  "ActionEntryID lib portfolio action revision =
     ''corpact:'' @ hex_encode (Sum256 lib (MarshalIdentity lib portfolio action revision))"

fun CorpActKind_int :: "CorpActKind \<Rightarrow> int" where
  "CorpActKind_int CorpActUnspecified = 0"
| "CorpActKind_int CorpActSplit = 1"
| "CorpActKind_int CorpActDividend = 2"
| "CorpActKind_int CorpActMerger = 3"
| "CorpActKind_int CorpActCoupon = 4"
| "CorpActKind_int (CorpActUndeclared n) = n"

definition encodeAction :: "ledger_lib \<Rightarrow> Action \<Rightarrow> string option" where
  "encodeAction lib a = MarshalAction lib
     \<lparr>aj_Lifecycle = ActionLifecycle.truncate a, aj_Kind = CorpActKind_int (Kind a),
      aj_Ratio = (case Ratio a of None \<Rightarrow> '''' | Some r \<Rightarrow> RatString r),
      aj_PerUnit = (case PerUnit a of None \<Rightarrow> '''' | Some r \<Rightarrow> RatString r),
      aj_Target = Target a, aj_Currency = Currency a\<rparr>"

section \<open>Folding one entry\<close>

definition add :: "(string \<rightharpoonup> rat) \<Rightarrow> string \<Rightarrow> rat \<Rightarrow> (string \<rightharpoonup> rat)" where
  "add m key v = m(key \<mapsto> (case m key of None \<Rightarrow> 0 | Some cur \<Rightarrow> cur) + v)"

definition orZero :: "rat option \<Rightarrow> rat" where
  "orZero r = (case r of None \<Rightarrow> 0 | Some v \<Rightarrow> v)"

text \<open>One basis of the book: its positions and its cash.\<close>

record basisFold =
  positions :: "string \<rightharpoonup> lot"
  cash :: "string \<rightharpoonup> rat"

definition traded :: "Book \<Rightarrow> basisFold" where
  "traded b = \<lparr>positions = Positions b, cash = bCash b\<rparr>"

definition settled :: "Book \<Rightarrow> basisFold" where
  "settled b = \<lparr>positions = SettledPositions b, cash = SettledCash b\<rparr>"

text \<open>The maps of a \<open>basisFold\<close> are the book's own: what is folded into them is written back.\<close>

definition put_traded :: "basisFold \<Rightarrow> Book \<Rightarrow> Book" where
  "put_traded f b = b\<lparr>Positions := positions f, bCash := cash f\<rparr>"

definition put_settled :: "basisFold \<Rightarrow> Book \<Rightarrow> Book" where
  "put_settled f b = b\<lparr>SettledPositions := positions f, SettledCash := cash f\<rparr>"

definition foldPosition :: "string \<Rightarrow> rat \<Rightarrow> rat \<Rightarrow> basisFold \<Rightarrow> basisFold" where
  "foldPosition instrument signedQty price f =
     (let l = (case positions f instrument of None \<Rightarrow> NewLot | Some l \<Rightarrow> l)
      in f\<lparr>positions := (positions f)(instrument \<mapsto> Fold l signedQty price)\<rparr>)"

definition foldContribution :: "string \<Rightarrow> rat \<Rightarrow> rat \<Rightarrow> basisFold \<Rightarrow> basisFold" where
  "foldContribution instrument qty totalCost f =
     (if qty = 0 then f else foldPosition instrument qty (\<bar>totalCost\<bar> / \<bar>qty\<bar>) f)"

definition foldCorpAct :: "string \<Rightarrow> Action \<Rightarrow> basisFold \<Rightarrow> basisFold" where
  "foldCorpAct instrument a f =
     (case positions f instrument of
        None \<Rightarrow> f
      | Some l \<Rightarrow>
          if Qty l = 0 then f
          else case Kind a of
            CorpActSplit \<Rightarrow>
              (case Ratio a of
                 None \<Rightarrow> f
               | Some ratio \<Rightarrow>
                   if ratio \<le> 0 then f
                   else f\<lparr>positions := (positions f)(instrument \<mapsto> l\<lparr>Qty := Qty l * ratio, AvgCost := AvgCost l / ratio\<rparr>)\<rparr>)
          | CorpActMerger \<Rightarrow>
              (case Ratio a of
                 None \<Rightarrow> f
               | Some ratio \<Rightarrow>
                   if Target a = '''' then f
                   else
                     let q = Qty l;
                         basis = \<bar>q\<bar> * AvgCost l;
                         f = f\<lparr>positions := (positions f)(instrument \<mapsto> l\<lparr>Qty := 0, AvgCost := 0\<rparr>)\<rparr>;
                         f = foldContribution (Target a) (q * ratio) basis f
                     in case PerUnit a of
                          None \<Rightarrow> f
                        | Some pu \<Rightarrow> if pu \<noteq> 0 then f\<lparr>cash := add (cash f) (Currency a) (q * pu)\<rparr> else f)
          | _ \<Rightarrow> f)"

definition foldIncome :: "ledger_lib \<Rightarrow> LedgerEvent \<Rightarrow> Action \<Rightarrow> Book \<Rightarrow> Book" where
  "foldIncome lib e a b =
     (let b = (if actionStage e \<noteq> 2 then
                 (if ActionID a = '''' then b\<lparr>unknownSettlement := unknownSettlement b + 1\<rparr>
                  else b\<lparr>pendingSettlement := pendingSettlement b + 1\<rparr>)
               else b);
          key = ActionEntryID lib (PortfolioID e) (ActionID a) (Revision a)
      in if actionStage e = 2 then
           let b = b\<lparr>pendingSettlement := pendingSettlement b - 1\<rparr> in
           case entitlements b key of
             None \<Rightarrow> b
           | Some amount \<Rightarrow>
               b\<lparr>Accrued := add (Accrued b) (Currency a) (- amount),
                 bCash := add (bCash b) (Currency a) amount,
                 SettledCash := add (SettledCash b) (Currency a) amount,
                 entitlements := (entitlements b)(key := None)\<rparr>
         else
           case (Positions b (InstrumentID e), PerUnit a) of
             (Some lot, Some pu) \<Rightarrow>
               b\<lparr>entitlements := (entitlements b)(key \<mapsto> Qty lot * pu),
                 Accrued := add (Accrued b) (Currency a) (Qty lot * pu)\<rparr>
           | _ \<Rightarrow> b)"

definition is_income :: "CorpActKind \<Rightarrow> bool" where
  "is_income k \<longleftrightarrow> k = CorpActDividend \<or> k = CorpActCoupon"

definition settles :: "LedgerEvent \<Rightarrow> bool" where
  "settles e \<longleftrightarrow> SettlementBasis e = SettlementSettled"

text \<open>The basis is counted before any leg is looked at.\<close>

definition count_basis :: "LedgerEvent \<Rightarrow> Book \<Rightarrow> Book" where
  "count_basis e b =
     (case SettlementBasis e of
        SettlementSettled \<Rightarrow> b
      | SettlementPending \<Rightarrow> b\<lparr>pendingSettlement := pendingSettlement b + 1\<rparr>
      | _ \<Rightarrow> b\<lparr>unknownSettlement := unknownSettlement b + 1\<rparr>)"

text \<open>A fold of positions on the traded basis, and on the settled one when the entry settles.\<close>

definition fold_bases :: "LedgerEvent \<Rightarrow> (basisFold \<Rightarrow> basisFold) \<Rightarrow> Book \<Rightarrow> Book" where
  "fold_bases e f b =
     (let b = put_traded (f (traded b)) b
      in if settles e then put_settled (f (settled b)) b else b)"

definition position_leg :: "LedgerEvent \<Rightarrow> Book \<Rightarrow> Book" where
  "position_leg e b =
     (case Quantity e of
        None \<Rightarrow> b
      | Some q \<Rightarrow>
          if InstrumentID e \<noteq> '''' \<and> q \<noteq> 0
          then fold_bases e (foldPosition (InstrumentID e) q (orZero (Price e))) b else b)"

definition cash_leg :: "LedgerEvent \<Rightarrow> Book \<Rightarrow> Book" where
  "cash_leg e b =
     (case Cash e of
        None \<Rightarrow> b
      | Some c \<Rightarrow>
          if c = 0 then b
          else if Type e = EntryAccrual then b\<lparr>Accrued := add (Accrued b) (CashCurrency e) c\<rparr>
          else
            let b = b\<lparr>bCash := add (bCash b) (CashCurrency e) c\<rparr>
            in if settles e then b\<lparr>SettledCash := add (SettledCash b) (CashCurrency e) c\<rparr> else b)"

definition fold_entry :: "ledger_lib \<Rightarrow> LedgerEvent \<Rightarrow> Book \<Rightarrow> Book" where
  "fold_entry lib e b =
     (case (Type e, Action e) of
        (EntryCorporateAction, Some a) \<Rightarrow>
          if is_income (Kind a) then foldIncome lib e a b
          else fold_bases e (foldCorpAct (InstrumentID e) a) (count_basis e b)
      | _ \<Rightarrow> cash_leg e (position_leg e (count_basis e b)))"

definition cancelled :: "LedgerEvent \<Rightarrow> bool" where
  "cancelled e \<longleftrightarrow> (case Action e of None \<Rightarrow> False | Some a \<Rightarrow> Cancelled a)"

text \<open>The early returns of \<open>Apply\<close>: an entry with no identity, another portfolio's, or a cancelled one.\<close>

definition ignored :: "Book \<Rightarrow> LedgerEvent \<Rightarrow> bool" where
  "ignored b e \<longleftrightarrow>
     EntryID e = '''' \<or> (PortfolioID e \<noteq> '''' \<and> PortfolioID e \<noteq> bPortfolioID b) \<or> cancelled e"

definition mark_folded :: "LedgerEvent \<Rightarrow> Book \<Rightarrow> Book" where
  "mark_folded e b =
     b\<lparr>seen := insert (EntryID e) (seen b), commitPrefix := False,
       maxEffective := (if Effective e > maxEffective b then Effective e else maxEffective b)\<rparr>"

definition Apply :: "ledger_lib \<Rightarrow> Book \<Rightarrow> LedgerEvent \<Rightarrow> Book" where
  "Apply lib b e =
     (if ignored b e \<or> EntryID e \<in> seen b then b else fold_entry lib e (mark_folded e b))"

definition SettlementBasisComplete :: "Book \<Rightarrow> bool" where
  "SettlementBasisComplete b \<longleftrightarrow> settlementStated b \<and> unknownSettlement b = 0"

definition UnknownSettlementEntries :: "Book \<Rightarrow> int" where
  "UnknownSettlementEntries b = unknownSettlement b"

definition PendingSettlementEntries :: "Book \<Rightarrow> int" where
  "PendingSettlementEntries b = pendingSettlement b"

definition balance :: "(string \<rightharpoonup> rat) \<Rightarrow> string \<Rightarrow> rat" where
  "balance m currency = (case m currency of None \<Rightarrow> 0 | Some v \<Rightarrow> v)"

definition CashBalance :: "Book \<Rightarrow> string \<Rightarrow> rat" where
  "CashBalance b currency = balance (bCash b) currency"

definition AccruedBalance :: "Book \<Rightarrow> string \<Rightarrow> rat" where
  "AccruedBalance b currency = balance (Accrued b) currency"

section \<open>Corporate-action revisions\<close>

definition knowable :: "instant \<Rightarrow> LedgerEvent \<Rightarrow> bool" where
  "knowable knowBound e \<longleftrightarrow> knowBound = 0 \<or> \<not> Knowledge e > knowBound"

text \<open>The first loop of \<open>actionEvents\<close>: the highest revision of every action, per portfolio.\<close>

definition record_head :: "(string \<times> string \<Rightarrow> 64 word) \<Rightarrow> LedgerEvent \<Rightarrow> (string \<times> string \<Rightarrow> 64 word)" where
  "record_head heads e =
     (case Action e of
        None \<Rightarrow> heads
      | Some a \<Rightarrow>
          if ActionID a \<noteq> '''' \<and> Revision a > heads (PortfolioID e, ActionID a)
          then heads((PortfolioID e, ActionID a) := Revision a) else heads)"

definition action_heads :: "LedgerEvent list \<Rightarrow> instant \<Rightarrow> (string \<times> string \<Rightarrow> 64 word)" where
  "action_heads events knowBound = foldl record_head (\<lambda>_. 0) (filter (knowable knowBound) events)"

text \<open>
  The second loop: an entry of a superseded revision or a cancelled head is dropped, and an income
  entry becomes its entitlement (stage 1) and, once it is paid, its payment (stage 2).
\<close>

definition stage_entry :: "(string \<times> string \<Rightarrow> 64 word) \<Rightarrow> LedgerEvent \<Rightarrow> LedgerEvent list" where
  "stage_entry heads e =
     (case Action e of
        None \<Rightarrow> [e]
      | Some a \<Rightarrow>
          if ActionID a = '''' then [e]
          else if Revision a \<noteq> heads (PortfolioID e, ActionID a) \<or> Cancelled a then []
          else if actionStage e \<noteq> 0 \<or> \<not> is_income (Kind a) then [e]
          else e\<lparr>actionStage := 1\<rparr> #
            (if PaidAt a \<noteq> 0
             then [e\<lparr>actionStage := 2, EntryID := EntryID e @ '':payment'', Effective := PaidAt a\<rparr>] else []))"

definition actionEvents :: "LedgerEvent list \<Rightarrow> instant \<Rightarrow> LedgerEvent list" where
  "actionEvents events knowBound =
     concat (map (stage_entry (action_heads events knowBound)) (filter (knowable knowBound) events))"

section \<open>Bitemporal replay\<close>

definition fold_key :: "LedgerEvent \<Rightarrow> instant \<times> instant \<times> string" where
  "fold_key e = (Effective e, Knowledge e, EntryID e)"

definition sortedFor :: "LedgerEvent list \<Rightarrow> instant \<Rightarrow> instant \<Rightarrow> bool \<Rightarrow> LedgerEvent list" where
  "sortedFor events effBound knowBound filtering =
     sort_key fold_key
       (filter (\<lambda>e. filtering \<longrightarrow> \<not> (effBound \<noteq> 0 \<and> Effective e > effBound) \<and> knowable knowBound e)
         (actionEvents events (if filtering then knowBound else 0)))"

definition until_step :: "ledger_lib \<Rightarrow> instant \<Rightarrow> Book \<Rightarrow> LedgerEvent \<Rightarrow> Book" where
  "until_step lib effectiveAsOf b e =
     (if PortfolioID e \<noteq> '''' \<and> PortfolioID e \<noteq> bPortfolioID b then b
      else if effectiveAsOf \<noteq> 0 \<and> Effective e > effectiveAsOf then
        (if nextEffective b = 0 \<or> Effective e < nextEffective b then b\<lparr>nextEffective := Effective e\<rparr> else b)
      else Apply lib b e)"

definition applyUntil :: "ledger_lib \<Rightarrow> Book \<Rightarrow> LedgerEvent list \<Rightarrow> instant \<Rightarrow> instant \<Rightarrow> Book" where
  "applyUntil lib b events effectiveAsOf knowledgeAsOf =
     foldl (until_step lib effectiveAsOf) b (sortedFor events 0 knowledgeAsOf True)"

definition countJournalEntries :: "string \<Rightarrow> LedgerEvent list \<Rightarrow> instant \<Rightarrow> int" where
  "countJournalEntries portfolio events known =
     int (length (remdups (map EntryID
       (filter (\<lambda>e. PortfolioID e = portfolio \<and> actionStage e \<noteq> 2 \<and> knowable known e) events))))"

definition hasJournalReadPosition :: "string \<Rightarrow> LedgerEvent list \<Rightarrow> int \<Rightarrow> bool" where
  "hasJournalReadPosition portfolio events position \<longleftrightarrow>
     position > 0
     \<and> list_all (\<lambda>e. \<not> (PortfolioID e = portfolio \<and> actionStage e \<noteq> 2 \<and> journalReadPosition e \<noteq> position)) events"

definition countActionEntries :: "string \<Rightarrow> LedgerEvent list \<Rightarrow> instant \<Rightarrow> int" where
  "countActionEntries portfolio events known =
     int (length (remdups (map EntryID
       (filter (\<lambda>e. PortfolioID e = portfolio \<and> Type e = EntryCorporateAction \<and> Action e \<noteq> None
                 \<and> actionStage e \<noteq> 2 \<and> knowable known e) events))))"

definition with_counts :: "string \<Rightarrow> LedgerEvent list \<Rightarrow> instant \<Rightarrow> Book \<Rightarrow> Book" where
  "with_counts portfolioID events known b =
     (let position = countJournalEntries portfolioID events known
      in b\<lparr>journalPosition := position,
           commitPrefix := hasJournalReadPosition portfolioID events position,
           actionCount := countActionEntries portfolioID events known\<rparr>)"

definition Replay :: "ledger_lib \<Rightarrow> string \<Rightarrow> LedgerEvent list \<Rightarrow> Book" where
  "Replay lib portfolioID events =
     (let b = foldl (Apply lib) (NewBook portfolioID) (sortedFor events 0 0 False);
          b = (if maxEffective b = 0
               then b\<lparr>maxEffective :=
                 foldl (\<lambda>m e. if PortfolioID e = portfolioID \<and> Knowledge e > m then Knowledge e else m)
                   (maxEffective b) events\<rparr>
               else b)
      in with_counts portfolioID events 0 b)"

definition ReplayAsOf :: "ledger_lib \<Rightarrow> string \<Rightarrow> LedgerEvent list \<Rightarrow> instant \<Rightarrow> instant \<Rightarrow> Book" where
  "ReplayAsOf lib portfolioID events effectiveAsOf knowledgeAsOf =
     (let b = applyUntil lib (NewBook portfolioID) events effectiveAsOf knowledgeAsOf;
          b = (if maxEffective b = 0 then b\<lparr>maxEffective := effectiveAsOf\<rparr> else b)
      in with_counts portfolioID events knowledgeAsOf b)"

section \<open>Admission of corporate actions and cash entries\<close>

datatype action_error =
  Missing_action | Invalid_identity | Invalid_shape | Microsecond_precision | Cancellation_asserts_payment
  | Unexpected_split_consideration | Unexpected_income_conversion | Ratio_required | Merger_target_required
  | Income_terms_required | Payment_only_income | Invalid_cash_consideration | Invalid_payment_evidence
  | ErrActionConflict

text \<open>\<open>time.Truncate(time.Microsecond)\<close> and \<open>time.Year\<close> of an instant in UTC.\<close>

definition truncate_us :: "instant \<Rightarrow> instant" where
  "truncate_us t = t - t mod 1000"

definition year_of :: "instant \<Rightarrow> int" where
  "year_of t = fst (year_day (t div (86400 * 1000000000)))"

definition storable_time :: "instant \<Rightarrow> bool" where
  "storable_time t \<longleftrightarrow> t = 0 \<or> \<not> (year_of t < 1 \<or> year_of t > 9999 \<or> t \<noteq> truncate_us t)"

definition ValidateActionEntry :: "ledger_lib \<Rightarrow> LedgerEvent \<Rightarrow> action_error option" where
  "ValidateActionEntry lib e =
     (case Action e of
        None \<Rightarrow> Some Missing_action
      | Some a \<Rightarrow>
        if Type e \<noteq> EntryCorporateAction then Some Missing_action
        else if ActionID a = '''' \<or> Revision a = 0 \<or> PortfolioID e = '''' \<or> InstrumentID e = '''' \<or> Effective e = 0
             \<or> Knowledge e = 0 \<or> actionStage e \<noteq> 0
             \<or> EntryID e \<noteq> ActionEntryID lib (PortfolioID e) (ActionID a) (Revision a) then Some Invalid_identity
        else if CorpActKind_int (Kind a) < 1 \<or> CorpActKind_int (Kind a) > 4 \<or> Quantity e \<noteq> None \<or> Price e \<noteq> None
             \<or> Cash e \<noteq> None \<or> VenueAccountID e \<noteq> '''' \<or> SettlementBasis e \<noteq> SettlementUnknown
             \<or> SettlementDate e \<noteq> 0 \<or> CashCurrency e \<noteq> '''' \<or> ExecutionEvidence e \<noteq> '''' then Some Invalid_shape
        else if \<not> list_all storable_time [Effective e, Knowledge e, PayDate a, PaidAt a] then Some Microsecond_precision
        else if Cancelled a then
          (if PaidAt a \<noteq> 0 \<or> PaymentRef a \<noteq> '''' then Some Cancellation_asserts_payment else None)
        else if Kind a = CorpActSplit \<and> (PerUnit a \<noteq> None \<or> Target a \<noteq> '''' \<or> Currency a \<noteq> '''')
          then Some Unexpected_split_consideration
        else if is_income (Kind a) \<and> (Ratio a \<noteq> None \<or> Target a \<noteq> '''') then Some Unexpected_income_conversion
        else if (Kind a = CorpActSplit \<or> Kind a = CorpActMerger) \<and> (case Ratio a of None \<Rightarrow> True | Some r \<Rightarrow> r \<le> 0)
          then Some Ratio_required
        else if Kind a = CorpActMerger \<and> (Target a = '''' \<or> Target a = InstrumentID e) then Some Merger_target_required
        else if is_income (Kind a)
             \<and> ((case PerUnit a of None \<Rightarrow> True | Some r \<Rightarrow> r < 0) \<or> Currency a = '''' \<or> PayDate a = 0
                \<or> PayDate a < Effective e) then Some Income_terms_required
        else if \<not> is_income (Kind a) \<and> (PayDate a \<noteq> 0 \<or> PaidAt a \<noteq> 0 \<or> PaymentRef a \<noteq> '''')
          then Some Payment_only_income
        else if (case PerUnit a of None \<Rightarrow> False | Some r \<Rightarrow> r < 0 \<or> Currency a = '''')
          then Some Invalid_cash_consideration
        else if (PaidAt a = 0) \<noteq> (PaymentRef a = '''')
             \<or> (PaidAt a \<noteq> 0 \<and> (PaidAt a < PayDate a \<or> PaidAt a > Knowledge e)) then Some Invalid_payment_evidence
        else None)"

definition sameActionEntry :: "ledger_lib \<Rightarrow> LedgerEvent \<Rightarrow> LedgerEvent \<Rightarrow> bool" where
  "sameActionEntry lib a b =
     (case (Action a, Action b) of
        (Some x, Some y) \<Rightarrow>
          (case (encodeAction lib x, encodeAction lib y) of
             (Some xb, Some yb) \<Rightarrow>
               EntryID a = EntryID b \<and> PortfolioID a = PortfolioID b \<and> InstrumentID a = InstrumentID b
               \<and> Effective a = Effective b \<and> Knowledge a = Knowledge b \<and> SourceRef a = SourceRef b \<and> xb = yb
           | _ \<Rightarrow> False)
      | _ \<Rightarrow> False)"

text \<open>
  \<open>Inr True\<close>: the entry is a redelivery of the head; \<open>Inr False\<close>: it is the next revision. The entry
  and the head carry an action (the callers select heads by their action id); a nil action of the head
  would be a nil dereference, which the model refuses.
\<close>

definition checkActionRevision :: "ledger_lib \<Rightarrow> LedgerEvent \<Rightarrow> LedgerEvent option \<Rightarrow> action_error + bool" where
  "checkActionRevision lib e head =
     (case ValidateActionEntry lib e of
        Some err \<Rightarrow> Inl err
      | None \<Rightarrow>
        (case Action e of
           None \<Rightarrow> Inl Missing_action
         | Some a \<Rightarrow>
           (case head of
              None \<Rightarrow> if Revision a \<noteq> 1 then Inl ErrActionConflict else Inr False
            | Some h \<Rightarrow>
              (case Action h of
                 None \<Rightarrow> Inl ErrActionConflict
               | Some ha \<Rightarrow>
                   if Revision a = Revision ha \<and> sameActionEntry lib e h then Inr True
                   else if Revision a \<noteq> Revision ha + 1 \<or> \<not> Knowledge e > Knowledge h then Inl ErrActionConflict
                   else Inr False))))"

definition isCashMovement :: "LedgerEvent \<Rightarrow> bool" where
  "isCashMovement e \<longleftrightarrow> HasPrefix (EntryID e) ''cash:''"

definition validCashEntry :: "LedgerEvent \<Rightarrow> bool" where
  "validCashEntry e \<longleftrightarrow>
     (Type e = EntryCash \<or> Type e = EntryFee) \<and> Cash e \<noteq> None \<and> InstrumentID e = '''' \<and> Quantity e = None
     \<and> Price e = None \<and> Action e = None"

definition sameCash :: "LedgerEvent \<Rightarrow> LedgerEvent \<Rightarrow> bool" where
  "sameCash a b \<longleftrightarrow>
     PortfolioID a = PortfolioID b \<and> VenueAccountID a = VenueAccountID b \<and> Type a = Type b
     \<and> CashCurrency a = CashCurrency b \<and> SourceRef a = SourceRef b
     \<and> truncate_us (Effective a) = truncate_us (Effective b)
     \<and> SettlementBasis a = SettlementBasis b \<and> SettlementDate a = SettlementDate b
     \<and> Cash a \<noteq> None \<and> Cash b \<noteq> None \<and> Cash a = Cash b"

section \<open>Specification vocabulary\<close>

text \<open>
  \<open>view\<close> is everything a reader of a book sees of its balances; \<open>due\<close> is the effective-time bound of a
  replay (the zero time is no bound), \<open>mine\<close> its portfolio filter, and \<open>next_step\<close> how one entry moves
  the time at which the next effect is due.
\<close>

definition view :: "Book \<Rightarrow> string \<times> (string \<rightharpoonup> lot) \<times> (string \<rightharpoonup> rat) \<times> (string \<rightharpoonup> rat) \<times> (string \<rightharpoonup> lot)
    \<times> (string \<rightharpoonup> rat) \<times> bool \<times> int \<times> int" where
  "view b = (bPortfolioID b, Positions b, bCash b, Accrued b, SettledPositions b, SettledCash b,
     settlementStated b, unknownSettlement b, pendingSettlement b)"

definition due :: "instant \<Rightarrow> LedgerEvent \<Rightarrow> bool" where
  "due asOf e \<longleftrightarrow> asOf = 0 \<or> \<not> Effective e > asOf"

definition mine :: "string \<Rightarrow> LedgerEvent \<Rightarrow> bool" where
  "mine portfolio e \<longleftrightarrow> PortfolioID e = '''' \<or> PortfolioID e = portfolio"

definition next_step :: "string \<Rightarrow> instant \<Rightarrow> instant \<Rightarrow> LedgerEvent \<Rightarrow> instant" where
  "next_step portfolio asOf n e =
     (if mine portfolio e \<and> \<not> due asOf e \<and> (n = 0 \<or> Effective e < n) then Effective e else n)"

section \<open>Stable sorting\<close>


lemma sort_key_append:
  assumes "\<forall>x \<in> set xs. \<forall>y \<in> set ys. f x < f y"
  shows "sort_key f (xs @ ys) = sort_key f xs @ sort_key f ys"
proof (rule properties_for_sort_key)
  show "mset (sort_key f xs @ sort_key f ys) = mset (xs @ ys)" by simp
  show "filter (\<lambda>x. f k = f x) (sort_key f xs @ sort_key f ys) = filter (\<lambda>x. f k = f x) (xs @ ys)" for k
    using sort_key_stable [of f "f k" xs] sort_key_stable [of f "f k" ys] by (simp add: eq_commute)
  show "sorted (map f (sort_key f xs @ sort_key f ys))"
    using assms by (auto simp: sorted_append less_imp_le)
qed

lemma sort_key_perm:
  assumes "mset xs = mset ys" and "inj_on f (set xs)"
  shows "sort_key f xs = sort_key f ys"
proof (rule properties_for_sort_key)
  show "mset (sort_key f ys) = mset xs" using assms by simp
  show "filter (\<lambda>x. f k = f x) (sort_key f ys) = filter (\<lambda>x. f k = f x) xs" if k: "k \<in> set (sort_key f ys)" for k
  proof -
    have sets: "set xs = set ys" using assms(1) by (rule mset_eq_setD)
    have only: "filter (\<lambda>x. f k = f x) zs = replicate (count (mset zs) k) k" if "set zs = set xs" for zs
    proof -
      have "filter (\<lambda>x. f k = f x) zs = filter ((=) k) zs"
        using that assms(2) k sets by (intro filter_cong) (auto simp: inj_on_def)
      also have "\<dots> = replicate (length (filter ((=) k) zs)) k" by (rule replicate_length_filter [symmetric])
      finally show ?thesis by (simp add: count_mset count_list_eq_length_filter)
    qed
    show ?thesis using only [of "sort_key f ys"] only [of xs] sets assms(1) by simp
  qed
qed simp

section \<open>What the fold of an entry leaves alone\<close>

lemma fold_bases_frame [simp]:
  "seen (fold_bases e f b) = seen b" "bPortfolioID (fold_bases e f b) = bPortfolioID b"
  "maxEffective (fold_bases e f b) = maxEffective b" "nextEffective (fold_bases e f b) = nextEffective b"
  "settlementStated (fold_bases e f b) = settlementStated b"
  "unknownSettlement (fold_bases e f b) = unknownSettlement b" "pendingSettlement (fold_bases e f b) = pendingSettlement b"
  by (simp_all add: fold_bases_def put_traded_def put_settled_def Let_def)

lemma count_basis_frame [simp]:
  "seen (count_basis e b) = seen b" "bPortfolioID (count_basis e b) = bPortfolioID b"
  "maxEffective (count_basis e b) = maxEffective b" "nextEffective (count_basis e b) = nextEffective b"
  "settlementStated (count_basis e b) = settlementStated b"
  by (simp_all add: count_basis_def split: SettlementBasis.split)

lemma legs_frame [simp]:
  "seen (cash_leg e b) = seen b" "bPortfolioID (cash_leg e b) = bPortfolioID b"
  "maxEffective (cash_leg e b) = maxEffective b" "nextEffective (cash_leg e b) = nextEffective b"
  "settlementStated (cash_leg e b) = settlementStated b"
  "seen (position_leg e b) = seen b" "bPortfolioID (position_leg e b) = bPortfolioID b"
  "maxEffective (position_leg e b) = maxEffective b" "nextEffective (position_leg e b) = nextEffective b"
  "settlementStated (position_leg e b) = settlementStated b"
  by (simp_all add: cash_leg_def position_leg_def Let_def split: option.split)

lemma foldIncome_frame [simp]:
  "seen (foldIncome lib e a b) = seen b" "bPortfolioID (foldIncome lib e a b) = bPortfolioID b"
  "maxEffective (foldIncome lib e a b) = maxEffective b" "nextEffective (foldIncome lib e a b) = nextEffective b"
  "settlementStated (foldIncome lib e a b) = settlementStated b"
  by (simp_all add: foldIncome_def Let_def split: option.split prod.split)

lemma fold_entry_frame [simp]:
  "seen (fold_entry lib e b) = seen b" "bPortfolioID (fold_entry lib e b) = bPortfolioID b"
  "maxEffective (fold_entry lib e b) = maxEffective b" "nextEffective (fold_entry lib e b) = nextEffective b"
  "settlementStated (fold_entry lib e b) = settlementStated b"
  by (simp_all add: fold_entry_def split: prod.split EntryType.split option.split)

lemma mark_folded_frame [simp]:
  "bPortfolioID (mark_folded e b) = bPortfolioID b" "nextEffective (mark_folded e b) = nextEffective b"
  "settlementStated (mark_folded e b) = settlementStated b" "seen (mark_folded e b) = insert (EntryID e) (seen b)"
  "maxEffective (mark_folded e b) = max (Effective e) (maxEffective b)" "view (mark_folded e b) = view b"
  by (auto simp: mark_folded_def view_def)

lemma Apply_frame [simp]:
  "bPortfolioID (Apply lib b e) = bPortfolioID b" "nextEffective (Apply lib b e) = nextEffective b"
  "settlementStated (Apply lib b e) = settlementStated b"
  "seen (Apply lib b e) = (if ignored b e then seen b else insert (EntryID e) (seen b))"
  by (auto simp: Apply_def)

lemma ignored_cong: "bPortfolioID b = bPortfolioID c \<Longrightarrow> ignored b e = ignored c e"
  by (simp add: ignored_def)

lemma ignored_Apply [simp]: "ignored (Apply lib b e') e = ignored b e"
  by (rule ignored_cong) simp

lemma Apply_ignored [simp]: "ignored b e \<Longrightarrow> Apply lib b e = b"
  by (simp add: Apply_def)

lemma Apply_seen [simp]: "EntryID e \<in> seen b \<Longrightarrow> Apply lib b e = b"
  by (simp add: Apply_def)

lemma ignored_foldl [simp]: "ignored (foldl (Apply lib) b xs) e = ignored b e"
  by (induction xs arbitrary: b) auto

lemma seen_foldl: "seen (foldl (Apply lib) b xs) = seen b \<union> EntryID ` {e \<in> set xs. \<not> ignored b e}"
  by (induction xs arbitrary: b) auto

lemma foldl_Apply_active: "foldl (Apply lib) b xs = foldl (Apply lib) b (filter (\<lambda>e. \<not> ignored b e) xs)"
  by (induction xs arbitrary: b) auto

text \<open>The time at which the next effect is due does not influence the fold.\<close>

lemma fold_bases_next: "fold_bases e f (b\<lparr>nextEffective := n\<rparr>) = (fold_bases e f b)\<lparr>nextEffective := n\<rparr>"
  by (simp add: fold_bases_def put_traded_def put_settled_def traded_def settled_def Let_def)

lemma fold_entry_next: "fold_entry lib e (b\<lparr>nextEffective := n\<rparr>) = (fold_entry lib e b)\<lparr>nextEffective := n\<rparr>"
proof -
  have 1: "count_basis e (b\<lparr>nextEffective := n\<rparr>) = (count_basis e b)\<lparr>nextEffective := n\<rparr>" for b
    by (simp add: count_basis_def split: SettlementBasis.split)
  have 2: "position_leg e (b\<lparr>nextEffective := n\<rparr>) = (position_leg e b)\<lparr>nextEffective := n\<rparr>" for b
    by (simp add: position_leg_def fold_bases_next split: option.split)
  have 3: "cash_leg e (b\<lparr>nextEffective := n\<rparr>) = (cash_leg e b)\<lparr>nextEffective := n\<rparr>" for b
    by (simp add: cash_leg_def Let_def split: option.split)
  have 4: "foldIncome lib e a (b\<lparr>nextEffective := n\<rparr>) = (foldIncome lib e a b)\<lparr>nextEffective := n\<rparr>" for a
    by (simp add: foldIncome_def Let_def split: option.split)
  show ?thesis by (simp add: fold_entry_def 1 2 3 4 fold_bases_next split: EntryType.split option.split)
qed

lemma Apply_next: "Apply lib (b\<lparr>nextEffective := n\<rparr>) e = (Apply lib b e)\<lparr>nextEffective := n\<rparr>"
proof -
  have "ignored (b\<lparr>nextEffective := n\<rparr>) e = ignored b e" by (rule ignored_cong) simp
  moreover have "mark_folded e (b\<lparr>nextEffective := n\<rparr>) = (mark_folded e b)\<lparr>nextEffective := n\<rparr>"
    by (cases b) (simp add: mark_folded_def)
  ultimately show ?thesis by (simp add: Apply_def fold_entry_next)
qed

section \<open>Replay is the fold of the due entries\<close>

lemma until_fold:
  "foldl (until_step lib asOf) b xs =
     (foldl (Apply lib) b (filter (due asOf) xs))
       \<lparr>nextEffective := foldl (next_step (bPortfolioID b) asOf) (nextEffective b) xs\<rparr>"
proof (induction xs arbitrary: b)
  case (Cons e xs)
  let ?n = "next_step (bPortfolioID b) asOf (nextEffective b) e"
  have fold_next: "foldl (Apply lib) (b\<lparr>nextEffective := n\<rparr>) ys = (foldl (Apply lib) b ys)\<lparr>nextEffective := n\<rparr>"
    for n b ys by (induction ys arbitrary: b) (auto simp: Apply_next)
  have step: "until_step lib asOf b e = (if due asOf e then Apply lib b e else b)\<lparr>nextEffective := ?n\<rparr>"
  proof (cases "mine (bPortfolioID b) e")
    case True
    then show ?thesis by (auto simp: until_step_def mine_def due_def next_step_def)
  next
    case False
    then have "Apply lib b e = b" by (simp add: ignored_def mine_def)
    then show ?thesis using False by (auto simp: until_step_def mine_def next_step_def)
  qed
  show ?case by (simp add: step Cons.IH fold_next split: if_split)
qed simp

lemma nextEffective_foldl [simp]: "nextEffective (foldl (Apply lib) b xs) = nextEffective b"
  by (induction xs arbitrary: b) auto

section \<open>Ordinary entries\<close>

text \<open>The part of a book that a fold of ordinary entries reads and writes.\<close>

lemma view_cash_leg: "view b = view c \<Longrightarrow> view (cash_leg e b) = view (cash_leg e c)"
  by (auto simp: view_def cash_leg_def Let_def split: option.split)

lemma view_fold_bases: "view b = view c \<Longrightarrow> view (fold_bases e f b) = view (fold_bases e f c)"
  by (simp add: view_def fold_bases_def put_traded_def put_settled_def traded_def settled_def Let_def)

lemma view_position_leg: "view b = view c \<Longrightarrow> view (position_leg e b) = view (position_leg e c)"
  by (cases "Quantity e") (auto simp: position_leg_def intro: view_fold_bases)

lemma view_count_basis: "view b = view c \<Longrightarrow> view (count_basis e b) = view (count_basis e c)"
  by (auto simp: view_def count_basis_def split: SettlementBasis.split)

lemma view_Apply:
  assumes "view b = view c" and "EntryID e \<in> seen b \<longleftrightarrow> EntryID e \<in> seen c" and "Type e \<noteq> EntryCorporateAction"
  shows "view (Apply lib b e) = view (Apply lib c e)"
proof -
  have ign: "ignored b e = ignored c e" using assms(1) by (intro ignored_cong) (simp add: view_def)
  have fold: "view (fold_entry lib e b') = view (fold_entry lib e c')" if "view b' = view c'" for b' c'
  proof -
    have "view (cash_leg e (position_leg e (count_basis e b'))) = view (cash_leg e (position_leg e (count_basis e c')))"
      using that by (intro view_cash_leg view_position_leg view_count_basis)
    then show ?thesis using assms(3) by (cases "Type e") (simp_all add: fold_entry_def)
  qed
  have "view (mark_folded e b) = view (mark_folded e c)" using assms(1) by simp
  from fold [OF this] show ?thesis using ign assms(1,2) by (simp add: Apply_def)
qed

lemma view_foldl_Apply:
  assumes "view b = view c" and "\<forall>e \<in> set xs. EntryID e \<in> seen b \<longleftrightarrow> EntryID e \<in> seen c"
    and "\<forall>e \<in> set xs. Type e \<noteq> EntryCorporateAction"
  shows "view (foldl (Apply lib) b xs) = view (foldl (Apply lib) c xs)"
  using assms
proof (induction xs arbitrary: b c)
  case (Cons e xs)
  have "ignored b e = ignored c e" using Cons.prems(1) by (intro ignored_cong) (simp add: view_def)
  then show ?case using Cons.prems by (auto intro!: Cons.IH view_Apply)
qed simp

text \<open>Entries without an action pass the resolution of revisions unchanged.\<close>

lemma actionEvents_append:
  assumes "\<forall>e \<in> set ys. Action e = None"
  shows "actionEvents (xs @ ys) k = actionEvents xs k @ filter (knowable k) ys"
proof -
  have "foldl record_head h ys' = h" if "\<forall>e \<in> set ys'. Action e = None" for h ys'
    using that by (induction ys') (auto simp: record_head_def)
  then have "action_heads (xs @ ys) k = action_heads xs k" using assms by (simp add: action_heads_def)
  moreover have "concat (map (stage_entry h) ys') = ys'" if "\<forall>e \<in> set ys'. Action e = None" for h ys'
    using that by (induction ys') (auto simp: stage_entry_def)
  ultimately show ?thesis using assms by (simp add: actionEvents_def)
qed

lemma actionEvents_ids:
  "EntryID ` set (actionEvents xs k) \<subseteq> EntryID ` set xs \<union> (\<lambda>e. EntryID e @ '':payment'') ` set xs"
proof -
  have "EntryID ` set (stage_entry h e) \<subseteq> {EntryID e, EntryID e @ '':payment''}" for h e
    by (auto simp: stage_entry_def split: option.split)
  then have "EntryID x \<in> EntryID ` set xs \<union> (\<lambda>e. EntryID e @ '':payment'') ` set xs"
    if "e \<in> set xs" "x \<in> set (stage_entry h e)" for h e x
    using that by (blast dest: imageI [where f = EntryID])
  then show ?thesis by (auto simp: actionEvents_def)
qed

lemma knowable_zero [simp]: "knowable 0 e"
  by (simp add: knowable_def)

lemma sortedFor_unbounded: "sortedFor xs 0 0 filtering = sort_key fold_key (actionEvents xs 0)"
  by (simp add: sortedFor_def)

lemma maxEffective_Apply:
  "maxEffective (Apply lib b e) =
     (if ignored b e \<or> EntryID e \<in> seen b then maxEffective b else max (Effective e) (maxEffective b))"
  by (simp add: Apply_def)

lemma maxEffective_foldl_ge: "maxEffective b \<le> maxEffective (foldl (Apply lib) b xs)"
proof (induction xs arbitrary: b)
  case (Cons e xs)
  show ?case using Cons [of "Apply lib b e"] by (auto simp: maxEffective_Apply split: if_splits)
qed simp

lemma maxEffective_foldl:
  assumes "distinct (map EntryID xs)" and "seen b \<inter> EntryID ` set xs = {}"
    and "e \<in> set xs" and "\<not> ignored b e"
  shows "Effective e \<le> maxEffective (foldl (Apply lib) b xs)"
  using assms
proof (induction xs arbitrary: b)
  case (Cons x xs)
  show ?case
  proof (cases "e = x")
    case True
    then have "Effective e \<le> maxEffective (Apply lib b x)" using Cons.prems by (auto simp: maxEffective_Apply)
    then show ?thesis using maxEffective_foldl_ge [of "Apply lib b x" lib xs] by simp
  next
    case False
    then have "e \<in> set xs" using Cons.prems by simp
    moreover have "seen (Apply lib b x) \<inter> EntryID ` set xs = {}" using Cons.prems by auto
    ultimately show ?thesis using Cons by simp
  qed
qed simp

lemma next_step_bound:
  assumes "0 \<le> asOf" and "e \<in> set xs" and "mine p e" and "\<not> due asOf e" and "n = 0 \<or> asOf < n"
  shows "foldl (next_step p asOf) n xs \<noteq> 0 \<and> foldl (next_step p asOf) n xs \<le> Effective e"
proof -
  have pos: "0 < Effective x" "asOf < Effective x" if "\<not> due asOf x" for x using that assms(1) by (auto simp: due_def)
  have keep: "foldl (next_step p asOf) n xs \<noteq> 0 \<and> foldl (next_step p asOf) n xs \<le> n" if "0 < n" for n xs
    using that
  proof (induction xs arbitrary: n)
    case (Cons x xs)
    then have "0 < next_step p asOf n x" "next_step p asOf n x \<le> n" using pos [of x] by (auto simp: next_step_def)
    then show ?case using Cons.IH [of "next_step p asOf n x"] by auto
  qed simp
  show ?thesis using assms(2,5)
  proof (induction xs arbitrary: n)
    case (Cons x xs)
    have n': "next_step p asOf n x = 0 \<or> asOf < next_step p asOf n x" using Cons.prems pos [of x] by (auto simp: next_step_def)
    show ?case
    proof (cases "e = x")
      case True
      then have "0 < next_step p asOf n x" "next_step p asOf n x \<le> Effective e"
        using Cons.prems assms pos [of x] by (auto simp: next_step_def)
      then show ?thesis using keep [of "next_step p asOf n x" xs] by auto
    next
      case False
      then show ?thesis using Cons.IH [OF _ n'] Cons.prems by simp
    qed
  qed simp
qed

section \<open>Replay\<close>

lemma view_portfolio: "view b = view c \<Longrightarrow> bPortfolioID b = bPortfolioID c"
  by (simp add: view_def)

lemma portfolio_foldl: "bPortfolioID (foldl (Apply lib) b xs) = bPortfolioID b"
  by (induction xs arbitrary: b) auto

lemma view_with_counts [simp]: "view (with_counts p es k b) = view b"
  by (simp add: view_def with_counts_def Let_def)

lemma view_updates [simp]:
  "view (b\<lparr>nextEffective := n\<rparr>) = view b" "view (b\<lparr>maxEffective := m\<rparr>) = view b"
  by (simp_all add: view_def)

lemma NewBook_fields [simp]:
  "seen (NewBook p) = {}" "bPortfolioID (NewBook p) = p" "nextEffective (NewBook p) = 0" "maxEffective (NewBook p) = 0"
  by (simp_all add: NewBook_def)

lemma view_applyUntil:
  "view (applyUntil lib b es asOf 0)
   = view (foldl (Apply lib) b (sort_key fold_key (filter (\<lambda>e. due asOf e \<and> \<not> ignored b e) (actionEvents es 0))))"
proof -
  have "filter (\<lambda>e. \<not> ignored b e) (filter (due asOf) (sort_key fold_key (actionEvents es 0)))
    = sort_key fold_key (filter (\<lambda>e. due asOf e \<and> \<not> ignored b e) (actionEvents es 0))"
    by (simp add: filter_sort conj_commute)
  then show ?thesis
    by (simp add: applyUntil_def sortedFor_unbounded until_fold)
       (subst foldl_Apply_active, simp)
qed

lemma view_ReplayAsOf:
  "view (ReplayAsOf lib p es asOf 0) = view (applyUntil lib (NewBook p) es asOf 0)"
  by (simp add: ReplayAsOf_def Let_def)

lemma ReplayAsOf_fence:
  assumes "distinct (map EntryID (actionEvents es 0))" and "e \<in> set (actionEvents es 0)"
    and "due asOf e" and "\<not> ignored (NewBook p) e" and "maxEffective (ReplayAsOf lib p es asOf 0) \<noteq> 0"
  shows "Effective e \<le> maxEffective (ReplayAsOf lib p es asOf 0)"
proof -
  let ?xs = "filter (due asOf) (sort_key fold_key (actionEvents es 0))"
  let ?m = "maxEffective (foldl (Apply lib) (NewBook p) ?xs)"
  have "distinct (map EntryID (sort_key fold_key (actionEvents es 0)))"
    using assms(1) by (simp add: distinct_map)
  then have "distinct (map EntryID ?xs)" by (rule distinct_map_filter)
  then have "Effective e \<le> ?m" using assms(2-4) by (intro maxEffective_foldl) auto
  moreover have "maxEffective (ReplayAsOf lib p es asOf 0) = (if ?m = 0 then asOf else ?m)"
    by (simp add: ReplayAsOf_def Let_def with_counts_def applyUntil_def sortedFor_unbounded until_fold)
  ultimately show ?thesis using assms(3,5) by (auto simp: due_def split: if_splits)
qed

lemma ReplayAsOf_next:
  assumes "e \<in> set (actionEvents es 0)" and "\<not> due asOf e" and "mine p e" and "0 \<le> asOf"
  shows "nextEffective (ReplayAsOf lib p es asOf 0) \<noteq> 0 \<and> nextEffective (ReplayAsOf lib p es asOf 0) \<le> Effective e"
proof -
  have "nextEffective (ReplayAsOf lib p es asOf 0) = foldl (next_step p asOf) 0 (sort_key fold_key (actionEvents es 0))"
    by (simp add: ReplayAsOf_def Let_def with_counts_def applyUntil_def sortedFor_unbounded until_fold)
  then show ?thesis using next_step_bound [of asOf e "sort_key fold_key (actionEvents es 0)" p 0] assms by simp
qed

text \<open>
  Resuming from a checkpoint of a prefix is the replay of the whole journal, under exactly the
  conditions \<open>materializeCurrentAt\<close> tests.
\<close>

lemma resume_is_replay:
  fixes P T :: "LedgerEvent list" and lib p taken
  defines "s \<equiv> ReplayAsOf lib p P taken 0"
  assumes "0 \<le> taken" and "0 < now"
    and "maxEffective s \<noteq> 0" and "maxEffective s \<le> now" and "nextEffective s = 0 \<or> now < nextEffective s"
    and ids: "distinct (map EntryID (actionEvents P 0))" "EntryID ` set T \<inter> EntryID ` set (actionEvents P 0) = {}"
    and tail: "\<forall>e \<in> set T. Type e \<noteq> EntryCorporateAction \<and> Action e = None \<and> maxEffective s < Effective e"
    and b: "view b = view s" "seen b = {}"
  shows "view (applyUntil lib b T now 0) = view (ReplayAsOf lib p (P @ T) now 0)"
proof -
  let ?A = "actionEvents P 0" and ?N = "NewBook p"
  let ?a = "filter (\<lambda>e. due now e \<and> \<not> ignored ?N e) ?A" and ?t = "filter (\<lambda>e. due now e \<and> \<not> ignored ?N e) T"
  have same_due: "due taken e \<longleftrightarrow> due now e" if e: "e \<in> set ?A" "\<not> ignored ?N e" for e
  proof
    assume d: "due taken e"
    have "Effective e \<le> maxEffective s" using ReplayAsOf_fence [OF ids(1) e(1) d e(2)] assms(4) by (simp add: s_def)
    then show "due now e" using assms(5) by (simp add: due_def)
  next
    assume d: "due now e"
    show "due taken e"
    proof (rule ccontr)
      assume "\<not> due taken e"
      moreover have "mine p e" using e(2) by (auto simp: ignored_def mine_def)
      ultimately have "nextEffective s \<noteq> 0 \<and> nextEffective s \<le> Effective e"
        using ReplayAsOf_next [OF e(1)] assms(2) by (simp add: s_def)
      then show False using d assms(3,6) by (simp add: due_def)
    qed
  qed
  have AT: "actionEvents (P @ T) 0 = ?A @ T" using actionEvents_append [of T P 0] tail by simp
  have T0: "actionEvents T 0 = T" using actionEvents_append [of T "[]" 0] tail by (simp add: actionEvents_def)
  have "fold_key x < fold_key y" if "x \<in> set ?a" "y \<in> set ?t" for x y
  proof -
    have "Effective x \<le> maxEffective s"
      using that same_due [of x] ReplayAsOf_fence [OF ids(1), of x taken p lib] assms(4) by (auto simp: s_def)
    then have "Effective x < Effective y" using that tail by fastforce
    then show ?thesis by (simp add: fold_key_def less_prod_def)
  qed
  then have split: "sort_key fold_key (?a @ ?t) = sort_key fold_key ?a @ sort_key fold_key ?t"
    by (intro sort_key_append) blast
  let ?c = "foldl (Apply lib) ?N (sort_key fold_key ?a)"
  have full: "view (ReplayAsOf lib p (P @ T) now 0) = view (foldl (Apply lib) ?c (sort_key fold_key ?t))"
    by (simp add: view_ReplayAsOf view_applyUntil AT split)
  have port: "bPortfolioID b = p"
    using view_portfolio [OF b(1)] view_portfolio [OF view_ReplayAsOf, of lib p P taken]
    by (simp add: s_def applyUntil_def until_fold portfolio_foldl)
  have ign: "ignored b = ignored ?N" by (rule ext, rule ignored_cong) (simp add: port)
  have "filter (\<lambda>e. due taken e \<and> \<not> ignored ?N e) ?A = ?a" by (rule filter_cong) (auto simp: same_due)
  then have "view b = view ?c" using b(1) by (simp add: s_def view_ReplayAsOf view_applyUntil)
  moreover have "EntryID ` set ?t \<inter> seen ?c = {}" using ids(2) by (auto simp: seen_foldl)
  ultimately have "view (foldl (Apply lib) b (sort_key fold_key ?t)) = view (foldl (Apply lib) ?c (sort_key fold_key ?t))"
    using tail b(2) by (intro view_foldl_Apply) auto
  then show ?thesis by (simp add: full view_applyUntil T0 ign)
qed

section \<open>The journal as a multiset\<close>

text \<open>Resolving revisions takes the maximum per action, whatever the order of the entries.\<close>

definition head_of :: "LedgerEvent \<Rightarrow> string \<times> string \<Rightarrow> 64 word" where
  "head_of e key =
     (case Action e of None \<Rightarrow> 0
      | Some a \<Rightarrow> if ActionID a \<noteq> '''' \<and> key = (PortfolioID e, ActionID a) then Revision a else 0)"

lemma record_head_max: "record_head h e = (\<lambda>key. max (h key) (head_of e key))"
  by (rule ext) (auto simp: record_head_def head_of_def max_def split: option.split)

lemma action_heads_perm:
  assumes "mset xs = mset ys"
  shows "action_heads xs k = action_heads ys k"
proof -
  have "mset (filter (knowable k) xs) = mset (filter (knowable k) ys)" using assms by simp
  then have "fold (\<lambda>e h. record_head h e) (filter (knowable k) xs) = fold (\<lambda>e h. record_head h e) (filter (knowable k) ys)"
    by (intro fold_multiset_equiv) (auto simp: record_head_max fun_eq_iff max.assoc max.commute max.left_commute)
  then show ?thesis by (simp add: action_heads_def foldl_conv_fold)
qed

lemma actionEvents_perm:
  assumes "mset xs = mset ys"
  shows "mset (actionEvents xs k) = mset (actionEvents ys k)"
proof -
  have "mset (concat (map f zs)) = (\<Sum>z \<in># mset zs. mset (f z))" for f :: "LedgerEvent \<Rightarrow> LedgerEvent list" and zs
    by (induction zs) auto
  then show ?thesis using assms by (simp add: actionEvents_def action_heads_perm [OF assms])
qed

lemma sortedFor_perm:
  assumes "mset xs = mset ys" and "distinct (map EntryID (actionEvents xs (if filtering then k else 0)))"
  shows "sortedFor xs e k filtering = sortedFor ys e k filtering"
proof -
  have "inj_on fold_key (set (actionEvents xs (if filtering then k else 0)))"
    using assms(2) by (auto simp: fold_key_def inj_on_def distinct_map)
  moreover have "mset (actionEvents xs (if filtering then k else 0)) = mset (actionEvents ys (if filtering then k else 0))"
    by (rule actionEvents_perm [OF assms(1)])
  ultimately show ?thesis unfolding sortedFor_def by (intro sort_key_perm) (auto simp: inj_on_def)
qed

lemma with_counts_perm:
  assumes "mset xs = mset ys"
  shows "with_counts p xs k b = with_counts p ys k b"
proof -
  have sets: "set xs = set ys" using assms by (rule mset_eq_setD)
  have "countJournalEntries p xs k = countJournalEntries p ys k" "countActionEntries p xs k = countActionEntries p ys k"
    by (simp_all add: countJournalEntries_def countActionEntries_def length_remdups_card_conv sets)
  then show ?thesis by (simp add: with_counts_def hasJournalReadPosition_def list_all_iff sets)
qed

text \<open>
  C30: the book is a function of the journal's entries and not of the order in which they were
  committed: any two journals with the same entries, whose staged entries have distinct ids, replay to
  the same book at every point of the two time axes.
\<close>

theorem replay_order_independent:
  assumes "mset xs = mset ys" and "distinct (map EntryID (actionEvents xs knowledgeAsOf))"
  shows "ReplayAsOf lib portfolio xs effectiveAsOf knowledgeAsOf = ReplayAsOf lib portfolio ys effectiveAsOf knowledgeAsOf"
proof -
  have "sortedFor xs 0 knowledgeAsOf True = sortedFor ys 0 knowledgeAsOf True"
    using assms by (intro sortedFor_perm) auto
  then show ?thesis by (simp add: ReplayAsOf_def applyUntil_def Let_def with_counts_perm [OF assms(1)])
qed

text \<open>
  C29: a read as of a knowledge time never sees what was learnt later: two journals that agree on the
  entries known by that time give the same book, whatever was appended to either of them since,
  restatements and corrections of corporate actions included. (Only the read receipt
  \<open>commitPrefix\<close>, which is not financial state, looks at the other entries.)
\<close>

theorem knowledge_time_read:
  assumes "filter (knowable knowledgeAsOf) xs = filter (knowable knowledgeAsOf) ys"
  shows "(ReplayAsOf lib portfolio xs effectiveAsOf knowledgeAsOf)\<lparr>commitPrefix := c\<rparr>
    = (ReplayAsOf lib portfolio ys effectiveAsOf knowledgeAsOf)\<lparr>commitPrefix := c\<rparr>"
proof -
  have "actionEvents xs knowledgeAsOf = actionEvents ys knowledgeAsOf"
    by (simp add: actionEvents_def action_heads_def assms)
  then have fold: "applyUntil lib b xs effectiveAsOf knowledgeAsOf = applyUntil lib b ys effectiveAsOf knowledgeAsOf" for b
    by (simp add: applyUntil_def sortedFor_def)
  have count: "filter (\<lambda>e. Q e \<and> knowable knowledgeAsOf e) xs = filter (\<lambda>e. Q e \<and> knowable knowledgeAsOf e) ys" for Q
    using arg_cong [OF assms, of "filter Q"] by (simp add: conj_commute)
  have "countJournalEntries portfolio xs knowledgeAsOf = countJournalEntries portfolio ys knowledgeAsOf"
    "countActionEntries portfolio xs knowledgeAsOf = countActionEntries portfolio ys knowledgeAsOf"
    using count [of "\<lambda>e. PortfolioID e = portfolio \<and> actionStage e \<noteq> 2"]
      count [of "\<lambda>e. PortfolioID e = portfolio \<and> Type e = EntryCorporateAction \<and> Action e \<noteq> None \<and> actionStage e \<noteq> 2"]
    by (simp_all add: countJournalEntries_def countActionEntries_def)
  then show ?thesis by (simp add: ReplayAsOf_def with_counts_def Let_def fold)
qed

section \<open>Balances are sums of legs\<close>

definition held :: "(string \<rightharpoonup> lot) \<Rightarrow> string \<Rightarrow> rat" where
  "held m instrument = (case m instrument of None \<Rightarrow> 0 | Some l \<Rightarrow> Qty l)"

definition cash_of :: "string \<Rightarrow> LedgerEvent \<Rightarrow> rat" where
  "cash_of ccy e = (if CashCurrency e = ccy \<and> Type e \<noteq> EntryAccrual then orZero (Cash e) else 0)"

definition accrual_of :: "string \<Rightarrow> LedgerEvent \<Rightarrow> rat" where
  "accrual_of ccy e = (if CashCurrency e = ccy \<and> Type e = EntryAccrual then orZero (Cash e) else 0)"

definition quantity_of :: "string \<Rightarrow> LedgerEvent \<Rightarrow> rat" where
  "quantity_of instrument e = (if InstrumentID e = instrument \<and> instrument \<noteq> '''' then orZero (Quantity e) else 0)"

lemma balance_add: "balance (add m k v) c = balance m c + (if c = k then v else 0)"
  by (simp add: balance_def add_def split: option.split)

lemma held_foldPosition: "held (positions (foldPosition i q p f)) j = held (positions f) j + (if j = i then q else 0)"
  by (simp add: held_def foldPosition_def Let_def Fold_Qty NewLot_def split: option.split)

lemma foldPosition_cash [simp]: "cash (foldPosition i q p f) = cash f"
  by (simp add: foldPosition_def Let_def)

lemma fold_bases_foldPosition:
  "held (Positions (fold_bases e (foldPosition i q p) b)) j = held (Positions b) j + (if j = i then q else 0)"
  "held (SettledPositions (fold_bases e (foldPosition i q p) b)) j
     = held (SettledPositions b) j + (if j = i \<and> settles e then q else 0)"
  "bCash (fold_bases e (foldPosition i q p) b) = bCash b" "SettledCash (fold_bases e (foldPosition i q p) b) = SettledCash b"
  "Accrued (fold_bases e (foldPosition i q p) b) = Accrued b"
  by (simp_all add: fold_bases_def put_traded_def put_settled_def traded_def settled_def Let_def held_foldPosition)

lemma position_leg_sums:
  "held (Positions (position_leg e b)) j = held (Positions b) j + quantity_of j e"
  "held (SettledPositions (position_leg e b)) j = held (SettledPositions b) j + (if settles e then quantity_of j e else 0)"
  "bCash (position_leg e b) = bCash b" "SettledCash (position_leg e b) = SettledCash b" "Accrued (position_leg e b) = Accrued b"
  by (auto simp: position_leg_def fold_bases_foldPosition quantity_of_def orZero_def split: option.split)

lemma cash_leg_sums:
  "balance (bCash (cash_leg e b)) c = balance (bCash b) c + cash_of c e"
  "balance (SettledCash (cash_leg e b)) c = balance (SettledCash b) c + (if settles e then cash_of c e else 0)"
  "balance (Accrued (cash_leg e b)) c = balance (Accrued b) c + accrual_of c e"
  "Positions (cash_leg e b) = Positions b" "SettledPositions (cash_leg e b) = SettledPositions b"
  by (auto simp: cash_leg_def Let_def balance_add cash_of_def accrual_of_def orZero_def split: option.split)

lemma count_basis_sums [simp]:
  "Positions (count_basis e b) = Positions b" "SettledPositions (count_basis e b) = SettledPositions b"
  "bCash (count_basis e b) = bCash b" "SettledCash (count_basis e b) = SettledCash b" "Accrued (count_basis e b) = Accrued b"
  by (simp_all add: count_basis_def split: SettlementBasis.split)

lemma mark_folded_sums [simp]:
  "Positions (mark_folded e b) = Positions b" "SettledPositions (mark_folded e b) = SettledPositions b"
  "bCash (mark_folded e b) = bCash b" "SettledCash (mark_folded e b) = SettledCash b" "Accrued (mark_folded e b) = Accrued b"
  "unknownSettlement (mark_folded e b) = unknownSettlement b" "pendingSettlement (mark_folded e b) = pendingSettlement b"
  by (simp_all add: mark_folded_def)

lemma fold_entry_ordinary:
  "Type e \<noteq> EntryCorporateAction \<Longrightarrow> fold_entry lib e b = cash_leg e (position_leg e (count_basis e b))"
  by (cases "Type e") (simp_all add: fold_entry_def)

text \<open>What one ordinary entry adds to a sum, and a journal of such entries as the list of what it adds.\<close>

lemma foldl_sum:
  fixes total :: "Book \<Rightarrow> rat"
  assumes step: "\<And>b e. e \<in> set es \<Longrightarrow> EntryID e \<notin> seen b \<Longrightarrow> \<not> ignored b e
      \<Longrightarrow> total (fold_entry lib e (mark_folded e b)) = total b + amount e"
    and "distinct (map EntryID es)" and "seen b \<inter> EntryID ` set es = {}" and "\<forall>e \<in> set es. \<not> ignored b e"
  shows "total (foldl (Apply lib) b es) = total b + sum_list (map amount es)"
  using assms
proof (induction es arbitrary: b)
  case (Cons e es)
  have "total (foldl (Apply lib) (Apply lib b e) es) = total (Apply lib b e) + sum_list (map amount es)"
    using Cons.prems by (intro Cons.IH) auto
  moreover have "total (Apply lib b e) = total b + amount e" using Cons.prems by (simp add: Apply_def)
  ultimately show ?case by simp
qed simp

definition sample_trade :: "string \<Rightarrow> rat \<Rightarrow> rat \<Rightarrow> instant \<Rightarrow> instant \<Rightarrow> LedgerEvent" where
  "sample_trade entry qty price effective knowledge =
     \<lparr>journalReadPosition = 0, actionStage = 0, ExecutionEvidence = '''', EntryID = entry, PortfolioID = ''fund'',
      VenueAccountID = ''acct'', Type = EntryTrade, InstrumentID = ''BTC'', Quantity = Some qty, Price = Some price,
      Cash = Some (- qty * price), CashCurrency = ''USD'', Action = None, Effective = effective,
      Knowledge = knowledge, SettlementBasis = SettlementSettled, SettlementDate = effective, SourceRef = entry\<rparr>"

text \<open>A concrete library for the witnesses: encodings that keep the identity readable.\<close>

definition lib0 :: ledger_lib where
  "lib0 = \<lparr>Sum256 = (\<lambda>s. s), MarshalIdentity = (\<lambda>p a r. p @ ''/'' @ a @ ''/'' @ dec_digits (unat r)), MarshalAction = (\<lambda>_. Some ''{}'')\<rparr>"

text \<open>Entries that are neither corporate actions nor carry an action.\<close>

definition ordinary :: "LedgerEvent \<Rightarrow> bool" where
  "ordinary e \<longleftrightarrow> Type e \<noteq> EntryCorporateAction \<and> Action e = None"

lemma actionEvents_ordinary: "\<forall>e \<in> set es. Action e = None \<Longrightarrow> actionEvents es k = filter (knowable k) es"
  using actionEvents_append [of es "[]" k] by (simp add: actionEvents_def)

lemma sortedFor_ordinary:
  assumes "\<forall>e \<in> set es. ordinary e"
  shows "sortedFor es 0 k True = sort_key fold_key (filter (knowable k) es)"
  using assms by (simp add: sortedFor_def actionEvents_ordinary ordinary_def)

lemma view_ReplayAsOf_fold:
  "view (ReplayAsOf lib p es asOf k) = view (foldl (Apply lib) (NewBook p) (filter (due asOf) (sortedFor es 0 k True)))"
  by (simp add: ReplayAsOf_def Let_def applyUntil_def until_fold)

lemma replay_sum:
  fixes total :: "Book \<Rightarrow> rat"
  assumes es: "\<forall>e \<in> set es. ordinary e \<and> EntryID e \<noteq> '''' \<and> mine p e" "distinct (map EntryID es)"
    and viewed: "\<And>b c. view b = view c \<Longrightarrow> total b = total c" and "total (NewBook p) = 0"
    and step: "\<And>b e. e \<in> set es \<Longrightarrow> total (cash_leg e (position_leg e (count_basis e (mark_folded e b)))) = total b + amount e"
  shows "total (ReplayAsOf lib p es asOf k) = sum_list (map amount (filter (\<lambda>e. knowable k e \<and> due asOf e) es))"
proof -
  let ?xs = "sort_key fold_key (filter (\<lambda>e. knowable k e \<and> due asOf e) es)"
  have xs: "filter (due asOf) (sortedFor es 0 k True) = ?xs"
    using es(1) by (simp add: sortedFor_ordinary filter_sort conj_commute)
  have "distinct (map EntryID (filter (\<lambda>e. knowable k e \<and> due asOf e) es))" using es(2) by (rule distinct_map_filter)
  then have "distinct (map EntryID ?xs)" by (simp add: distinct_map)
  then have "total (foldl (Apply lib) (NewBook p) ?xs) = total (NewBook p) + sum_list (map amount ?xs)"
    using es(1) by (intro foldl_sum) (auto simp: fold_entry_ordinary ordinary_def step ignored_def cancelled_def mine_def)
  moreover have "sum_list (map amount ?xs) = sum_list (map amount (filter (\<lambda>e. knowable k e \<and> due asOf e) es))"
    by (rule sum_list_mset) simp
  ultimately show ?thesis using assms(4) viewed [OF view_ReplayAsOf_fold, of lib p es asOf k] by (simp add: xs)
qed

lemma NewBook_empty [simp]:
  "Positions (NewBook p) = Map.empty" "bCash (NewBook p) = Map.empty" "Accrued (NewBook p) = Map.empty"
  "SettledPositions (NewBook p) = Map.empty" "SettledCash (NewBook p) = Map.empty"
  "settlementStated (NewBook p)" "unknownSettlement (NewBook p) = 0" "pendingSettlement (NewBook p) = 0"
  by (simp_all add: NewBook_def)

text \<open>
  C28: for a journal of ordinary entries (trades, cash movements, fees, accruals) with distinct ids, a
  bitemporal read is an exact double-entry accumulation: every cash balance is the sum of the cash
  legs in that currency of the entries known and effective by the two bounds, accrued income the sum
  of the accrual legs, the settled balance the sum over the entries that assert settlement only, and
  the quantity held of an instrument, traded or settled, the sum of the signed position legs.
\<close>

theorem replay_double_entry:
  fixes lib portfolio es effectiveAsOf knowledgeAsOf
  assumes "\<forall>e \<in> set es. ordinary e \<and> EntryID e \<noteq> '''' \<and> (PortfolioID e = '''' \<or> PortfolioID e = portfolio)"
    and "distinct (map EntryID es)"
  defines "b \<equiv> ReplayAsOf lib portfolio es effectiveAsOf knowledgeAsOf"
    and "counted \<equiv> filter (\<lambda>e. knowable knowledgeAsOf e \<and> due effectiveAsOf e) es"
  shows "CashBalance b ccy = (\<Sum>e \<leftarrow> counted. cash_of ccy e)
    \<and> AccruedBalance b ccy = (\<Sum>e \<leftarrow> counted. accrual_of ccy e)
    \<and> balance (SettledCash b) ccy = (\<Sum>e \<leftarrow> counted. if settles e then cash_of ccy e else 0)
    \<and> held (Positions b) instrument = (\<Sum>e \<leftarrow> counted. quantity_of instrument e)
    \<and> held (SettledPositions b) instrument = (\<Sum>e \<leftarrow> counted. if settles e then quantity_of instrument e else 0)"
proof -
  have es: "\<forall>e \<in> set es. ordinary e \<and> EntryID e \<noteq> '''' \<and> mine portfolio e" using assms(1) by (auto simp: mine_def)
  note sum = replay_sum [OF es assms(2), where k = knowledgeAsOf and asOf = effectiveAsOf and lib = lib,
      folded b_def counted_def]
  have "CashBalance b ccy = (\<Sum>e \<leftarrow> counted. cash_of ccy e)"
    by (rule sum) (simp_all add: CashBalance_def view_def cash_leg_sums position_leg_sums balance_def [of Map.empty])
  moreover have "AccruedBalance b ccy = (\<Sum>e \<leftarrow> counted. accrual_of ccy e)"
    by (rule sum) (simp_all add: AccruedBalance_def view_def cash_leg_sums position_leg_sums balance_def [of Map.empty])
  moreover have "balance (SettledCash b) ccy = (\<Sum>e \<leftarrow> counted. if settles e then cash_of ccy e else 0)"
    by (rule sum) (simp_all add: view_def cash_leg_sums position_leg_sums balance_def [of Map.empty])
  moreover have "held (Positions b) instrument = (\<Sum>e \<leftarrow> counted. quantity_of instrument e)"
    by (rule sum) (simp_all add: view_def cash_leg_sums position_leg_sums held_def [of Map.empty])
  moreover have "held (SettledPositions b) instrument = (\<Sum>e \<leftarrow> counted. if settles e then quantity_of instrument e else 0)"
    by (rule sum) (simp_all add: view_def cash_leg_sums position_leg_sums held_def [of Map.empty])
  ultimately show ?thesis by blast
qed

text \<open>The settled half follows the traded half exactly as long as every entry asserts settlement.\<close>

definition bases_agree :: "Book \<Rightarrow> bool" where
  "bases_agree b \<longleftrightarrow> 0 \<le> unknownSettlement b \<and> 0 \<le> pendingSettlement b
     \<and> (unknownSettlement b = 0 \<and> pendingSettlement b = 0
        \<longrightarrow> SettledPositions b = Positions b \<and> SettledCash b = bCash b)"

lemma legs_counts [simp]:
  "unknownSettlement (cash_leg e b) = unknownSettlement b" "pendingSettlement (cash_leg e b) = pendingSettlement b"
  "unknownSettlement (position_leg e b) = unknownSettlement b" "pendingSettlement (position_leg e b) = pendingSettlement b"
  by (simp_all add: cash_leg_def position_leg_def Let_def split: option.split)

lemma bases_agree_Apply:
  assumes "ordinary e" and "bases_agree b"
  shows "bases_agree (Apply lib b e)"
proof -
  have same: "SettledPositions (cash_leg e (position_leg e b)) = Positions (cash_leg e (position_leg e b))
      \<and> SettledCash (cash_leg e (position_leg e b)) = bCash (cash_leg e (position_leg e b))"
    if "settles e" "SettledPositions b = Positions b" "SettledCash b = bCash b" for b
    using that by (auto simp: cash_leg_def position_leg_def fold_bases_def put_traded_def put_settled_def
        traded_def settled_def Let_def split: option.split)
  let ?c = "count_basis e (mark_folded e b)"
  have "bases_agree (cash_leg e (position_leg e ?c))"
  proof (cases "SettlementBasis e = SettlementSettled")
    case True
    then have "?c = mark_folded e b" by (simp add: count_basis_def)
    then show ?thesis using assms(2) same [of "mark_folded e b"] True
      by (simp add: bases_agree_def settles_def)
  next
    case False
    then have "unknownSettlement ?c + pendingSettlement ?c = unknownSettlement b + pendingSettlement b + 1
        \<and> 0 \<le> unknownSettlement ?c \<and> 0 \<le> pendingSettlement ?c"
      using assms(2) by (simp add: count_basis_def bases_agree_def split: SettlementBasis.split)
    then show ?thesis using assms(2) by (auto simp: bases_agree_def)
  qed
  then show ?thesis using assms by (simp add: Apply_def fold_entry_ordinary ordinary_def)
qed

text \<open>
  a book of ordinary entries that answers settled-basis questions (\<open>SettlementBasisComplete\<close>) and
  has nothing pending holds, on the settled basis, exactly what it holds on the traded one: positions
  with their average cost and realized profit, and cash. So a zero pending count is never reached with
  a settled balance that is short.
\<close>

theorem settled_view_complete:
  fixes lib portfolio es effectiveAsOf knowledgeAsOf
  assumes "\<forall>e \<in> set es. ordinary e"
  defines "b \<equiv> ReplayAsOf lib portfolio es effectiveAsOf knowledgeAsOf"
  assumes "SettlementBasisComplete b" and "PendingSettlementEntries b = 0"
  shows "SettledPositions b = Positions b \<and> SettledCash b = bCash b"
proof -
  have "bases_agree (foldl (Apply lib) c xs)" if "\<forall>e \<in> set xs. ordinary e" "bases_agree c" for c xs
    using that by (induction xs arbitrary: c) (auto intro: bases_agree_Apply)
  then have "bases_agree (foldl (Apply lib) (NewBook portfolio) (filter (due effectiveAsOf) (sortedFor es 0 knowledgeAsOf True)))"
    using assms(1) by (simp add: sortedFor_ordinary bases_agree_def)
  then have "bases_agree b"
    using view_ReplayAsOf_fold [of lib portfolio es effectiveAsOf knowledgeAsOf]
    by (simp add: bases_agree_def view_def b_def)
  then show ?thesis using assms(3,4) by (simp add: bases_agree_def SettlementBasisComplete_def PendingSettlementEntries_def)
qed

lemmas ledger_eval =
  sample_trade_def ordinary_def knowable_def due_def settles_def cash_of_def accrual_of_def quantity_of_def orZero_def

lemma sample_trade_fields [simp]:
  "EntryID (sample_trade i q p f k) = i" "PortfolioID (sample_trade i q p f k) = ''fund''"
  "Effective (sample_trade i q p f k) = f" "Knowledge (sample_trade i q p f k) = k"
  "Type (sample_trade i q p f k) = EntryTrade" "Action (sample_trade i q p f k) = None"
  "actionStage (sample_trade i q p f k) = 0" "SettlementBasis (sample_trade i q p f k) = SettlementSettled"
  by (simp_all add: sample_trade_def)

theorem replay_order_independent_witness:
  "ReplayAsOf lib0 ''fund'' [sample_trade ''a'' 2 10 1 1, sample_trade ''b'' (- 1) 12 2 2] 9 0
   = ReplayAsOf lib0 ''fund'' [sample_trade ''b'' (- 1) 12 2 2, sample_trade ''a'' 2 10 1 1] 9 0"
  by (rule replay_order_independent) (simp_all add: actionEvents_ordinary)

theorem knowledge_time_read_witness:
  "(ReplayAsOf lib0 ''fund'' [sample_trade ''a'' 2 10 1 1, sample_trade ''late'' 5 11 1 8] 9 5)\<lparr>commitPrefix := False\<rparr>
   = (ReplayAsOf lib0 ''fund'' [sample_trade ''a'' 2 10 1 1] 9 5)\<lparr>commitPrefix := False\<rparr>"
  by (rule knowledge_time_read) (simp add: knowable_def)

theorem replay_double_entry_witness:
  "CashBalance (ReplayAsOf lib0 ''fund'' [sample_trade ''b'' (- 1) 12 2 2, sample_trade ''a'' 2 10 1 1] 9 0) ''USD'' = - 8
   \<and> held (Positions (ReplayAsOf lib0 ''fund'' [sample_trade ''b'' (- 1) 12 2 2, sample_trade ''a'' 2 10 1 1] 9 0)) ''BTC'' = 1"
  using replay_double_entry [of "[sample_trade ''b'' (- 1) 12 2 2, sample_trade ''a'' 2 10 1 1]" "''fund''" lib0 9 0 "''USD''" "''BTC''"]
  by (simp add: ledger_eval)

theorem settled_view_complete_witness:
  "SettledCash (ReplayAsOf lib0 ''fund'' [sample_trade ''a'' 2 10 1 1] 9 0)
     = bCash (ReplayAsOf lib0 ''fund'' [sample_trade ''a'' 2 10 1 1] 9 0)"
proof -
  let ?b = "ReplayAsOf lib0 ''fund'' [sample_trade ''a'' 2 10 1 1] 9 0"
  have "view ?b = view (Apply lib0 (NewBook ''fund'') (sample_trade ''a'' 2 10 1 1))"
    by (simp add: view_ReplayAsOf_fold sortedFor_ordinary ordinary_def knowable_def due_def)
  then have "SettlementBasisComplete ?b" "PendingSettlementEntries ?b = 0"
    by (auto simp: view_def SettlementBasisComplete_def PendingSettlementEntries_def Apply_def fold_entry_ordinary
        ignored_def cancelled_def count_basis_def)
  then show ?thesis using settled_view_complete [of "[sample_trade ''a'' 2 10 1 1]" lib0 "''fund''" 9 0] by (simp add: ordinary_def)
qed

section \<open>Corporate actions\<close>

lemma record_head_fold:
  "foldl record_head h es key = foldl max (h key) (map (\<lambda>e. head_of e key) es)"
  by (induction es arbitrary: h) (simp_all add: record_head_max)

lemma foldl_max_ge: "(m :: 'a :: linorder) \<le> foldl max m xs \<and> (\<forall>x \<in> set xs. x \<le> foldl max m xs)"
proof (induction xs arbitrary: m)
  case (Cons x xs)
  have "max m x \<le> foldl max (max m x) xs" "\<forall>y \<in> set xs. y \<le> foldl max (max m x) xs" using Cons by auto
  then show ?case by (auto intro: order_trans [rotated])
qed simp

lemma action_heads_ge:
  assumes "e \<in> set es" and "knowable k e" and "Action e = Some a" and "ActionID a \<noteq> ''''"
  shows "Revision a \<le> action_heads es k (PortfolioID e, ActionID a)"
proof -
  have "head_of e (PortfolioID e, ActionID a) = Revision a" using assms by (simp add: head_of_def)
  moreover have "e \<in> set (filter (knowable k) es)" using assms by simp
  ultimately show ?thesis
    unfolding action_heads_def record_head_fold using foldl_max_ge by (metis (no_types, lifting) imageI set_map)
qed

lemma stage_entry_mem:
  assumes "x \<in> set (stage_entry h e)"
  shows "Action x = Action e" and "PortfolioID x = PortfolioID e"
    and "Action e = Some a \<Longrightarrow> ActionID a \<noteq> '''' \<Longrightarrow> Revision a = h (PortfolioID e, ActionID a) \<and> \<not> Cancelled a"
  using assms by (auto simp: stage_entry_def split: option.splits if_splits)

text \<open>
  revisions are resolved before anything is folded: every entry that reaches the fold for a
  versioned action carries the highest revision known at the cutoff for that portfolio and action, and
  is not cancelled. A superseded announcement and a cancelled one contribute nothing, whatever their
  effective dates.
\<close>

theorem only_head_revision:
  assumes "e \<in> set (actionEvents es knowBound)" and "Action e = Some a" and "ActionID a \<noteq> ''''"
    and "e' \<in> set es" and "knowable knowBound e'" and "Action e' = Some a'"
    and "PortfolioID e' = PortfolioID e" and "ActionID a' = ActionID a"
  shows "\<not> Cancelled a \<and> Revision a' \<le> Revision a"
proof -
  obtain x where "e \<in> set (stage_entry (action_heads es knowBound) x)"
    using assms(1) by (auto simp: actionEvents_def)
  note x = stage_entry_mem [OF this]
  have "Revision a = action_heads es knowBound (PortfolioID e, ActionID a) \<and> \<not> Cancelled a"
    using x(3) [of a] x(1,2) assms(2,3) by simp
  then show ?thesis using action_heads_ge [OF assms(4-6)] assms(3,7,8) by simp
qed

definition sample_dividend :: "64 word \<Rightarrow> bool \<Rightarrow> instant \<Rightarrow> LedgerEvent" where
  "sample_dividend revision withdrawn paid =
     (sample_trade (ActionEntryID lib0 ''fund'' ''div'' revision) 0 0 5 6)
       \<lparr>Type := EntryCorporateAction, VenueAccountID := '''', Quantity := None, Price := None, Cash := None, CashCurrency := '''',
        Action := Some \<lparr>ActionID = ''div'', Revision = revision, Cancelled = withdrawn, PayDate = 5, PaidAt = paid,
          PaymentRef = (if paid = 0 then '''' else ''ref''), Kind = CorpActDividend, Ratio = None, PerUnit = Some 3,
          Target = '''', Currency = ''USD''\<rparr>\<rparr>"

theorem only_head_revision_witness:
  "\<not> Cancelled (the (Action ((sample_dividend 2 False 0)\<lparr>actionStage := 1\<rparr>)))
   \<and> Revision (the (Action (sample_dividend 1 False 0))) \<le> (2 :: 64 word)"
proof -
  let ?es = "[sample_dividend 1 False 0, sample_dividend 2 False 0]"
  have "(sample_dividend 2 False 0)\<lparr>actionStage := 1\<rparr> \<in> set (actionEvents ?es 0)"
    by (simp add: actionEvents_def action_heads_def record_head_def stage_entry_def sample_dividend_def is_income_def)
  then show ?thesis
    using only_head_revision [of "(sample_dividend 2 False 0)\<lparr>actionStage := 1\<rparr>" ?es 0 _ "sample_dividend 1 False 0"]
    by (simp add: sample_dividend_def)
qed

text \<open>The entitlement is fixed by the accrual; ordinary entries do not touch it.\<close>

lemma entitlements_ordinary: "ordinary e \<Longrightarrow> entitlements (Apply lib b e) = entitlements b"
  by (simp add: Apply_def fold_entry_ordinary ordinary_def cash_leg_def position_leg_def fold_bases_def put_traded_def
      put_settled_def count_basis_def mark_folded_def Let_def split: option.split SettlementBasis.split)

lemma entitlements_foldl: "\<forall>e \<in> set es. ordinary e \<Longrightarrow> entitlements (foldl (Apply lib) b es) = entitlements b"
  by (induction es arbitrary: b) (auto simp: entitlements_ordinary)

lemma entitlements_mark [simp]: "entitlements (mark_folded e b) = entitlements b"
  by (simp add: mark_folded_def)

lemma Apply_income:
  assumes "Type e = EntryCorporateAction" and "Action e = Some a" and "is_income (Kind a)"
    and "EntryID e \<notin> seen b" and "\<not> ignored b e"
  shows "Apply lib b e = foldIncome lib e a (mark_folded e b)"
  using assms by (simp add: Apply_def fold_entry_def)

text \<open>
  income is earned on the position at the ex-date and paid once. Whatever is traded between the
  accrual of a dividend or coupon and its confirmed payment, the payment moves exactly
  \<open>quantity held at the accrual \<times> amount per unit\<close> from accrued income to cash, and to settled cash;
  no other currency is touched, and the entitlement is consumed, so a second payment of the same
  revision moves nothing.
\<close>

theorem income_lifecycle:
  fixes lib e a b between
  defines "accrual \<equiv> e\<lparr>actionStage := 1\<rparr>"
    and "payment \<equiv> e\<lparr>actionStage := 2, EntryID := EntryID e @ '':payment'', Effective := PaidAt a\<rparr>"
  defines "earned \<equiv> foldl (Apply lib) (Apply lib b accrual) between"
  defines "paid \<equiv> Apply lib earned payment"
  assumes "Type e = EntryCorporateAction" and "Action e = Some a" and "is_income (Kind a)" and "\<not> ignored b e"
    and "Positions b (InstrumentID e) = Some lot" and "PerUnit a = Some pu"
    and "EntryID e \<notin> seen b" and "EntryID e @ '':payment'' \<notin> seen b"
    and "\<forall>x \<in> set between. ordinary x \<and> EntryID x \<noteq> EntryID e @ '':payment''"
  shows "AccruedBalance (Apply lib b accrual) ccy = AccruedBalance b ccy + (if ccy = Currency a then Qty lot * pu else 0)
    \<and> CashBalance paid ccy = CashBalance earned ccy + (if ccy = Currency a then Qty lot * pu else 0)
    \<and> balance (SettledCash paid) ccy = balance (SettledCash earned) ccy + (if ccy = Currency a then Qty lot * pu else 0)
    \<and> AccruedBalance paid ccy = AccruedBalance earned ccy - (if ccy = Currency a then Qty lot * pu else 0)
    \<and> entitlements paid (ActionEntryID lib (PortfolioID e) (ActionID a) (Revision a)) = None"
proof -
  let ?key = "ActionEntryID lib (PortfolioID e) (ActionID a) (Revision a)"
  have ign: "\<not> ignored c accrual \<and> \<not> ignored c payment" if "bPortfolioID c = bPortfolioID b" for c
    using assms(8) that by (auto simp: ignored_def cancelled_def accrual_def payment_def)
  have acc: "Apply lib b accrual = foldIncome lib accrual a (mark_folded accrual b)"
    using assms ign [of b] by (intro Apply_income) (auto simp: accrual_def)
  have "entitlements (Apply lib b accrual) ?key = Some (Qty lot * pu)"
    using assms(9,10) unfolding acc by (simp add: foldIncome_def accrual_def Let_def)
  then have ent: "entitlements earned ?key = Some (Qty lot * pu)"
    using assms(13) by (simp add: earned_def entitlements_foldl)
  have "EntryID payment \<notin> seen (Apply lib b accrual)" using assms(11,12) by (simp add: accrual_def payment_def)
  then have "EntryID payment \<notin> seen earned" using assms(13) by (auto simp: earned_def seen_foldl payment_def)
  then have pay: "paid = foldIncome lib payment a (mark_folded payment earned)"
    unfolding paid_def using assms(5-7) ign [of earned]
    by (intro Apply_income) (auto simp: payment_def earned_def portfolio_foldl)
  have "AccruedBalance (Apply lib b accrual) ccy = AccruedBalance b ccy + (if ccy = Currency a then Qty lot * pu else 0)"
    using assms(9,10) unfolding acc by (simp add: foldIncome_def accrual_def Let_def AccruedBalance_def balance_add)
  then show ?thesis
    using ent by (simp add: pay foldIncome_def payment_def Let_def CashBalance_def AccruedBalance_def balance_add)
qed

text \<open>
  a split and a merger conserve the cost of what is held. A split multiplies the quantity by the
  ratio and leaves the total cost and the realized profit; a merger into an instrument not yet held
  closes the source without realizing anything, opens the target at the same total cost, and pays the
  cash consideration on the source quantity; every other position is untouched.
\<close>

theorem corporate_action_cost:
  assumes "positions f i = Some l" and "Qty l \<noteq> 0" and "Ratio a = Some r" and "0 < r" and "0 \<le> AvgCost l"
  shows "(Kind a = CorpActSplit \<longrightarrow>
      (\<exists>l'. positions (foldCorpAct i a f) = (positions f)(i \<mapsto> l') \<and> Qty l' = Qty l * r
        \<and> \<bar>Qty l'\<bar> * AvgCost l' = \<bar>Qty l\<bar> * AvgCost l \<and> Realized l' = Realized l) \<and> cash (foldCorpAct i a f) = cash f)
    \<and> (Kind a = CorpActMerger \<and> Target a \<noteq> '''' \<and> Target a \<noteq> i \<and> positions f (Target a) = None \<longrightarrow>
      (\<exists>l'. positions (foldCorpAct i a f) = (positions f)(i \<mapsto> l\<lparr>Qty := 0, AvgCost := 0\<rparr>, Target a \<mapsto> l')
        \<and> Qty l' = Qty l * r \<and> \<bar>Qty l'\<bar> * AvgCost l' = \<bar>Qty l\<bar> * AvgCost l \<and> Realized l' = 0)
      \<and> balance (cash (foldCorpAct i a f)) ccy
          = balance (cash f) ccy + (if ccy = Currency a then Qty l * orZero (PerUnit a) else 0))"
proof (intro conjI impI)
  assume s: "Kind a = CorpActSplit"
  show "\<exists>l'. positions (foldCorpAct i a f) = (positions f)(i \<mapsto> l') \<and> Qty l' = Qty l * r
        \<and> \<bar>Qty l'\<bar> * AvgCost l' = \<bar>Qty l\<bar> * AvgCost l \<and> Realized l' = Realized l"
    using assms s by (intro exI [of _ "l\<lparr>Qty := Qty l * r, AvgCost := AvgCost l / r\<rparr>"]) (simp add: foldCorpAct_def abs_mult)
  show "cash (foldCorpAct i a f) = cash f" using assms s by (simp add: foldCorpAct_def)
next
  assume m: "Kind a = CorpActMerger \<and> Target a \<noteq> '''' \<and> Target a \<noteq> i \<and> positions f (Target a) = None"
  let ?l = "Fold NewLot (Qty l * r) (\<bar>\<bar>Qty l\<bar> * AvgCost l\<bar> / \<bar>Qty l * r\<bar>)"
  let ?g = "f\<lparr>positions := (positions f)(i \<mapsto> l\<lparr>Qty := 0, AvgCost := 0\<rparr>, Target a \<mapsto> ?l)\<rparr>"
  have fold: "foldCorpAct i a f =
      (case PerUnit a of None \<Rightarrow> ?g | Some pu \<Rightarrow> if pu \<noteq> 0 then ?g\<lparr>cash := add (cash f) (Currency a) (Qty l * pu)\<rparr> else ?g)"
    using assms m by (auto simp: foldCorpAct_def foldContribution_def foldPosition_def Let_def split: option.split)
  have "positions (foldCorpAct i a f) = (positions f)(i \<mapsto> l\<lparr>Qty := 0, AvgCost := 0\<rparr>, Target a \<mapsto> ?l)"
    by (simp add: fold split: option.split)
  moreover have "Qty ?l = Qty l * r" "\<bar>Qty ?l\<bar> * AvgCost ?l = \<bar>Qty l\<bar> * AvgCost l" "Realized ?l = 0"
    using assms by (simp_all add: Fold_def NewLot_def Let_def abs_mult)
  ultimately show "\<exists>l'. positions (foldCorpAct i a f) = (positions f)(i \<mapsto> l\<lparr>Qty := 0, AvgCost := 0\<rparr>, Target a \<mapsto> l')
        \<and> Qty l' = Qty l * r \<and> \<bar>Qty l'\<bar> * AvgCost l' = \<bar>Qty l\<bar> * AvgCost l \<and> Realized l' = 0" by blast
  show "balance (cash (foldCorpAct i a f)) ccy = balance (cash f) ccy + (if ccy = Currency a then Qty l * orZero (PerUnit a) else 0)"
    by (simp add: fold balance_add orZero_def split: option.split)
qed

lemma sample_dividend_fields [simp]:
  "EntryID (sample_dividend r w p) = ActionEntryID lib0 ''fund'' ''div'' r" "PortfolioID (sample_dividend r w p) = ''fund''"
  "Type (sample_dividend r w p) = EntryCorporateAction" "InstrumentID (sample_dividend r w p) = ''BTC''"
  "Effective (sample_dividend r w p) = 5" "Knowledge (sample_dividend r w p) = 6" "actionStage (sample_dividend r w p) = 0"
  by (simp_all add: sample_dividend_def sample_trade_def)

lemma ActionEntryID_not [simp]: "ActionEntryID lib p a r \<noteq> ''a''" "ActionEntryID lib p a r \<noteq> ''b''"
  "ActionEntryID lib p a r \<noteq> []"
  by (simp_all add: ActionEntryID_def)

theorem income_lifecycle_witness:
  "CashBalance (Apply lib0 (foldl (Apply lib0) (Apply lib0 (Apply lib0 (NewBook ''fund'') (sample_trade ''a'' 2 10 1 1))
        ((sample_dividend 1 False 7)\<lparr>actionStage := 1\<rparr>)) [sample_trade ''b'' 5 10 6 6])
      ((sample_dividend 1 False 7)\<lparr>actionStage := 2, EntryID := EntryID (sample_dividend 1 False 7) @ '':payment'', Effective := 7\<rparr>)) ''USD''
   = CashBalance (foldl (Apply lib0) (Apply lib0 (Apply lib0 (NewBook ''fund'') (sample_trade ''a'' 2 10 1 1))
        ((sample_dividend 1 False 7)\<lparr>actionStage := 1\<rparr>)) [sample_trade ''b'' 5 10 6 6]) ''USD'' + 6"
proof -
  let ?b = "Apply lib0 (NewBook ''fund'') (sample_trade ''a'' 2 10 1 1)" and ?e = "sample_dividend 1 False 7"
  let ?a = "the (Action ?e)"
  have act: "Action ?e = Some ?a" "is_income (Kind ?a)" "PerUnit ?a = Some 3" "\<not> Cancelled ?a" "Currency ?a = ''USD''" "PaidAt ?a = 7"
    by (simp_all add: sample_dividend_def is_income_def)
  have "\<not> ignored ?b ?e" by (simp add: ignored_def cancelled_def sample_dividend_def)
  moreover have seen: "seen ?b = {''a''}" by (simp add: ignored_def cancelled_def)
  moreover have "Positions ?b (InstrumentID ?e) = Some \<lparr>Qty = 2, AvgCost = 10, Realized = 0\<rparr>"
    by (simp add: Apply_def ignored_def cancelled_def fold_entry_ordinary count_basis_def cash_leg_sums position_leg_def fold_bases_def
        put_traded_def put_settled_def traded_def settled_def foldPosition_def sample_trade_def Fold_def NewLot_def orZero_def Let_def)
  ultimately show ?thesis
    using income_lifecycle [of ?e ?a ?b "\<lparr>Qty = 2, AvgCost = 10, Realized = 0\<rparr>" 3 "[sample_trade ''b'' 5 10 6 6]" lib0 "''USD''"] act
    by (simp add: ordinary_def ActionEntryID_def)
qed

theorem corporate_action_cost_witness:
  "\<exists>l'. positions (foldCorpAct ''BTC'' ((the (Action (sample_dividend 1 False 0)))\<lparr>Kind := CorpActSplit, Ratio := Some 4\<rparr>)
         \<lparr>positions = [''BTC'' \<mapsto> \<lparr>Qty = 2, AvgCost = 10, Realized = 1\<rparr>], cash = Map.empty\<rparr>) = [''BTC'' \<mapsto> l'] \<and> Qty l' = 8"
  using corporate_action_cost [of "\<lparr>positions = [''BTC'' \<mapsto> \<lparr>Qty = 2, AvgCost = 10, Realized = 1\<rparr>], cash = Map.empty\<rparr>" "''BTC''"
      "\<lparr>Qty = 2, AvgCost = 10, Realized = 1\<rparr>" "(the (Action (sample_dividend 1 False 0)))\<lparr>Kind := CorpActSplit, Ratio := Some 4\<rparr>" 4]
  by auto

end
