(* ===== verification/Fill_Fact.thy ===== *)
theory Fill_Fact
  imports Order_Aggregate Dual_Control Ledger
begin

text \<open>
  What a fill FACT must carry before a book of record folds it: the validity contract and identity of
  an execution (\<open>internal/fillfact/fillfact.go\<close>, \<open>identity.go\<close>), approved fee revisions
  (\<open>fee_revision.go\<close>, \<open>fee_memory.go\<close>), the reflective decimal-domain walk (\<open>internal/dec/domain.go\<close>), and
  the seam into the ledger (\<open>services/accounting/internal/ledger/fill.go\<close>, \<open>execution_evidence.go\<close>).

  \<open>proto.Unmarshal\<close> and the deterministic \<open>Marshal\<close> of a fill, \<open>json.Marshal\<close> of a string array and
  \<open>sha256\<close> are the fields of \<open>fill_lib\<close>. \<open>proto.Equal\<close> of two fills is equality of the records, and
  \<open>proto.Clone\<close> the identity.
\<close>

section \<open>The decimal-domain walk\<close>

text \<open>
  A message as protobuf reflection shows it: its full name, the field names of its descriptor, and the
  fields that are set, in the order they are visited. A field holds an integer, or the messages below
  it with what the walk appends to the path for each: nothing for a message field, the key for the
  values of a map, the index for the elements of a list; a field that holds no messages has none. An
  unset message is \<open>Nil_message\<close>.
\<close>

datatype pmessage = Nil_message | PMessage string "string list" "(string \<times> pvalue) list"
and pvalue = PInt int | PSubs "(string \<times> pmessage) list"

definition PScalar :: pvalue where
  "PScalar = PSubs []"

definition PSub :: "pmessage \<Rightarrow> pvalue" where
  "PSub m = PSubs [([], m)]"

definition PMap :: "(string \<times> pmessage) list \<Rightarrow> pvalue" where
  "PMap kvs = PSubs (map (\<lambda>(k, m). (''['' @ k @ '']'', m)) kvs)"

definition PList :: "pmessage list \<Rightarrow> pvalue" where
  "PList ms = PSubs (map (\<lambda>(i, m). (''['' @ dec_digits i @ '']'', m)) (enumerate 0 ms))"

definition decimalName :: string where
  "decimalName = ''common.v1.Decimal''"

definition maxWalkDepth :: nat where
  "maxWalkDepth = 64"

definition child :: "string \<Rightarrow> string \<Rightarrow> string" where
  "child path fd = (if path = '''' then fd else path @ ''.'' @ fd)"

definition exponentInDomain :: "string list \<Rightarrow> (string \<times> pvalue) list \<Rightarrow> bool" where
  "exponentInDomain descriptor vs =
     (if ''exponent'' \<notin> set descriptor then False
      else case map_of vs ''exponent'' of
             Some (PInt e) \<Rightarrow> - maxSafeExponent \<le> e \<and> e \<le> maxSafeExponent
           | _ \<Rightarrow> - maxSafeExponent \<le> 0 \<and> 0 \<le> maxSafeExponent)"

fun walkDomain :: "pmessage \<Rightarrow> string \<Rightarrow> nat \<Rightarrow> string \<times> bool"
and walkFields :: "(string \<times> pvalue) list \<Rightarrow> string \<Rightarrow> nat \<Rightarrow> string \<times> bool"
and walkSubs :: "(string \<times> pmessage) list \<Rightarrow> string \<Rightarrow> nat \<Rightarrow> string \<times> bool" where
  "walkDomain Nil_message path depth = ([], True)"
| "walkDomain (PMessage name descriptor vs) path depth =
     (if depth > maxWalkDepth then (path, False)
      else if name = decimalName then (path, exponentInDomain descriptor vs)
      else walkFields vs path depth)"
| "walkFields [] path depth = ([], True)"
| "walkFields ((fd, PInt _) # fs) path depth = walkFields fs path depth"
| "walkFields ((fd, PSubs subs) # fs) path depth =
     (let r = walkSubs subs (child path fd) depth in if snd r then walkFields fs path depth else r)"
| "walkSubs [] path depth = ([], True)"
| "walkSubs ((suffix, m) # subs) path depth =
     (let r = walkDomain m (path @ suffix) (depth + 1) in if snd r then walkSubs subs path depth else r)"

definition InDomainDeep :: "pmessage option \<Rightarrow> string \<times> bool" where
  "InDomainDeep m = (case m of None \<Rightarrow> ('''', True) | Some msg \<Rightarrow> walkDomain msg '''' 0)"

text \<open>
  \<open>ProtoReflect\<close> of a fill and of what it contains. A field that is not set (a nil message, an empty
  string, a zero) is not visited.
\<close>

definition set_string :: "string \<Rightarrow> string \<Rightarrow> (string \<times> pvalue) list" where
  "set_string name s = (if s = '''' then [] else [(name, PScalar)])"

definition set_sub :: "string \<Rightarrow> ('m \<Rightarrow> pmessage) \<Rightarrow> 'm option \<Rightarrow> (string \<times> pvalue) list" where
  "set_sub name reflect m = (case m of None \<Rightarrow> [] | Some x \<Rightarrow> [(name, PSub (reflect x))])"

definition reflect_decimal :: "decimal \<Rightarrow> pmessage" where
  "reflect_decimal d = PMessage decimalName [''coefficient'', ''exponent'']
     ((if coefficient d = 0 then [] else [(''coefficient'', PInt (sint (coefficient d)))])
      @ (if exponent d = 0 then [] else [(''exponent'', PInt (sint (exponent d)))]))"

definition reflect_money :: "money \<Rightarrow> pmessage" where
  "reflect_money m = PMessage ''common.v1.Money'' [''amount'', ''currency_code'']
     (set_sub ''amount'' reflect_decimal (amount m) @ set_string ''currency_code'' (currency_code m))"

definition reflect_timestamp :: "Timestamp \<Rightarrow> pmessage" where
  "reflect_timestamp t = PMessage ''google.protobuf.Timestamp'' [''seconds'', ''nanos'']
     ((if ts_seconds t = 0 then [] else [(''seconds'', PInt (sint (ts_seconds t)))])
      @ (if ts_nanos t = 0 then [] else [(''nanos'', PInt (sint (ts_nanos t)))]))"

definition reflect_approval :: "ExecutionFeeApproval \<Rightarrow> pmessage" where
  "reflect_approval a = PMessage ''order.v1.ExecutionFeeApproval''
     [''proposal_id'', ''digest'', ''proposer'', ''approver'', ''approved_at'', ''previous_execution_digest'', ''previous_fee'']
     (set_string ''proposal_id'' (ap_proposal_id a) @ set_string ''digest'' (ap_digest a)
      @ set_string ''proposer'' (ap_proposer a) @ set_string ''approver'' (ap_approver a)
      @ set_sub ''approved_at'' reflect_timestamp (ap_approved_at a)
      @ set_string ''previous_execution_digest'' (ap_previous_execution_digest a)
      @ set_sub ''previous_fee'' reflect_money (ap_previous_fee a))"

definition reflect_recovery :: "ExecutionRecoveryProvenance \<Rightarrow> pmessage" where
  "reflect_recovery r = PMessage ''order.v1.ExecutionRecoveryProvenance''
     [''case_id'', ''mapping_version'', ''source_cursor'', ''payload_digest'', ''observed_at'', ''execution_digest'', ''fee_approval'']
     (set_string ''case_id'' (rec_case_id r) @ set_string ''mapping_version'' (rec_mapping_version r)
      @ set_string ''source_cursor'' (rec_source_cursor r) @ set_string ''payload_digest'' (rec_payload_digest r)
      @ set_sub ''observed_at'' reflect_timestamp (rec_observed_at r)
      @ set_string ''execution_digest'' (rec_execution_digest r)
      @ set_sub ''fee_approval'' reflect_approval (rec_fee_approval r))"

definition reflect_fill :: "Fill \<Rightarrow> pmessage" where
  "reflect_fill f = PMessage ''order.v1.Fill''
     [''fill_id'', ''order_id'', ''instrument_id'', ''side'', ''quantity'', ''price'', ''fee'', ''venue'', ''venue_execution_id'',
      ''executed_at'', ''venue_account_id'', ''recovery'']
     (set_string ''fill_id'' (fill_id f) @ set_string ''order_id'' (fill_order_id f)
      @ set_string ''instrument_id'' (fill_instrument_id f)
      @ (if fill_side f = SIDE_UNSPECIFIED then [] else [(''side'', PScalar)])
      @ set_sub ''quantity'' reflect_decimal (fill_quantity f) @ set_sub ''price'' reflect_decimal (fill_price f)
      @ set_sub ''fee'' reflect_money (fill_fee f) @ set_string ''venue'' (fill_venue f)
      @ set_string ''venue_execution_id'' (fill_venue_execution_id f)
      @ set_sub ''executed_at'' reflect_timestamp (fill_executed_at f)
      @ set_string ''venue_account_id'' (fill_venue_account_id f)
      @ set_sub ''recovery'' reflect_recovery (fill_recovery f))"

definition fill_in_domain :: "Fill \<Rightarrow> bool" where
  "fill_in_domain f \<longleftrightarrow> snd (InDomainDeep (Some (reflect_fill f)))"

section \<open>Validity and identity of an execution\<close>

datatype fill_error =
  ErrNotIdentified | ErrHasNoVenue | ErrQuantityNotPositive | ErrExecutionIdentityConflict | ErrFeeRevision
  | Fee_not_in_cash_currency string | Unmarshal_failed | Marshal_failed | Missing_execution

record fill_lib =
  fl_sha256 :: "string \<Rightarrow> string"
  fl_MarshalKey :: "string list \<Rightarrow> string"
  fl_MarshalFill :: "Fill \<Rightarrow> string option"
  fl_UnmarshalFill :: "string \<Rightarrow> Fill option"
  fl_strings :: strings_lib

definition Validate :: "Fill \<Rightarrow> fill_error option" where
  "Validate f =
     (if fill_id f = '''' then Some ErrNotIdentified
      else if fill_venue f = '''' then Some ErrHasNoVenue
      else if \<not> IsPositive (fill_quantity f) then Some ErrQuantityNotPositive
      else None)"

definition ExecutionKey :: "fill_lib \<Rightarrow> Fill \<Rightarrow> string" where
  "ExecutionKey lib f =
     (if fill_venue f = '''' \<or> fill_venue_account_id f = '''' \<or> fill_instrument_id f = '''' \<or> fill_venue_execution_id f = ''''
      then fill_id f
      else ''execution:v1:'' @ hex_encode (fl_sha256 lib (fl_MarshalKey lib
             [fill_venue f, fill_venue_account_id f, fill_instrument_id f, fill_venue_execution_id f])))"

text \<open>Getters of the nil-able fee.\<close>

definition fee_amount :: "Fill \<Rightarrow> decimal option" where
  "fee_amount f = (case fill_fee f of None \<Rightarrow> None | Some m \<Rightarrow> amount m)"

definition fee_currency :: "Fill \<Rightarrow> string" where
  "fee_currency f = (case fill_fee f of None \<Rightarrow> '''' | Some m \<Rightarrow> currency_code m)"

definition SameExecution :: "Fill option \<Rightarrow> Fill option \<Rightarrow> bool" where
  "SameExecution a b =
     (case (a, b) of
        (None, None) \<Rightarrow> True
      | (Some a, Some b) \<Rightarrow>
          if \<not> fill_in_domain a then False
          else if \<not> fill_in_domain b then False
          else if fill_order_id a \<noteq> fill_order_id b \<or> fill_venue a \<noteq> fill_venue b
               \<or> fill_venue_account_id a \<noteq> fill_venue_account_id b \<or> fill_instrument_id a \<noteq> fill_instrument_id b
               \<or> fill_venue_execution_id a \<noteq> fill_venue_execution_id b \<or> fill_side a \<noteq> fill_side b
               \<or> fee_currency a \<noteq> fee_currency b then False
          else if (fill_quantity a = None) \<noteq> (fill_quantity b = None) \<or> (fill_price a = None) \<noteq> (fill_price b = None)
               \<or> (fee_amount a = None) \<noteq> (fee_amount b = None)
               \<or> (fill_executed_at a = None) \<noteq> (fill_executed_at b = None) then False
          else if fill_executed_at a \<noteq> None
               \<and> (\<not> CheckValid (fill_executed_at a) \<or> \<not> CheckValid (fill_executed_at b)
                  \<or> AsTime (fill_executed_at a) \<noteq> AsTime (fill_executed_at b)) then False
          else Cmp (fill_quantity a) (fill_quantity b) = 0 \<and> Cmp (fill_price a) (fill_price b) = 0
               \<and> Cmp (fee_amount a) (fee_amount b) = 0
      | _ \<Rightarrow> False)"

section \<open>Fee revisions\<close>

fun Side_String :: "Side \<Rightarrow> string" where
  "Side_String SIDE_UNSPECIFIED = ''SIDE_UNSPECIFIED''"
| "Side_String SIDE_BUY = ''SIDE_BUY''"
| "Side_String SIDE_SELL = ''SIDE_SELL''"
| "Side_String (SIDE_unnamed n) = Itoa (sint n)"

definition EconomicDigest :: "fill_lib \<Rightarrow> Fill option \<Rightarrow> fill_error + string" where
  "EconomicDigest lib f =
     (case f of
        None \<Rightarrow> Inl ErrExecutionIdentityConflict
      | Some f \<Rightarrow>
          if \<not> fill_in_domain f then Inl ErrExecutionIdentityConflict
          else if fill_order_id f = '''' \<or> ExecutionKey lib f = fill_id f \<or> fill_quantity f = None \<or> fill_price f = None
               \<or> fee_amount f = None \<or> fee_currency f = '''' \<or> fill_executed_at f = None
               \<or> \<not> CheckValid (fill_executed_at f) then Inl ErrExecutionIdentityConflict
          else if \<not> IsPositive (fill_quantity f) \<or> \<not> IsPositive (fill_price f) \<or> Unix (AsTime (fill_executed_at f)) \<le> 0
               \<or> (fill_side f \<noteq> SIDE_BUY \<and> fill_side f \<noteq> SIDE_SELL) then Inl ErrExecutionIdentityConflict
          else Inr (Digest (fl_sha256 lib)
                 [''execution-economics-v1'', fill_order_id f, ExecutionKey lib f, Side_String (fill_side f),
                  RatString (FromProto (fill_quantity f)), RatString (FromProto (fill_price f)),
                  RatString (FromProto (fee_amount f)), fee_currency f, RFC3339Nano (AsTime (fill_executed_at f))]))"

definition SameExecutionExceptFee :: "Fill option \<Rightarrow> Fill option \<Rightarrow> bool" where
  "SameExecutionExceptFee previous revised =
     (case (previous, revised) of
        (Some p, Some r) \<Rightarrow>
          if fee_amount p = None \<or> fee_amount r = None \<or> fee_currency p = '''' \<or> fee_currency p \<noteq> fee_currency r then False
          else SameExecution (Some (p\<lparr>fill_fee := None\<rparr>)) (Some (r\<lparr>fill_fee := None\<rparr>))
      | _ \<Rightarrow> False)"

definition fee_approval_of :: "Fill \<Rightarrow> ExecutionFeeApproval option" where
  "fee_approval_of f = (case fill_recovery f of None \<Rightarrow> None | Some r \<Rightarrow> rec_fee_approval r)"

definition case_id_of :: "Fill \<Rightarrow> string" where
  "case_id_of f = (case fill_recovery f of None \<Rightarrow> '''' | Some r \<Rightarrow> rec_case_id r)"

definition FeeRevisionTerms :: "fill_lib \<Rightarrow> Fill \<Rightarrow> fill_error + Fill" where
  "FeeRevisionTerms lib revised =
     (case fee_approval_of revised of
        None \<Rightarrow> Inl ErrFeeRevision
      | Some a \<Rightarrow>
          if ap_proposal_id a \<noteq> case_id_of revised \<or> ap_proposal_id a = ''''
             \<or> TrimSpace (fl_strings lib) (ap_proposer a) = '''' \<or> TrimSpace (fl_strings lib) (ap_approver a) = ''''
             \<or> SameSubject (fl_strings lib) (ap_proposer a) (ap_approver a)
             \<or> ap_approved_at a = None \<or> \<not> CheckValid (ap_approved_at a) \<or> Unix (AsTime (ap_approved_at a)) \<le> 0
            then Inl ErrFeeRevision
          else if \<not> list_all (\<lambda>d. hex_decoded_len d = Some 32) [ap_digest a, ap_previous_execution_digest a]
            then Inl ErrFeeRevision
          else if \<not> fill_in_domain revised then Inl ErrFeeRevision
          else if length (ap_proposer a) > 256 \<or> length (ap_approver a) > 256 \<or> length (ap_proposal_id a) > 256
            then Inl ErrFeeRevision
          else if ap_previous_fee a = None then Inl ErrFeeRevision
          else
            let previous = revised\<lparr>fill_fee := ap_previous_fee a, fill_recovery := None\<rparr> in
            if \<not> SameExecutionExceptFee (Some previous) (Some revised) then Inl ErrFeeRevision
            else if Cmp (fee_amount previous) (fee_amount revised) = 0 then Inl ErrFeeRevision
            else case EconomicDigest lib (Some previous) of
                   Inl _ \<Rightarrow> Inl ErrFeeRevision
                 | Inr d \<Rightarrow> if d \<noteq> ap_previous_execution_digest a then Inl ErrFeeRevision else Inr previous)"

definition ApprovedFeeDelta :: "fill_lib \<Rightarrow> Fill \<Rightarrow> Fill \<Rightarrow> fill_error + rat" where
  "ApprovedFeeDelta lib previous revised =
     (case FeeRevisionTerms lib revised of
        Inl _ \<Rightarrow> Inl ErrFeeRevision
      | Inr approvedPrevious \<Rightarrow>
          if \<not> SameExecution (Some previous) (Some approvedPrevious) then Inl ErrFeeRevision
          else Inr (FromProto (fee_amount previous) - FromProto (fee_amount revised)))"

definition MaxMemoryFeeRevisions :: nat where
  "MaxMemoryFeeRevisions = 128"

definition MemoryFeeHead :: "Fill \<Rightarrow> Fill list \<Rightarrow> Fill" where
  "MemoryFeeHead original revisions = (if revisions \<noteq> [] then last revisions else original)"

text \<open>The loop over the prior revisions: the first one of the same case decides.\<close>

fun prior_case :: "Fill list \<Rightarrow> Fill \<Rightarrow> Fill option" where
  "prior_case [] revised = None"
| "prior_case (prior # ps) revised =
     (if case_id_of prior = case_id_of revised then Some prior else prior_case ps revised)"

definition CheckMemoryFeeRevision :: "fill_lib \<Rightarrow> Fill \<Rightarrow> Fill list \<Rightarrow> Fill \<Rightarrow> fill_error + (rat \<times> bool)" where
  "CheckMemoryFeeRevision lib original revisions revised =
     (if \<not> SameExecutionExceptFee (Some original) (Some revised) then Inl ErrFeeRevision
      else case FeeRevisionTerms lib revised of
        Inl err \<Rightarrow> Inl err
      | Inr _ \<Rightarrow>
          (case prior_case revisions revised of
             Some prior \<Rightarrow> if prior \<noteq> revised then Inl ErrFeeRevision else Inr (0, False)
           | None \<Rightarrow>
               if length revisions \<ge> MaxMemoryFeeRevisions then Inl ErrFeeRevision
               else case ApprovedFeeDelta lib (MemoryFeeHead original revisions) revised of
                      Inl err \<Rightarrow> Inl err
                    | Inr delta \<Rightarrow> Inr (delta, True)))"

definition ExecutionDigest :: "fill_lib \<Rightarrow> Fill option \<Rightarrow> fill_error + string" where
  "ExecutionDigest lib fill =
     (case fill of
        None \<Rightarrow> Inl Missing_execution
      | Some f \<Rightarrow>
          (case fl_MarshalFill lib (f\<lparr>fill_recovery := None\<rparr>) of
             None \<Rightarrow> Inl Marshal_failed
           | Some data \<Rightarrow> Inr (hex_encode (fl_sha256 lib data))))"

section \<open>The seam into the ledger\<close>

definition fillSettlement :: "instant \<Rightarrow> SettlementBasis \<times> instant" where
  "fillSettlement executedAt = (SettlementSettled, executedAt)"

definition FromFill :: "fill_lib \<Rightarrow> string \<Rightarrow> Fill \<Rightarrow> string \<Rightarrow> instant \<Rightarrow> fill_error + LedgerEvent" where
  "FromFill lib portfolioID fill cashCurrency knowledge =
     (case Validate fill of
        Some err \<Rightarrow> Inl err
      | None \<Rightarrow>
        let qty = FromProto (fill_quantity fill); price = FromProto (fill_price fill) in
        (case MoneyIn (fill_fee fill) cashCurrency of
           Inl _ \<Rightarrow> Inl (Fee_not_in_cash_currency (fill_id fill))
         | Inr fee \<Rightarrow>
           let sell = (fill_side fill = SIDE_SELL);
               signedQty = (if sell then - qty else qty);
               gross = qty * price;
               cash = (if sell then gross else - gross) - fee;
               eff = AsTime (fill_executed_at fill);
               eff = (if eff = 0 then knowledge else eff);
               basis = fillSettlement eff
           in case fl_MarshalFill lib fill of
                None \<Rightarrow> Inl Marshal_failed
              | Some evidence \<Rightarrow> Inr
                  \<lparr>journalReadPosition = 0, actionStage = 0, ExecutionEvidence = evidence,
                   EntryID = ''fill:'' @ ExecutionKey lib fill, PortfolioID = portfolioID,
                   VenueAccountID = fill_venue_account_id fill, Type = EntryTrade,
                   InstrumentID = fill_instrument_id fill, Quantity = Some signedQty, Price = Some price,
                   Cash = Some cash, CashCurrency = cashCurrency, Action = None, Effective = eff,
                   Knowledge = knowledge, SettlementBasis = fst basis, SettlementDate = snd basis,
                   SourceRef = fill_id fill\<rparr>))"

definition exactRat :: "rat option \<Rightarrow> rat option \<Rightarrow> bool" where
  "exactRat a b = (case (a, b) of (Some x, Some y) \<Rightarrow> x = y | (None, None) \<Rightarrow> True | _ \<Rightarrow> False)"

text \<open>\<open>Inr None\<close>: the entry carries no execution evidence.\<close>

definition executionFromEntry :: "fill_lib \<Rightarrow> LedgerEvent \<Rightarrow> fill_error + Fill option" where
  "executionFromEntry lib e =
     (if ExecutionEvidence e = '''' then Inr None
      else if length (ExecutionEvidence e) > 2 ^ 20 then Inl ErrExecutionIdentityConflict
      else case fl_UnmarshalFill lib (ExecutionEvidence e) of
             None \<Rightarrow> Inl Unmarshal_failed
           | Some fill \<Rightarrow>
               if \<not> fill_in_domain fill then Inl ErrExecutionIdentityConflict
               else case FromFill lib (PortfolioID e) fill (CashCurrency e) (Knowledge e) of
                      Inl err \<Rightarrow> Inl err
                    | Inr x \<Rightarrow>
                        if Type e \<noteq> EntryTrade \<or> EntryID e \<noteq> EntryID x \<or> SourceRef e \<noteq> SourceRef x
                           \<or> VenueAccountID e \<noteq> VenueAccountID x \<or> InstrumentID e \<noteq> InstrumentID x
                           \<or> \<not> exactRat (Quantity e) (Quantity x) \<or> \<not> exactRat (Price e) (Price x)
                           \<or> \<not> exactRat (Cash e) (Cash x) \<or> Effective e \<noteq> Effective x
                           \<or> SettlementBasis e \<noteq> SettlementBasis x \<or> SettlementDate e \<noteq> SettlementDate x
                        then Inl ErrExecutionIdentityConflict
                        else Inr (Some fill))"

definition feeAdjustment :: "fill_lib \<Rightarrow> LedgerEvent \<Rightarrow> Fill \<Rightarrow> rat \<Rightarrow> LedgerEvent" where
  "feeAdjustment lib trade fill delta =
     \<lparr>journalReadPosition = 0, actionStage = 0, ExecutionEvidence = ExecutionEvidence trade,
      EntryID = ''fee-correction:'' @ case_id_of fill @ '':'' @ ExecutionKey lib fill,
      PortfolioID = PortfolioID trade, VenueAccountID = VenueAccountID trade, Type = EntryFee,
      InstrumentID = InstrumentID trade, Quantity = None, Price = None, Cash = Some delta,
      CashCurrency = CashCurrency trade, Action = None, Effective = Effective trade, Knowledge = Knowledge trade,
      SettlementBasis = SettlementBasis trade, SettlementDate = SettlementDate trade, SourceRef = EntryID trade\<rparr>"

section \<open>The walk visits every decimal of a fill\<close>

lemma walkFields_append:
  "snd (walkFields (xs @ ys) path depth) \<longleftrightarrow> snd (walkFields xs path depth) \<and> snd (walkFields ys path depth)"
proof (induction xs)
  case (Cons x xs)
  obtain fd v where "x = (fd, v)" by (cases x)
  then show ?case using Cons by (cases v) (auto simp: Let_def)
qed simp

lemma walk_set_string [simp]: "snd (walkFields (set_string name s) path depth)"
  by (simp add: set_string_def PScalar_def Let_def)

lemma walk_set_sub:
  "snd (walkFields (set_sub name reflect m) path depth)
    \<longleftrightarrow> (case m of None \<Rightarrow> True | Some x \<Rightarrow> snd (walkDomain (reflect x) (child path name) (depth + 1)))"
  by (simp add: set_sub_def PSub_def Let_def split: option.split)

lemma walk_decimal: "depth \<le> 64 \<Longrightarrow> snd (walkDomain (reflect_decimal d) path depth) \<longleftrightarrow> InDomain (Some d)"
  by (auto simp: reflect_decimal_def exponentInDomain_def InDomain_def maxWalkDepth_def maxSafeExponent_def)

lemma walk_sub_decimal:
  "depth < 64 \<Longrightarrow> snd (walkFields (set_sub name reflect_decimal d) path depth) \<longleftrightarrow> InDomain d"
  by (cases d) (simp_all add: walk_set_sub walk_decimal InDomain_def)

lemma walk_timestamp: "depth \<le> 64 \<Longrightarrow> snd (walkDomain (reflect_timestamp t) path depth)"
  by (simp add: reflect_timestamp_def decimalName_def maxWalkDepth_def)

lemma walk_money: "depth < 64 \<Longrightarrow> snd (walkDomain (reflect_money m) path depth) \<longleftrightarrow> InDomain (amount m)"
  by (simp add: reflect_money_def decimalName_def maxWalkDepth_def walkFields_append walk_sub_decimal)

lemma walk_approval:
  "depth < 63 \<Longrightarrow> snd (walkDomain (reflect_approval a) path depth)
    \<longleftrightarrow> (case ap_previous_fee a of None \<Rightarrow> True | Some m \<Rightarrow> InDomain (amount m))"
  by (simp add: reflect_approval_def decimalName_def maxWalkDepth_def walkFields_append walk_set_sub walk_money walk_timestamp
      split: option.split)

lemma walk_recovery:
  "depth < 62 \<Longrightarrow> snd (walkDomain (reflect_recovery r) path depth)
    \<longleftrightarrow> (case rec_fee_approval r of None \<Rightarrow> True
         | Some a \<Rightarrow> (case ap_previous_fee a of None \<Rightarrow> True | Some m \<Rightarrow> InDomain (amount m)))"
  by (simp add: reflect_recovery_def decimalName_def maxWalkDepth_def walkFields_append walk_set_sub walk_approval walk_timestamp
      split: option.split)

lemma fill_in_domain_iff:
  "fill_in_domain f \<longleftrightarrow> InDomain (fill_quantity f) \<and> InDomain (fill_price f) \<and> InDomain (fee_amount f)
    \<and> (case fee_approval_of f of None \<Rightarrow> True
       | Some a \<Rightarrow> (case ap_previous_fee a of None \<Rightarrow> True | Some m \<Rightarrow> InDomain (amount m)))"
proof -
  have side: "snd (walkFields (if fill_side f = SIDE_UNSPECIFIED then [] else [(''side'', PScalar)]) path depth)" for path depth
    by (simp add: PScalar_def Let_def)
  have fee: "snd (walkFields (set_sub ''fee'' reflect_money (fill_fee f)) path 0) \<longleftrightarrow> InDomain (fee_amount f)" for path
    by (simp add: walk_set_sub fee_amount_def walk_money InDomain_def split: option.split)
  have rec: "snd (walkFields (set_sub ''recovery'' reflect_recovery (fill_recovery f)) path 0)
      \<longleftrightarrow> (case fee_approval_of f of None \<Rightarrow> True
           | Some a \<Rightarrow> (case ap_previous_fee a of None \<Rightarrow> True | Some m \<Rightarrow> InDomain (amount m)))" for path
    by (simp add: walk_set_sub fee_approval_of_def walk_recovery split: option.split)
  have at: "snd (walkFields (set_sub ''executed_at'' reflect_timestamp (fill_executed_at f)) path 0)" for path
    by (simp add: walk_set_sub walk_timestamp split: option.split)
  show ?thesis
    by (simp add: fill_in_domain_def InDomainDeep_def reflect_fill_def decimalName_def maxWalkDepth_def walkFields_append
        walk_sub_decimal fee rec at side del: walkFields.simps)
qed

text \<open>On the domain the two conversions of a decimal agree, so comparing is comparing exact values.\<close>

lemma InDomain_FromProto: "InDomain d \<Longrightarrow> FromProto d = dvalue d"
  using InDomain_exponent [of d] by (intro FromProto_dvalue) auto

lemma Cmp_zero: "Cmp a b = 0 \<longleftrightarrow> dvalue a = dvalue b"
  by (auto simp: Cmp_correct bigCmp_def)

section \<open>Identity of an execution\<close>

text \<open>What is traded: the scope of the execution, its side, exact quantity, price and fee, and its time.\<close>

definition economics :: "Fill \<Rightarrow> string \<times> string \<times> string \<times> string \<times> string \<times> Side \<times> string
    \<times> rat option \<times> rat option \<times> rat option \<times> instant option" where
  "economics f = (fill_order_id f, fill_venue f, fill_venue_account_id f, fill_instrument_id f, fill_venue_execution_id f,
     fill_side f, fee_currency f, map_option dval (fill_quantity f), map_option dval (fill_price f),
     map_option dval (fee_amount f), map_option (\<lambda>t. AsTime (Some t)) (fill_executed_at f))"

definition comparable :: "Fill \<Rightarrow> bool" where
  "comparable f \<longleftrightarrow> fill_in_domain f \<and> (fill_executed_at f = None \<or> CheckValid (fill_executed_at f))"

lemma map_dval_eq:
  "map_option dval a = map_option dval b \<longleftrightarrow> (a = None \<longleftrightarrow> b = None) \<and> dvalue a = dvalue b"
  by (cases a; cases b) auto

text \<open>
  \<open>SameExecution\<close> is equality of the economics of two executions: it holds exactly when both fills can
  be compared (every decimal in domain, valid timestamps) and agree on the exact value of quantity,
  price and fee, on side, time, order and the venue's identity of the execution. Different encodings
  of the same decimal, the local fill id and the recovery provenance do not matter.
\<close>

theorem SameExecution_iff:
  "SameExecution (Some a) (Some b) \<longleftrightarrow> comparable a \<and> comparable b \<and> economics a = economics b"
  by (auto simp: SameExecution_def comparable_def economics_def map_dval_eq Cmp_zero split: option.splits)

lemma SameExecution_economics:
  "SameExecution (Some a) (Some b) \<Longrightarrow> fee_currency a = fee_currency b \<and> dvalue (fee_amount a) = dvalue (fee_amount b)"
  by (auto simp: SameExecution_def Cmp_zero split: if_splits)

section \<open>Fee revisions\<close>

lemma FeeRevisionTerms_Inr:
  assumes "FeeRevisionTerms lib revised = Inr previous"
  obtains a where "fee_approval_of revised = Some a" "\<not> SameSubject (fl_strings lib) (ap_proposer a) (ap_approver a)"
    "ap_proposal_id a = case_id_of revised" "fill_in_domain revised"
    "previous = revised\<lparr>fill_fee := ap_previous_fee a, fill_recovery := None\<rparr>"
    "SameExecutionExceptFee (Some previous) (Some revised)" "Cmp (fee_amount previous) (fee_amount revised) \<noteq> 0"
    "EconomicDigest lib (Some previous) = Inr (ap_previous_execution_digest a)"
  using assms by (auto simp: FeeRevisionTerms_def Let_def split: option.splits if_splits sum.splits)

text \<open>
  a fee revision is accepted only on the word of two different people and only for a fee: its
  approval names a proposer and an approver that are not the same subject, belongs to the recovery
  case it arrives with, and its digest is the economic digest of the execution it revises; what it
  revises differs from the revised execution in the fee alone, in the same currency, and the amount
  does change.
\<close>

theorem fee_revision_four_eyes:
  assumes "FeeRevisionTerms lib revised = Inr previous"
  shows "\<exists>a. fee_approval_of revised = Some a
    \<and> \<not> SameSubject (fl_strings lib) (ap_proposer a) (ap_approver a)
    \<and> ap_proposal_id a = case_id_of revised
    \<and> EconomicDigest lib (Some previous) = Inr (ap_previous_execution_digest a)
    \<and> previous\<lparr>fill_fee := fill_fee revised, fill_recovery := fill_recovery revised\<rparr> = revised
    \<and> fee_currency previous = fee_currency revised
    \<and> FromProto (fee_amount previous) \<noteq> FromProto (fee_amount revised)"
proof -
  obtain a where a: "fee_approval_of revised = Some a" "\<not> SameSubject (fl_strings lib) (ap_proposer a) (ap_approver a)"
    "ap_proposal_id a = case_id_of revised" "fill_in_domain revised"
    "previous = revised\<lparr>fill_fee := ap_previous_fee a, fill_recovery := None\<rparr>"
    "SameExecutionExceptFee (Some previous) (Some revised)" "Cmp (fee_amount previous) (fee_amount revised) \<noteq> 0"
    "EconomicDigest lib (Some previous) = Inr (ap_previous_execution_digest a)"
    using assms by (rule FeeRevisionTerms_Inr)
  have "fill_in_domain previous" using a(8) by (auto simp: EconomicDigest_def split: if_splits)
  then have "InDomain (fee_amount previous)" "InDomain (fee_amount revised)"
    using a(4) by (auto simp: fill_in_domain_iff)
  then have "FromProto (fee_amount previous) \<noteq> FromProto (fee_amount revised)"
    using a(7) by (simp add: InDomain_FromProto Cmp_zero)
  moreover have "fee_currency previous = fee_currency revised"
    using a(6) by (auto simp: SameExecutionExceptFee_def split: if_splits)
  ultimately show ?thesis using a by (intro exI [of _ a]) simp
qed

text \<open>
  The revisions a book has recorded for one execution and the cash it has posted for them: a revision
  that is fresh is recorded with its delta, and a replayed or refused one changes nothing.
\<close>

definition post_revision :: "fill_lib \<Rightarrow> Fill \<Rightarrow> Fill list \<times> rat \<Rightarrow> Fill \<Rightarrow> Fill list \<times> rat" where
  "post_revision lib original book revised =
     (case CheckMemoryFeeRevision lib original (fst book) revised of
        Inr (delta, True) \<Rightarrow> (fst book @ [revised], snd book + delta)
      | _ \<Rightarrow> book)"

lemma CheckMemoryFeeRevision_fresh:
  assumes "CheckMemoryFeeRevision lib original revs revised = Inr (delta, True)"
  shows "delta = FromProto (fee_amount (MemoryFeeHead original revs)) - FromProto (fee_amount revised)
    \<and> length revs < MaxMemoryFeeRevisions \<and> prior_case revs revised = None"
  using assms by (auto simp: CheckMemoryFeeRevision_def ApprovedFeeDelta_def split: if_splits sum.splits option.splits)

lemma prior_case_None: "prior_case revs r = None \<longleftrightarrow> case_id_of r \<notin> case_id_of ` set revs"
  by (induction revs) auto

text \<open>
  C27: fee corrections telescope. Whatever sequence of revisions is delivered, in any order and with
  redeliveries, the cash posted for them is exactly the original fee less the fee of the last recorded
  revision; no case is recorded twice, and at most 128 revisions are recorded. So trade cash plus
  corrections is the trade at its current fee, even when a fee returns to an earlier value.
\<close>

theorem fee_corrections_telescope:
  fixes lib original revisions
  defines "book \<equiv> foldl (post_revision lib original) ([], 0) revisions"
  shows "snd book = FromProto (fee_amount original) - FromProto (fee_amount (MemoryFeeHead original (fst book)))
    \<and> distinct (map case_id_of (fst book)) \<and> length (fst book) \<le> MaxMemoryFeeRevisions"
proof -
  have "snd (foldl (post_revision lib original) b revisions)
      = FromProto (fee_amount original) - FromProto (fee_amount (MemoryFeeHead original (fst (foldl (post_revision lib original) b revisions))))
    \<and> distinct (map case_id_of (fst (foldl (post_revision lib original) b revisions)))
    \<and> length (fst (foldl (post_revision lib original) b revisions)) \<le> MaxMemoryFeeRevisions"
    if "snd b = FromProto (fee_amount original) - FromProto (fee_amount (MemoryFeeHead original (fst b)))"
      "distinct (map case_id_of (fst b))" "length (fst b) \<le> MaxMemoryFeeRevisions" for b
    using that
  proof (induction revisions arbitrary: b)
    case (Cons r rs)
    show ?case
    proof (cases "\<exists>delta. CheckMemoryFeeRevision lib original (fst b) r = Inr (delta, True)")
      case True
      then obtain delta where d: "CheckMemoryFeeRevision lib original (fst b) r = Inr (delta, True)" ..
      note f = CheckMemoryFeeRevision_fresh [OF d]
      have step: "post_revision lib original b r = (fst b @ [r], snd b + delta)" by (simp add: post_revision_def d)
      have "distinct (map case_id_of (fst b @ [r]))" using f Cons.prems(2) by (simp add: prior_case_None)
      then show ?thesis
        unfolding foldl_Cons step using f Cons.prems by (intro Cons.IH) (auto simp: MemoryFeeHead_def)
    next
      case False
      then have "post_revision lib original b r = b"
        by (auto simp: post_revision_def split: sum.split prod.split bool.split)
      then show ?thesis using Cons by simp
    qed
  qed simp
  then show ?thesis by (simp add: book_def MemoryFeeHead_def MaxMemoryFeeRevisions_def)
qed

section \<open>Booking a fill\<close>

lemma FromProto_pos: "IsPositive d \<Longrightarrow> 0 < FromProto d"
  by (cases d) (auto simp: IsPositive_def sign_def get_coefficient_def FromProto_def Let_def split: if_splits simp del: of_int_sint)

lemma FromProto_None: "FromProto None = 0"
  by (simp add: FromProto_def)

lemma FromFill_Inr:
  assumes "FromFill lib p f ccy k = Inr e"
  obtains fee evidence where "Validate f = None" "MoneyIn (fill_fee f) ccy = Inr fee" "fl_MarshalFill lib f = Some evidence"
    "Quantity e = Some (if fill_side f = SIDE_SELL then - FromProto (fill_quantity f) else FromProto (fill_quantity f))"
    "Price e = Some (FromProto (fill_price f))"
    "Cash e = Some ((if fill_side f = SIDE_SELL then FromProto (fill_quantity f) * FromProto (fill_price f)
       else - (FromProto (fill_quantity f) * FromProto (fill_price f))) - fee)"
    "ExecutionEvidence e = evidence" "EntryID e = ''fill:'' @ ExecutionKey lib f" "PortfolioID e = p" "CashCurrency e = ccy"
    "Knowledge e = k" "Type e = EntryTrade" "Action e = None" "actionStage e = 0" "SettlementBasis e = SettlementSettled"
    "VenueAccountID e = fill_venue_account_id f" "InstrumentID e = fill_instrument_id f" "SourceRef e = fill_id f"
    "SettlementDate e = Effective e"
  using assms
  by (auto simp: FromFill_def Let_def fillSettlement_def split: option.splits sum.splits)

text \<open>
  C26: the journal entry of a fill is a balanced double entry. It is made exactly for a fill that is
  identified, at a venue and of positive quantity, whose fee is zero or in the cash currency; then the
  position leg is the executed quantity with the sign of the side, the cash leg is minus quantity times
  price less the fee, both legs are settled, and the entry is a trade under the execution's identity.
\<close>

theorem FromFill_double_entry:
  assumes "FromFill lib portfolio f ccy knowledge = Inr e"
  shows "fill_id f \<noteq> '''' \<and> fill_venue f \<noteq> ''''
    \<and> orZero (Quantity e) = (if fill_side f = SIDE_SELL then - 1 else 1) * FromProto (fill_quantity f)
    \<and> 0 < FromProto (fill_quantity f)
    \<and> orZero (Cash e) + orZero (Quantity e) * orZero (Price e) + FromProto (fee_amount f) = 0
    \<and> (FromProto (fee_amount f) = 0 \<or> fee_currency f = CashCurrency e)
    \<and> settles e \<and> Type e = EntryTrade \<and> PortfolioID e = portfolio \<and> EntryID e = ''fill:'' @ ExecutionKey lib f"
proof -
  obtain fee evidence where e: "Validate f = None" "MoneyIn (fill_fee f) ccy = Inr fee"
    "Quantity e = Some (if fill_side f = SIDE_SELL then - FromProto (fill_quantity f) else FromProto (fill_quantity f))"
    "Price e = Some (FromProto (fill_price f))"
    "Cash e = Some ((if fill_side f = SIDE_SELL then FromProto (fill_quantity f) * FromProto (fill_price f)
       else - (FromProto (fill_quantity f) * FromProto (fill_price f))) - fee)"
    "EntryID e = ''fill:'' @ ExecutionKey lib f" "PortfolioID e = portfolio" "CashCurrency e = ccy"
    "Type e = EntryTrade" "SettlementBasis e = SettlementSettled"
    using assms by (rule FromFill_Inr)
  have v: "fill_id f \<noteq> ''''" "fill_venue f \<noteq> ''''" "IsPositive (fill_quantity f)"
    using e(1) by (auto simp: Validate_def split: if_splits)
  have "fee = FromProto (fee_amount f) \<and> (FromProto (fee_amount f) = 0 \<or> fee_currency f = ccy)"
    using e(2) by (auto simp: MoneyIn_def fee_amount_def fee_currency_def FromProto_None sgn_0_0 Let_def split: option.splits if_splits)
  then show ?thesis using e v FromProto_pos [OF v(3)] by (simp add: orZero_def settles_def)
qed

text \<open>
  an entry and the execution evidence it carries bind each other. The entry made from a fill whose
  decimals are in domain and whose encoding decodes to it is recognised with that fill; and whatever
  entry is recognised with a fill agrees with the entry made from that fill in identity, account,
  instrument, both legs, time and settlement, so evidence cannot be attached to other economics.
\<close>

theorem execution_evidence_binds:
  "(FromFill lib portfolio f ccy knowledge = Inr e \<and> fill_in_domain f \<and> ExecutionEvidence e \<noteq> ''''
      \<and> length (ExecutionEvidence e) \<le> 2 ^ 20 \<and> fl_UnmarshalFill lib (ExecutionEvidence e) = Some f
    \<longrightarrow> executionFromEntry lib e = Inr (Some f))
   \<and> (executionFromEntry lib x = Inr (Some f) \<longrightarrow>
      (\<exists>y. FromFill lib (PortfolioID x) f (CashCurrency x) (Knowledge x) = Inr y
        \<and> Type x = EntryTrade \<and> EntryID x = EntryID y \<and> SourceRef x = SourceRef y \<and> VenueAccountID x = VenueAccountID y
        \<and> InstrumentID x = InstrumentID y \<and> Quantity x = Quantity y \<and> Price x = Price y \<and> Cash x = Cash y
        \<and> Effective x = Effective y \<and> SettlementBasis x = SettlementBasis y \<and> SettlementDate x = SettlementDate y))"
proof (intro conjI impI)
  assume h: "FromFill lib portfolio f ccy knowledge = Inr e \<and> fill_in_domain f \<and> ExecutionEvidence e \<noteq> ''''
      \<and> length (ExecutionEvidence e) \<le> 2 ^ 20 \<and> fl_UnmarshalFill lib (ExecutionEvidence e) = Some f"
  then have "PortfolioID e = portfolio" "CashCurrency e = ccy" "Knowledge e = knowledge" "Type e = EntryTrade"
    by (auto elim: FromFill_Inr)
  then show "executionFromEntry lib e = Inr (Some f)"
    using h by (auto simp: executionFromEntry_def exactRat_def split: option.split)
next
  assume "executionFromEntry lib x = Inr (Some f)"
  then show "\<exists>y. FromFill lib (PortfolioID x) f (CashCurrency x) (Knowledge x) = Inr y
        \<and> Type x = EntryTrade \<and> EntryID x = EntryID y \<and> SourceRef x = SourceRef y \<and> VenueAccountID x = VenueAccountID y
        \<and> InstrumentID x = InstrumentID y \<and> Quantity x = Quantity y \<and> Price x = Price y \<and> Cash x = Cash y
        \<and> Effective x = Effective y \<and> SettlementBasis x = SettlementBasis y \<and> SettlementDate x = SettlementDate y"
    by (auto simp: executionFromEntry_def exactRat_def split: option.splits sum.splits if_splits)
qed

text \<open>
  A fill without an execution time is not booked at the time the book learnt of it: the nil timestamp
  reads as the epoch, not as the zero time the fallback tests.
\<close>

lemma fill_without_time_is_1970:
  assumes "FromFill lib p f ccy k = Inr e" and "fill_executed_at f = None"
  shows "Effective e = 62135596800 * 1000000000 \<and> RFC3339 (Effective e) = ''1970-01-01T00:00:00Z''"
proof -
  have "Effective e = 62135596800 * 1000000000"
    using assms by (auto simp: FromFill_def Let_def AsTime_def unixToInternal_def split: option.splits sum.splits)
  then show ?thesis using RFC3339_samples(2) by simp
qed

section \<open>Samples\<close>

definition sample_execution :: Fill where
  "sample_execution = (sample_fill 2 0)\<lparr>fill_venue_account_id := ''acct'', fill_venue_execution_id := ''x1'',
     fill_fee := Some \<lparr>amount = Some \<lparr>coefficient = 1, exponent = 0\<rparr>, currency_code = ''USD''\<rparr>,
     fill_executed_at := Some \<lparr>ts_seconds = 100, ts_nanos = 0\<rparr>\<rparr>"

definition fl0 :: fill_lib where
  "fl0 = \<lparr>fl_sha256 = (\<lambda>_. replicate 32 CHR 0x00), fl_MarshalKey = concat, fl_MarshalFill = (\<lambda>_. Some ''bytes''),
     fl_UnmarshalFill = (\<lambda>_. Some sample_execution), fl_strings = ascii_lib\<rparr>"

definition sample_approval :: ExecutionFeeApproval where
  "sample_approval = \<lparr>ap_proposal_id = ''c'', ap_digest = hex_encode (replicate 32 CHR 0x00), ap_proposer = ''p'',
     ap_approver = ''q'', ap_approved_at = Some \<lparr>ts_seconds = 200, ts_nanos = 0\<rparr>,
     ap_previous_execution_digest = hex_encode (replicate 32 CHR 0x00), ap_previous_fee = fill_fee sample_execution\<rparr>"

definition sample_revision :: Fill where
  "sample_revision = sample_execution\<lparr>fill_fee := Some \<lparr>amount = Some \<lparr>coefficient = 3, exponent = 0\<rparr>, currency_code = ''USD''\<rparr>,
     fill_recovery := Some \<lparr>rec_case_id = ''c'', rec_mapping_version = [], rec_source_cursor = [], rec_payload_digest = [],
       rec_observed_at = None, rec_execution_digest = [],
       rec_fee_approval = Some sample_approval\<rparr>\<rparr>"

lemma sample_execution_booked:
  "\<exists>e. FromFill fl0 ''fund'' sample_execution ''USD'' 7 = Inr e \<and> Cash e = Some (- 19) \<and> ExecutionEvidence e = ''bytes''"
  by (simp add: FromFill_def Validate_def sample_execution_def sample_fill_def fl0_def IsPositive_def sign_def get_coefficient_def
      MoneyIn_def FromProto_def Let_def)

lemma sample_in_domain: "fill_in_domain sample_execution" "fill_in_domain sample_revision"
  by (simp_all add: fill_in_domain_iff InDomain_def fee_amount_def fee_approval_of_def sample_execution_def sample_revision_def
      sample_approval_def sample_fill_def maxSafeExponent_def)

theorem FromFill_double_entry_witness:
  "\<exists>e. FromFill fl0 ''fund'' sample_execution ''USD'' 7 = Inr e
     \<and> orZero (Cash e) + orZero (Quantity e) * orZero (Price e) + FromProto (fee_amount sample_execution) = 0"
  using sample_execution_booked FromFill_double_entry by metis

theorem execution_evidence_binds_witness:
  "\<exists>e. FromFill fl0 ''fund'' sample_execution ''USD'' 7 = Inr e \<and> executionFromEntry fl0 e = Inr (Some sample_execution)"
proof -
  obtain e where e: "FromFill fl0 ''fund'' sample_execution ''USD'' 7 = Inr e" "ExecutionEvidence e = ''bytes''"
    using sample_execution_booked by auto
  moreover have "fl_UnmarshalFill fl0 ''bytes'' = Some sample_execution" by (simp add: fl0_def)
  ultimately have "executionFromEntry fl0 e = Inr (Some sample_execution)"
    using execution_evidence_binds [of fl0 "''fund''" sample_execution "''USD''" 7 e e] sample_in_domain by simp
  then show ?thesis using e by blast
qed

lemma hex_encode_zeros: "hex_encode (replicate n CHR 0x00) = replicate (2 * n) CHR ''0''"
  by (induction n) (simp_all add: hex_digit_def)

lemma is_hex_zeros: "hex_decoded_len (hex_encode (replicate 32 CHR 0x00)) = Some 32"
  unfolding hex_encode_zeros by (simp add: hex_decoded_len_def is_hex_def list_all_iff)

lemma sample_revision_terms:
  "FeeRevisionTerms fl0 sample_revision = Inr (sample_revision\<lparr>fill_fee := fill_fee sample_execution, fill_recovery := None\<rparr>)"
proof -
  let ?p = "sample_revision\<lparr>fill_fee := fill_fee sample_execution, fill_recovery := None\<rparr>"
  have p: "?p = sample_execution" by (simp add: sample_revision_def sample_execution_def sample_fill_def)
  have t: "CheckValid (fill_executed_at sample_execution)" "Unix (AsTime (fill_executed_at sample_execution)) = 100"
    by (simp_all add: sample_execution_def CheckValid_def Unix_def AsTime_def unixToInternal_def)
  have key: "ExecutionKey fl0 sample_execution \<noteq> fill_id sample_execution"
    by (simp add: ExecutionKey_def sample_execution_def sample_fill_def)
  have dig: "EconomicDigest fl0 (Some sample_execution) = Inr (hex_encode (replicate 32 CHR 0x00))"
    using sample_in_domain(1) key t
    by (simp add: EconomicDigest_def Digest_def fl0_def fee_amount_def fee_currency_def)
       (simp add: sample_execution_def sample_fill_def IsPositive_def sign_def get_coefficient_def)
  have "SameExecutionExceptFee (Some sample_execution) (Some sample_revision)"
    using t by (simp add: SameExecutionExceptFee_def SameExecution_def fill_in_domain_iff InDomain_def maxSafeExponent_def Cmp_zero fee_amount_def
        fee_currency_def fee_approval_of_def)
       (simp add: sample_execution_def sample_revision_def sample_approval_def sample_fill_def InDomain_def maxSafeExponent_def fee_amount_def)
  moreover have "Cmp (fee_amount sample_execution) (fee_amount sample_revision) \<noteq> 0"
    by (simp add: Cmp_zero fee_amount_def sample_execution_def sample_revision_def dval_def)
  moreover have "fee_approval_of sample_revision = Some sample_approval" "case_id_of sample_revision = ''c''"
    by (simp_all add: fee_approval_of_def case_id_of_def sample_revision_def)
  moreover have "fill_fee sample_execution \<noteq> None" by (simp add: sample_execution_def)
  moreover have "CheckValid (ap_approved_at sample_approval)" "Unix (AsTime (ap_approved_at sample_approval)) = 200"
    by (simp_all add: sample_approval_def CheckValid_def Unix_def AsTime_def unixToInternal_def)
  moreover have "TrimSpace (fl_strings fl0) ''p'' = ''p''" "TrimSpace (fl_strings fl0) ''q'' = ''q''"
    "\<not> SameSubject (fl_strings fl0) ''p'' ''q''"
    by (simp_all add: fl0_def ascii_lib_def SameSubject_def normalize_def)
  ultimately show ?thesis
    using dig p sample_in_domain(2) is_hex_zeros
    by (simp add: FeeRevisionTerms_def sample_approval_def)
qed

theorem fee_revision_four_eyes_witness:
  "\<exists>a. fee_approval_of sample_revision = Some a \<and> \<not> SameSubject (fl_strings fl0) (ap_proposer a) (ap_approver a)"
  using fee_revision_four_eyes [OF sample_revision_terms] by blast

end
