(* ===== verification/Ledger_Store.thy ===== *)
theory Ledger_Store
  imports Fill_Fact Outbox_Relay "HOL-Library.AList"
begin

text \<open>
  The journal store of the book of record (\<open>services/accounting/internal/ledger/store.go\<close>) and the
  checkpoint job (\<open>snapshot.go\<close>): snapshots and their restoration, the materialization of the current
  book from a checkpoint and the journal tail, the in-memory store with its append under the lock, and
  the concurrent checkpoint workers. The contract a reader gets from any store is the locale
  \<open>ledger_history\<close>, in which materialization is shown to be the full replay; it is interpreted on every
  history of the in-memory store.

  A Go map keyed by portfolio that the code iterates is an association list. The announcer is a
  function of the store it may read; the instant at which records are enqueued is an argument.
\<close>

section \<open>Snapshots\<close>

record Snapshot =
  s_commitPrefix :: bool
  JournalPosition :: int
  NextEffective :: instant
  ActionCount :: int
  s_PortfolioID :: string
  s_Positions :: "string \<rightharpoonup> lot"
  s_Cash :: "string \<rightharpoonup> rat"
  s_Accrued :: "string \<rightharpoonup> rat"
  Through :: instant
  MaxEffective :: instant
  s_SettledPositions :: "string \<rightharpoonup> lot"
  s_SettledCash :: "string \<rightharpoonup> rat"
  SettlementStated :: bool
  UnknownSettlement :: int
  PendingSettlement :: int

text \<open>Copying every key of a map into another: the copies are fresh, so only the contents matter.\<close>

definition copyPositions :: "(string \<rightharpoonup> 'v) \<Rightarrow> (string \<rightharpoonup> 'v) \<Rightarrow> (string \<rightharpoonup> 'v)" where
  "copyPositions dst src = dst ++ src"

definition Book_Snapshot :: "Book \<Rightarrow> instant \<Rightarrow> Snapshot" where
  "Book_Snapshot b through =
     \<lparr>s_commitPrefix = commitPrefix b, JournalPosition = journalPosition b, NextEffective = nextEffective b,
      ActionCount = actionCount b, s_PortfolioID = bPortfolioID b,
      s_Positions = copyPositions Map.empty (Positions b), s_Cash = copyPositions Map.empty (bCash b),
      s_Accrued = copyPositions Map.empty (Accrued b), Through = through, MaxEffective = maxEffective b,
      s_SettledPositions = copyPositions Map.empty (SettledPositions b),
      s_SettledCash = copyPositions Map.empty (SettledCash b), SettlementStated = settlementStated b,
      UnknownSettlement = unknownSettlement b, PendingSettlement = pendingSettlement b\<rparr>"

definition RestoreBook :: "Snapshot \<Rightarrow> Book" where
  "RestoreBook s =
     (let b = NewBook (s_PortfolioID s)
      in b\<lparr>commitPrefix := s_commitPrefix s, journalPosition := JournalPosition s, actionCount := ActionCount s,
           nextEffective := NextEffective s, maxEffective := MaxEffective s,
           Positions := copyPositions (Positions b) (s_Positions s),
           SettledPositions := copyPositions (SettledPositions b) (s_SettledPositions s),
           bCash := copyPositions (bCash b) (s_Cash s), SettledCash := copyPositions (SettledCash b) (s_SettledCash s),
           Accrued := copyPositions (Accrued b) (s_Accrued s), settlementStated := SettlementStated s,
           unknownSettlement := UnknownSettlement s, pendingSettlement := PendingSettlement s\<rparr>)"

datatype FullScanReason =
  Bounded | FullScanNoSnapshot | FullScanActionRevision | FullScanFutureSnapshot | FullScanDueSnapshot
  | FullScanBackdatedTail | FullScanUnfencedSnapshot

datatype store_error =
  Empty_entry_id | Execution_refused fill_error | ErrCashConflict | Action_refused action_error
  | ErrLegacyExecutionUnknown | ErrNoSnapshot | ErrStaleSnapshot | ErrStaleActionSnapshot | Empty_portfolio
  | No_fence | Context_cancelled | Announce_failed string | Outbox_failed string

section \<open>Materializing the current book\<close>

text \<open>The reads of the \<open>Store\<close> interface.\<close>

record Store =
  Journal :: "string \<Rightarrow> store_error + LedgerEvent list"
  JournalSince :: "string \<Rightarrow> int \<Rightarrow> store_error + LedgerEvent list"
  LoadSnapshot :: "string \<Rightarrow> store_error + Snapshot"

definition replayAll :: "ledger_lib \<Rightarrow> Store \<Rightarrow> string \<Rightarrow> instant \<Rightarrow> store_error + Book" where
  "replayAll lib st portfolioID now =
     (case Journal st portfolioID of Inl err \<Rightarrow> Inl err | Inr events \<Rightarrow> Inr (ReplayAsOf lib portfolioID events now 0))"

definition scanned :: "FullScanReason \<Rightarrow> store_error + Book \<Rightarrow> store_error + (Book \<times> FullScanReason)" where
  "scanned reason r = (case r of Inl err \<Rightarrow> Inl err | Inr b \<Rightarrow> Inr (b, reason))"

text \<open>The loop over the tail: the first entry that forces a full scan names the reason.\<close>

fun tail_reason :: "Snapshot \<Rightarrow> LedgerEvent list \<Rightarrow> FullScanReason" where
  "tail_reason snap [] = Bounded"
| "tail_reason snap (e # es) =
     (if Type e = EntryCorporateAction then FullScanActionRevision
      else if \<not> Effective e > MaxEffective snap then FullScanBackdatedTail
      else tail_reason snap es)"

definition materializeCurrentAt :: "ledger_lib \<Rightarrow> Store \<Rightarrow> string \<Rightarrow> instant \<Rightarrow> store_error + (Book \<times> FullScanReason)" where
  "materializeCurrentAt lib st portfolioID now =
     (case LoadSnapshot st portfolioID of
        Inl err \<Rightarrow>
          if err \<noteq> ErrNoSnapshot then Inl err
          else scanned FullScanNoSnapshot (replayAll lib st portfolioID now)
      | Inr snap \<Rightarrow>
          if MaxEffective snap = 0 \<or> JournalPosition snap \<le> 0
            then scanned FullScanUnfencedSnapshot (replayAll lib st portfolioID now)
          else if NextEffective snap \<noteq> 0 \<and> \<not> now < NextEffective snap
            then scanned FullScanDueSnapshot (replayAll lib st portfolioID now)
          else if MaxEffective snap > now
            then scanned FullScanFutureSnapshot (replayAll lib st portfolioID now)
          else case JournalSince st portfolioID (JournalPosition snap) of
                 Inl err \<Rightarrow> Inl err
               | Inr tail \<Rightarrow>
                   let reason = tail_reason snap tail in
                   if reason \<noteq> Bounded then scanned reason (replayAll lib st portfolioID now)
                   else
                     let b = RestoreBook snap;
                         completePrefix = commitPrefix b;
                         b = applyUntil lib b tail now 0;
                         b = b\<lparr>journalPosition := journalPosition b + countJournalEntries portfolioID tail 0\<rparr>;
                         b = b\<lparr>commitPrefix := completePrefix \<and> hasJournalReadPosition portfolioID tail (journalPosition b)\<rparr>
                     in Inr (b, Bounded))"

section \<open>The in-memory store\<close>

record MemoryStore =
  journal :: "(string \<times> LedgerEvent list) list"
  m_seen :: "string \<rightharpoonup> LedgerEvent"
  snapshots :: "string \<rightharpoonup> Snapshot"
  outbox :: Memory

definition NewMemoryStore :: MemoryStore where
  "NewMemoryStore = \<lparr>journal = [], m_seen = Map.empty, snapshots = Map.empty, outbox = NewMemory\<rparr>"

definition entries :: "MemoryStore \<Rightarrow> string \<Rightarrow> LedgerEvent list" where
  "entries m portfolio = (case map_of (journal m) portfolio of None \<Rightarrow> [] | Some es \<Rightarrow> es)"

text \<open>\<open>memoryReader\<close>: the store as its own announcer sees it, with the entry that is being appended.\<close>

definition reader_JournalSince :: "MemoryStore \<Rightarrow> LedgerEvent option \<Rightarrow> string \<Rightarrow> int \<Rightarrow> store_error + LedgerEvent list" where
  "reader_JournalSince m pend portfolioID after =
     (let src = entries m portfolioID in
      if after < 0 \<or> after > int (length src) then Inl ErrStaleSnapshot
      else
        let mine = (case pend of None \<Rightarrow> [] | Some e \<Rightarrow> if PortfolioID e = portfolioID then [e] else []);
            position = int (length src + length mine)
        in Inr (map (\<lambda>e. e\<lparr>journalReadPosition := position\<rparr>) (drop (nat after) src @ mine)))"

definition reader_LoadSnapshot :: "MemoryStore \<Rightarrow> LedgerEvent option \<Rightarrow> string \<Rightarrow> store_error + Snapshot" where
  "reader_LoadSnapshot m pend portfolioID =
     (if (case pend of None \<Rightarrow> False | Some e \<Rightarrow> Type e = EntryCorporateAction \<and> PortfolioID e = portfolioID)
      then Inl ErrNoSnapshot
      else case snapshots m portfolioID of None \<Rightarrow> Inl ErrNoSnapshot | Some s \<Rightarrow> Inr s)"

definition memoryReader :: "MemoryStore \<Rightarrow> LedgerEvent option \<Rightarrow> Store" where
  "memoryReader m pend =
     \<lparr>Journal = (\<lambda>p. reader_JournalSince m pend p 0), JournalSince = reader_JournalSince m pend,
      LoadSnapshot = reader_LoadSnapshot m pend\<rparr>"

definition currentBook :: "ledger_lib \<Rightarrow> MemoryStore \<Rightarrow> string \<Rightarrow> instant \<Rightarrow> store_error + (Book \<times> FullScanReason)" where
  "currentBook lib m portfolioID now = materializeCurrentAt lib (memoryReader m None) portfolioID now"

type_synonym Announcer = "Store \<Rightarrow> string + Record list"

text \<open>The announcement of an append: what the announcer returns is enqueued.\<close>

definition announce_to :: "instant \<Rightarrow> Announcer \<Rightarrow> Store \<Rightarrow> MemoryStore \<Rightarrow> store_error option \<times> MemoryStore" where
  "announce_to now announce st m =
     (case announce st of
        Inl err \<Rightarrow> (Some (Announce_failed err), m)
      | Inr records \<Rightarrow>
          (case mem_Append now records (outbox m) of
             (err, q) \<Rightarrow> (map_option Outbox_failed err, m\<lparr>outbox := q\<rparr>)))"

text \<open>The corporate-action branch: \<open>Inr True\<close> when the entry is a redelivery.\<close>

definition later_revision :: "string \<Rightarrow> LedgerEvent option \<Rightarrow> LedgerEvent \<Rightarrow> LedgerEvent option" where
  "later_revision action head old =
     (case Action old of
        None \<Rightarrow> head
      | Some oa \<Rightarrow>
          if ActionID oa = action
             \<and> (case head of None \<Rightarrow> True | Some h \<Rightarrow> (case Action h of None \<Rightarrow> True | Some ha \<Rightarrow> Revision oa > Revision ha))
          then Some old else head)"

definition check_action :: "ledger_lib \<Rightarrow> MemoryStore \<Rightarrow> LedgerEvent \<Rightarrow> store_error + bool" where
  "check_action lib m e =
     (if Type e \<noteq> EntryCorporateAction then Inr False
      else case ValidateActionEntry lib e of
        Some err \<Rightarrow> Inl (Action_refused err)
      | None \<Rightarrow>
        (case m_seen m (EntryID e) of
           Some old \<Rightarrow>
             if Action old = None \<or> \<not> sameActionEntry lib e old then Inl (Action_refused ErrActionConflict) else Inr True
         | None \<Rightarrow>
             let action = (case Action e of None \<Rightarrow> '''' | Some a \<Rightarrow> ActionID a) in
             (case checkActionRevision lib e (foldl (later_revision action) None (entries m (PortfolioID e))) of
                Inl err \<Rightarrow> Inl (Action_refused err)
              | Inr _ \<Rightarrow> Inr False)))"

text \<open>The fee revisions the journal of a portfolio holds for an execution, in commit order.\<close>

fun journal_revisions :: "fill_lib \<Rightarrow> Fill \<Rightarrow> LedgerEvent list \<Rightarrow> Fill list \<Rightarrow> fill_error + Fill list" where
  "journal_revisions flib fill [] acc = Inr acc"
| "journal_revisions flib fill (entry # es) acc =
     (if ExecutionEvidence entry = '''' then journal_revisions flib fill es acc
      else case fl_UnmarshalFill flib (ExecutionEvidence entry) of
        None \<Rightarrow> Inl Unmarshal_failed
      | Some revision \<Rightarrow>
          if ExecutionKey flib revision = ExecutionKey flib fill \<and> fee_approval_of revision \<noteq> None
          then if length acc \<ge> MaxMemoryFeeRevisions then Inl ErrFeeRevision
               else journal_revisions flib fill es (acc @ [revision])
          else journal_revisions flib fill es acc)"

text \<open>The execution branch: the entry to commit, a fee adjustment when an approved revision is new.\<close>

definition booked_execution :: "fill_lib \<Rightarrow> MemoryStore \<Rightarrow> LedgerEvent \<Rightarrow> Fill \<Rightarrow> LedgerEvent \<Rightarrow> store_error + LedgerEvent" where
  "booked_execution flib m e fill original =
     (if ExecutionEvidence original = '''' then Inl ErrLegacyExecutionUnknown
      else case executionFromEntry flib original of
        Inl err \<Rightarrow> Inl (Execution_refused err)
      | Inr oldFill \<Rightarrow>
        if PortfolioID original \<noteq> PortfolioID e then Inl (Execution_refused ErrExecutionIdentityConflict)
        else case journal_revisions flib fill (entries m (PortfolioID e)) [] of
          Inl err \<Rightarrow> Inl (Execution_refused err)
        | Inr revisions \<Rightarrow>
          (case oldFill of
             None \<Rightarrow> Inl (Execution_refused ErrExecutionIdentityConflict)
           | Some old \<Rightarrow>
             if fee_approval_of fill \<noteq> None then
               (case CheckMemoryFeeRevision flib old revisions fill of
                  Inl err \<Rightarrow> Inl (Execution_refused err)
                | Inr (delta, fresh) \<Rightarrow> Inr (if fresh then feeAdjustment flib e fill delta else e))
             else if \<not> SameExecution (Some (MemoryFeeHead old revisions)) (Some fill)
                  \<and> \<not> (fill_recovery fill = None \<and> SameExecution (Some old) (Some fill))
               then Inl (Execution_refused ErrExecutionIdentityConflict)
             else Inr e))"

definition check_execution :: "fill_lib \<Rightarrow> MemoryStore \<Rightarrow> LedgerEvent \<Rightarrow> Fill option \<Rightarrow> store_error + LedgerEvent" where
  "check_execution flib m e fill =
     (case fill of
        None \<Rightarrow> Inr e
      | Some f \<Rightarrow>
        let legacy = ''fill:'' @ fill_id f in
        if legacy \<noteq> EntryID e \<and> m_seen m legacy \<noteq> None then Inl ErrLegacyExecutionUnknown
        else case (case m_seen m (EntryID e) of None \<Rightarrow> Inr e | Some original \<Rightarrow> booked_execution flib m e f original) of
          Inl err \<Rightarrow> Inl err
        | Inr e' \<Rightarrow>
            if fee_approval_of f \<noteq> None then
              (case FeeRevisionTerms flib f of Inl err \<Rightarrow> Inl (Execution_refused err) | Inr _ \<Rightarrow> Inr e')
            else Inr e')"

text \<open>The end of \<open>Append\<close>: a known entry is a no-op, a new one is announced, then committed.\<close>

definition commit :: "instant \<Rightarrow> Announcer option \<Rightarrow> bool \<Rightarrow> LedgerEvent \<Rightarrow> MemoryStore \<Rightarrow> store_error option \<times> MemoryStore" where
  "commit now announce recovered e m =
     (if m_seen m (EntryID e) \<noteq> None then
        if isCashMovement e \<and> list_ex (\<lambda>old. EntryID old = EntryID e \<and> \<not> sameCash e old) (concat (map snd (journal m)))
          then (Some ErrCashConflict, m)
        else case (recovered, announce) of
               (True, Some a) \<Rightarrow> announce_to now a (memoryReader m None) m
             | _ \<Rightarrow> (None, m)
      else
        case (case announce of None \<Rightarrow> (None, m) | Some a \<Rightarrow> announce_to now a (memoryReader m (Some e)) m) of
          (Some err, m') \<Rightarrow> (Some err, m')
        | (None, m') \<Rightarrow>
            (None, m'\<lparr>m_seen := (m_seen m')(EntryID e \<mapsto> e),
                     journal := AList.update (PortfolioID e) (entries m' (PortfolioID e) @ [e]) (journal m'),
                     snapshots := (if Type e = EntryCorporateAction then (snapshots m')(PortfolioID e := None) else snapshots m')\<rparr>))"

definition Append :: "ledger_lib \<Rightarrow> fill_lib \<Rightarrow> instant \<Rightarrow> Announcer option \<Rightarrow> LedgerEvent \<Rightarrow> MemoryStore \<Rightarrow> store_error option \<times> MemoryStore" where
  "Append lib flib now announce e m =
     (if EntryID e = '''' then (Some Empty_entry_id, m)
      else case executionFromEntry flib e of
        Inl err \<Rightarrow> (Some (Execution_refused err), m)
      | Inr fill \<Rightarrow>
        let e = e\<lparr>journalReadPosition := 0\<rparr> in
        if isCashMovement e \<and> \<not> validCashEntry e then (Some ErrCashConflict, m)
        else case check_action lib m e of
          Inl err \<Rightarrow> (Some err, m)
        | Inr redelivered \<Rightarrow>
          if redelivered then (None, m)
          else case check_execution flib m e fill of
            Inl err \<Rightarrow> (Some err, m)
          | Inr e \<Rightarrow> commit now announce (case fill of None \<Rightarrow> False | Some f \<Rightarrow> fill_recovery f \<noteq> None) e m)"

definition mem_StalePortfolios :: "instant \<Rightarrow> int \<Rightarrow> MemoryStore \<Rightarrow> string list" where
  "mem_StalePortfolios now limit m =
     (let stale = sort (map fst (filter (\<lambda>(p, es).
            case snapshots m p of
              None \<Rightarrow> True
            | Some snap \<Rightarrow> JournalPosition snap \<noteq> int (length es) \<or> (NextEffective snap \<noteq> 0 \<and> \<not> now < NextEffective snap))
          (journal m)))
      in if limit > 0 \<and> int (length stale) > limit then take (nat limit) stale else stale)"

definition SaveSnapshot :: "Snapshot \<Rightarrow> MemoryStore \<Rightarrow> store_error option \<times> MemoryStore" where
  "SaveSnapshot snap m =
     (if s_PortfolioID snap = '''' then (Some Empty_portfolio, m)
      else if MaxEffective snap = 0 then (Some No_fence, m)
      else if ActionCount snap \<noteq> countActionEntries (s_PortfolioID snap) (entries m (s_PortfolioID snap)) 0
        then (Some ErrStaleActionSnapshot, m)
      else if JournalPosition snap > int (length (entries m (s_PortfolioID snap))) \<or> JournalPosition snap \<le> 0
           \<or> \<not> s_commitPrefix snap then (Some ErrStaleSnapshot, m)
      else if (case snapshots m (s_PortfolioID snap) of None \<Rightarrow> False | Some cur \<Rightarrow> JournalPosition snap < JournalPosition cur)
        then (None, m)
      else (None, m\<lparr>snapshots := (snapshots m)(s_PortfolioID snap \<mapsto> snap\<lparr>s_commitPrefix := True\<rparr>)\<rparr>))"

section \<open>The checkpoint job\<close>

text \<open>
  \<open>checkpoint\<close> reads the journal in one view and saves what it folds in another: \<open>checkpoint_of\<close> is what
  it does between the two.
\<close>

definition through_of :: "LedgerEvent list \<Rightarrow> instant" where
  "through_of events = foldl (\<lambda>t e. if Knowledge e > t then Knowledge e else t) 0 events"

definition checkpoint_of :: "ledger_lib \<Rightarrow> instant \<Rightarrow> string \<Rightarrow> LedgerEvent list \<Rightarrow> Snapshot" where
  "checkpoint_of lib now portfolioID events =
     Book_Snapshot (ReplayAsOf lib portfolioID events now 0) (through_of events)"

definition save_checkpoint :: "ledger_lib \<Rightarrow> instant \<Rightarrow> string \<Rightarrow> LedgerEvent list \<Rightarrow> MemoryStore \<Rightarrow> store_error option \<times> MemoryStore" where
  "save_checkpoint lib now portfolioID events m =
     (if events = [] then (None, m) else SaveSnapshot (checkpoint_of lib now portfolioID events) m)"

definition checkpoint :: "ledger_lib \<Rightarrow> instant \<Rightarrow> string \<Rightarrow> MemoryStore \<Rightarrow> store_error option \<times> MemoryStore" where
  "checkpoint lib now portfolioID m =
     (case Journal (memoryReader m None) portfolioID of
        Inl err \<Rightarrow> (Some err, m)
      | Inr events \<Rightarrow> save_checkpoint lib now portfolioID events m)"

text \<open>
  One pass of the job over the stale portfolios: how many checkpoints were written and the first error.
  \<open>ctxErr\<close> tells whether the context is cancelled when a portfolio is reached.
\<close>

fun checkpoint_all :: "ledger_lib \<Rightarrow> (string \<Rightarrow> bool) \<Rightarrow> instant \<Rightarrow> string list \<Rightarrow> nat \<Rightarrow> store_error option \<Rightarrow> MemoryStore
    \<Rightarrow> (nat \<times> store_error option) \<times> MemoryStore" where
  "checkpoint_all lib ctxErr now [] written firstErr m = ((written, firstErr), m)"
| "checkpoint_all lib ctxErr now (p # ps) written firstErr m =
     (if ctxErr p then ((written, Some Context_cancelled), m)
      else case checkpoint lib now p m of
        (Some err, m') \<Rightarrow> checkpoint_all lib ctxErr now ps written (if firstErr = None then Some err else firstErr) m'
      | (None, m') \<Rightarrow> checkpoint_all lib ctxErr now ps (written + 1) firstErr m')"

definition Once :: "ledger_lib \<Rightarrow> (string \<Rightarrow> bool) \<Rightarrow> instant \<Rightarrow> int \<Rightarrow> MemoryStore \<Rightarrow> (nat \<times> store_error option) \<times> MemoryStore" where
  "Once lib ctxErr now batch m = checkpoint_all lib ctxErr now (mem_StalePortfolios now batch m) 0 None m"

section \<open>Specification vocabulary\<close>

definition HasSuffix :: "string \<Rightarrow> string \<Rightarrow> bool" where
  "HasSuffix s p \<longleftrightarrow> length p \<le> length s \<and> drop (length s - length p) s = p"

text \<open>
  What the producers of journal entries keep to: only corporate-action entries carry an action, the
  replay-only stage is never set, and the suffix that replay gives to a payment stage is not used for
  an entry of its own.
\<close>

definition wf_entry :: "LedgerEvent \<Rightarrow> bool" where
  "wf_entry e \<longleftrightarrow> actionStage e = 0 \<and> (Action e \<noteq> None \<longrightarrow> Type e = EntryCorporateAction) \<and> \<not> HasSuffix (EntryID e) '':payment''"

definition journal_wf :: "string \<Rightarrow> LedgerEvent list \<Rightarrow> bool" where
  "journal_wf p es \<longleftrightarrow> (\<forall>e \<in> set es. wf_entry e \<and> PortfolioID e = p \<and> EntryID e \<noteq> '''') \<and> distinct (map EntryID es)"

definition stamp :: "int \<Rightarrow> LedgerEvent \<Rightarrow> LedgerEvent" where
  "stamp n e = e\<lparr>journalReadPosition := n\<rparr>"

text \<open>A snapshot that some checkpoint pass took of a prefix of the journal.\<close>

definition checkpoint_prefix :: "ledger_lib \<Rightarrow> string \<Rightarrow> LedgerEvent list \<Rightarrow> Snapshot \<Rightarrow> bool" where
  "checkpoint_prefix lib p es s \<longleftrightarrow>
     (\<exists>n taken. 0 \<le> taken \<and> n \<le> length es \<and> JournalPosition s = int n
        \<and> view (RestoreBook s) = view (ReplayAsOf lib p (take n es) taken 0)
        \<and> MaxEffective s = maxEffective (ReplayAsOf lib p (take n es) taken 0)
        \<and> NextEffective s = nextEffective (ReplayAsOf lib p (take n es) taken 0))"

section \<open>Restoring and stamping\<close>

lemma copyPositions_empty [simp]: "copyPositions Map.empty m = m"
  by (simp add: copyPositions_def)

lemma view_RestoreBook: "view (RestoreBook (Book_Snapshot b t)) = view b"
  by (simp add: view_def RestoreBook_def Book_Snapshot_def Let_def NewBook_def)

lemma seen_RestoreBook [simp]: "seen (RestoreBook s) = {}"
  by (simp add: RestoreBook_def Let_def)

lemma stamp_fields [simp]:
  "EntryID (stamp n e) = EntryID e" "PortfolioID (stamp n e) = PortfolioID e" "Type (stamp n e) = Type e"
  "Action (stamp n e) = Action e" "Effective (stamp n e) = Effective e" "Knowledge (stamp n e) = Knowledge e"
  "actionStage (stamp n e) = actionStage e" "fold_key (stamp n e) = fold_key e" "due t (stamp n e) = due t e"
  "InstrumentID (stamp n e) = InstrumentID e" "Quantity (stamp n e) = Quantity e" "Price (stamp n e) = Price e"
  "Cash (stamp n e) = Cash e" "CashCurrency (stamp n e) = CashCurrency e" "SettlementBasis (stamp n e) = SettlementBasis e"
  "wf_entry (stamp n e) = wf_entry e" "knowable t (stamp n e) = knowable t e"
  by (simp_all add: stamp_def fold_key_def due_def wf_entry_def knowable_def)

lemma Apply_stamp: "Apply lib b (stamp n e) = Apply lib b e"
proof -
  have s: "settles (stamp n e) = settles e" by (simp add: settles_def)
  have f: "fold_bases (stamp n e) g c = fold_bases e g c" for g c by (simp add: fold_bases_def s)
  have k: "count_basis (stamp n e) c = count_basis e c" for c by (simp add: count_basis_def)
  have "position_leg (stamp n e) c = position_leg e c" "cash_leg (stamp n e) c = cash_leg e c"
    "foldIncome lib (stamp n e) a c = foldIncome lib e a c" "mark_folded (stamp n e) c = mark_folded e c" for a c
    by (simp_all add: position_leg_def cash_leg_def foldIncome_def mark_folded_def f s Let_def split: option.split)
  then show ?thesis
    by (simp add: Apply_def ignored_def cancelled_def fold_entry_def f k split: EntryType.split option.split)
qed

lemma sort_key_map: "sort_key f (map g xs) = map g (sort_key (\<lambda>x. f (g x)) xs)"
proof (induction xs)
  case (Cons x xs)
  have "insort_key f (g x) (map g ys) = map g (insort_key (\<lambda>x. f (g x)) x ys)" for ys by (induction ys) auto
  then show ?case using Cons by simp
qed simp

lemma stage_entry_stamp: "stage_entry h (stamp n e) = map (stamp n) (stage_entry h e)"
  by (cases e) (simp add: stage_entry_def stamp_def split: option.split)

lemma action_heads_stamp: "action_heads (map (stamp n) es) k = action_heads es k"
proof -
  have "record_head h (stamp n e) = record_head h e" for h e by (simp add: record_head_def split: option.split)
  then show ?thesis by (simp add: action_heads_def filter_map o_def foldl_map)
qed

lemma actionEvents_stamp: "actionEvents (map (stamp n) es) k = map (stamp n) (actionEvents es k)"
  by (simp add: actionEvents_def action_heads_stamp filter_map o_def stage_entry_stamp map_concat)

lemma sortedFor_stamp: "sortedFor (map (stamp n) es) 0 0 True = map (stamp n) (sortedFor es 0 0 True)"
  by (simp add: sortedFor_unbounded actionEvents_stamp sort_key_map)

lemma applyUntil_stamp: "applyUntil lib b (map (stamp n) es) now 0 = applyUntil lib b es now 0"
proof -
  have "until_step lib now b (stamp n e) = until_step lib now b e" for b e
    by (simp add: until_step_def Apply_stamp)
  then show ?thesis by (simp add: applyUntil_def sortedFor_stamp foldl_map)
qed

lemma ReplayAsOf_stamp:
  "view (ReplayAsOf lib p (map (stamp n) es) now 0) = view (ReplayAsOf lib p es now 0)"
  "maxEffective (ReplayAsOf lib p (map (stamp n) es) now 0) = maxEffective (ReplayAsOf lib p es now 0)"
  "nextEffective (ReplayAsOf lib p (map (stamp n) es) now 0) = nextEffective (ReplayAsOf lib p es now 0)"
  by (simp_all add: ReplayAsOf_def Let_def applyUntil_stamp with_counts_def view_def)

section \<open>Staged identities\<close>

lemma HasSuffix_append [simp]: "HasSuffix (x @ p) p"
  by (simp add: HasSuffix_def)

lemma journal_wf_append: "journal_wf p (xs @ ys) \<Longrightarrow> journal_wf p xs \<and> journal_wf p ys \<and> EntryID ` set xs \<inter> EntryID ` set ys = {}"
  by (auto simp: journal_wf_def)

lemma journal_wf_take: "journal_wf p es \<Longrightarrow> journal_wf p (take n es)"
  using journal_wf_append [of p "take n es" "drop n es"] by simp

lemma staged_ids_cons:
  assumes "i \<in> EntryID ` set (concat (map (stage_entry h) es))"
  shows "i \<in> EntryID ` set es \<or> (\<exists>e \<in> set es. i = EntryID e @ '':payment'')"
proof -
  obtain e x where "e \<in> set es" "x \<in> set (stage_entry h e)" "i = EntryID x" using assms by auto
  then show ?thesis by (auto simp: stage_entry_def split: option.splits if_splits)
qed

lemma staged_ids_distinct:
  assumes "journal_wf p es"
  shows "distinct (map EntryID (actionEvents es 0))"
proof -
  have "distinct (map EntryID (concat (map (stage_entry h) es)))" if "journal_wf p es" for h es
    using that
  proof (induction es)
    case (Cons e es)
    have e: "distinct (map EntryID (stage_entry h e))"
      by (auto simp: stage_entry_def split: option.split)
    have ids: "EntryID ` set (stage_entry h e) \<subseteq> {EntryID e, EntryID e @ '':payment''}"
      by (auto simp: stage_entry_def split: option.splits if_splits)
    have wf: "journal_wf p es" using Cons.prems by (simp add: journal_wf_def)
    have no: "\<not> HasSuffix (EntryID x) '':payment''" if "x \<in> set (e # es)" for x
      using Cons.prems that by (auto simp: journal_wf_def wf_entry_def)
    have "EntryID e \<notin> EntryID ` set es" using Cons.prems by (simp add: journal_wf_def)
    then have "i \<notin> EntryID ` set (concat (map (stage_entry h) es))" if "i \<in> {EntryID e, EntryID e @ '':payment''}" for i
      using that staged_ids_cons [of i h es] no HasSuffix_append [of _ "'':payment''"]
      by (auto simp: image_iff) (metis HasSuffix_append list.set_intros)+
    then show ?case using e ids Cons.IH [OF wf] by (auto simp: distinct_append)
  qed simp
  from this [OF assms, of "action_heads es 0"] show ?thesis by (simp add: actionEvents_def)
qed

lemma staged_ids_tail:
  assumes "journal_wf p (xs @ ys)"
  shows "EntryID ` set ys \<inter> EntryID ` set (actionEvents xs 0) = {}"
proof -
  have "i \<notin> EntryID ` set ys" if "i \<in> EntryID ` set (actionEvents xs 0)" for i
  proof
    assume "i \<in> EntryID ` set ys"
    then obtain y where y: "y \<in> set ys" "i = EntryID y" by auto
    have "i \<in> EntryID ` set xs \<or> (\<exists>e \<in> set xs. i = EntryID e @ '':payment'')"
      using that staged_ids_cons [of i "action_heads xs 0" xs] by (simp add: actionEvents_def)
    moreover have "\<not> HasSuffix (EntryID y) '':payment''" using assms y by (simp add: journal_wf_def wf_entry_def)
    ultimately show False using journal_wf_append [OF assms] y by auto
  qed
  then show ?thesis by blast
qed

section \<open>The contract of a checkpointed history\<close>

lemma tail_reason_Bounded:
  "tail_reason s es = Bounded \<Longrightarrow> \<forall>e \<in> set es. Type e \<noteq> EntryCorporateAction \<and> MaxEffective s < Effective e"
  by (induction es) (auto split: if_splits)

lemma view_updates_counts [simp]:
  "view (b\<lparr>journalPosition := n\<rparr>) = view b" "view (b\<lparr>commitPrefix := c\<rparr>) = view b"
  by (simp_all add: view_def)

text \<open>
  What a reader relies on, for every history \<open>h\<close> the store may have been through: the journal is read
  whole or from a position, stamped with its length; a snapshot, when there is one, is a checkpoint of
  a prefix; and the journal is well formed.
\<close>

locale ledger_history =
  fixes lib :: ledger_lib
    and reader :: "'h \<Rightarrow> Store"
    and committed :: "'h \<Rightarrow> string \<Rightarrow> LedgerEvent list"
    and valid :: "'h \<Rightarrow> bool"
  assumes read_all: "valid h \<Longrightarrow> Journal (reader h) p = Inr (map (stamp (int (length (committed h p)))) (committed h p))"
    and read_since: "valid h \<Longrightarrow> 0 \<le> n \<Longrightarrow> n \<le> int (length (committed h p)) \<Longrightarrow>
      JournalSince (reader h) p n = Inr (map (stamp (int (length (committed h p)))) (drop (nat n) (committed h p)))"
    and read_snapshot: "valid h \<Longrightarrow> LoadSnapshot (reader h) p = Inr s \<Longrightarrow> checkpoint_prefix lib p (committed h p) s"
    and read_no_snapshot: "valid h \<Longrightarrow> LoadSnapshot (reader h) p = Inl err \<Longrightarrow> err = ErrNoSnapshot"
    and read_wf: "valid h \<Longrightarrow> journal_wf p (committed h p)"
begin

lemma full_scan:
  "valid h \<Longrightarrow> scanned reason (replayAll lib (reader h) p now)
    = Inr (ReplayAsOf lib p (map (stamp (int (length (committed h p)))) (committed h p)) now 0, reason)"
  by (simp add: scanned_def replayAll_def read_all)

lemma resumed:
  assumes "valid h" and "0 < now" and s: "checkpoint_prefix lib p (committed h p) s"
    and "MaxEffective s \<noteq> 0" and "\<not> (NextEffective s \<noteq> 0 \<and> \<not> now < NextEffective s)" and "\<not> MaxEffective s > now"
    and "tail_reason s (drop (nat (JournalPosition s)) (committed h p)) = Bounded"
  shows "view (applyUntil lib (RestoreBook s) (drop (nat (JournalPosition s)) (committed h p)) now 0)
    = view (ReplayAsOf lib p (committed h p) now 0)"
proof -
  let ?es = "committed h p"
  obtain n taken where n: "0 \<le> taken" "n \<le> length ?es" "JournalPosition s = int n"
    "view (RestoreBook s) = view (ReplayAsOf lib p (take n ?es) taken 0)"
    "MaxEffective s = maxEffective (ReplayAsOf lib p (take n ?es) taken 0)"
    "NextEffective s = nextEffective (ReplayAsOf lib p (take n ?es) taken 0)"
    using s by (auto simp: checkpoint_prefix_def)
  have wf: "journal_wf p (take n ?es @ drop n ?es)" using read_wf [OF assms(1)] by simp
  have "\<forall>e \<in> set (drop n ?es). Type e \<noteq> EntryCorporateAction \<and> MaxEffective s < Effective e"
    using tail_reason_Bounded [OF assms(7)] by (simp add: n(3))
  moreover have "Action e = None" if "e \<in> set (drop n ?es)" "Type e \<noteq> EntryCorporateAction" for e
  proof -
    have "journal_wf p (drop n ?es)" using journal_wf_append [OF wf] by blast
    then show ?thesis using that by (auto simp: journal_wf_def wf_entry_def)
  qed
  ultimately have tail: "\<forall>e \<in> set (drop n ?es). Type e \<noteq> EntryCorporateAction \<and> Action e = None
      \<and> maxEffective (ReplayAsOf lib p (take n ?es) taken 0) < Effective e"
    unfolding n(5) [symmetric] by blast
  have "view (applyUntil lib (RestoreBook s) (drop n ?es) now 0) = view (ReplayAsOf lib p (take n ?es @ drop n ?es) now 0)"
  proof (rule resume_is_replay [where taken = taken])
    show "maxEffective (ReplayAsOf lib p (take n ?es) taken 0) \<noteq> 0" "maxEffective (ReplayAsOf lib p (take n ?es) taken 0) \<le> now"
      using assms(4,6) by (simp_all add: n(5))
    show "nextEffective (ReplayAsOf lib p (take n ?es) taken 0) = 0 \<or> now < nextEffective (ReplayAsOf lib p (take n ?es) taken 0)"
      using assms(5) by (simp add: n(6))
    show "distinct (map EntryID (actionEvents (take n ?es) 0))"
      by (rule staged_ids_distinct [OF journal_wf_take [OF read_wf [OF assms(1)]]])
  qed (use n(1,4) assms(2) tail staged_ids_tail [OF wf] in simp_all)
  then show ?thesis by (simp add: n(3))
qed

lemma materialize_is_replay:
  assumes "valid h" and "0 < now"
  shows "\<exists>b reason. materializeCurrentAt lib (reader h) p now = Inr (b, reason)
    \<and> view b = view (ReplayAsOf lib p (committed h p) now 0)"
proof (cases "LoadSnapshot (reader h) p")
  case (Inl err)
  then have "err = ErrNoSnapshot" using assms(1) by (rule read_no_snapshot [rotated])
  then show ?thesis using assms(1) Inl by (simp add: materializeCurrentAt_def full_scan ReplayAsOf_stamp)
next
  case (Inr s)
  note s = read_snapshot [OF assms(1) Inr]
  have pos: "0 \<le> JournalPosition s" "JournalPosition s \<le> int (length (committed h p))"
    using s by (auto simp: checkpoint_prefix_def)
  let ?stamped = "map (stamp (int (length (committed h p)))) (drop (nat (JournalPosition s)) (committed h p))"
  have tail: "JournalSince (reader h) p (JournalPosition s) = Inr ?stamped" using read_since [OF assms(1) pos] .
  have reason: "tail_reason s ?stamped = tail_reason s (drop (nat (JournalPosition s)) (committed h p))"
  proof -
    have "tail_reason s (map (stamp n) es) = tail_reason s es" for n es by (induction es) auto
    then show ?thesis by simp
  qed
  show ?thesis
  proof (cases "MaxEffective s = 0 \<or> JournalPosition s \<le> 0 \<or> (NextEffective s \<noteq> 0 \<and> \<not> now < NextEffective s)
      \<or> MaxEffective s > now \<or> tail_reason s ?stamped \<noteq> Bounded")
    case True
    then show ?thesis
      using assms(1) by (simp add: materializeCurrentAt_def Inr tail Let_def full_scan ReplayAsOf_stamp) blast
  next
    case False
    then have "view (applyUntil lib (RestoreBook s) ?stamped now 0) = view (ReplayAsOf lib p (committed h p) now 0)"
      unfolding applyUntil_stamp using reason by (intro resumed [OF assms s]) auto
    moreover have "\<not> (NextEffective s \<noteq> 0 \<and> \<not> now < NextEffective s)" using False by blast
    ultimately show ?thesis using False by (simp add: materializeCurrentAt_def Inr tail Let_def) blast
  qed
qed

end


section \<open>The in-memory store under concurrent appends and checkpoints\<close>

text \<open>
  Checkpoint workers read the journal and save what they folded in two separate views of the store;
  appends and other workers may come between. A history is a list of such steps.
\<close>

record ledger_system =
  the_store :: MemoryStore
  inflight :: "nat \<rightharpoonup> string \<times> LedgerEvent list"

datatype store_op =
  OpAppend instant "Announcer option" LedgerEvent
| OpRead nat string
| OpSave nat instant

fun store_step :: "ledger_lib \<Rightarrow> fill_lib \<Rightarrow> ledger_system \<Rightarrow> store_op \<Rightarrow> ledger_system" where
  "store_step lib flib s (OpAppend now announce e) = s\<lparr>the_store := snd (Append lib flib now announce e (the_store s))\<rparr>"
| "store_step lib flib s (OpRead worker p) =
     (case Journal (memoryReader (the_store s) None) p of
        Inl _ \<Rightarrow> s | Inr es \<Rightarrow> s\<lparr>inflight := (inflight s)(worker \<mapsto> (p, es))\<rparr>)"
| "store_step lib flib s (OpSave worker now) =
     (case inflight s worker of
        None \<Rightarrow> s
      | Some (p, es) \<Rightarrow> s\<lparr>the_store := snd (save_checkpoint lib now p es (the_store s)), inflight := (inflight s)(worker := None)\<rparr>)"

definition run_store :: "ledger_lib \<Rightarrow> fill_lib \<Rightarrow> store_op list \<Rightarrow> ledger_system" where
  "run_store lib flib ops = foldl (store_step lib flib) \<lparr>the_store = NewMemoryStore, inflight = Map.empty\<rparr> ops"

fun valid_op :: "store_op \<Rightarrow> bool" where
  "valid_op (OpAppend _ _ e) = wf_entry e"
| "valid_op (OpRead _ _) = True"
| "valid_op (OpSave _ now) = (0 \<le> now)"

definition store_ok :: "ledger_lib \<Rightarrow> ledger_system \<Rightarrow> bool" where
  "store_ok lib s \<longleftrightarrow>
     (\<forall>p. journal_wf p (entries (the_store s) p) \<and> (\<forall>e \<in> set (entries (the_store s) p). m_seen (the_store s) (EntryID e) \<noteq> None))
     \<and> (\<forall>p sn. snapshots (the_store s) p = Some sn \<longrightarrow> checkpoint_prefix lib p (entries (the_store s) p) sn)
     \<and> (\<forall>w p es. inflight s w = Some (p, es) \<longrightarrow>
          (\<exists>n \<le> length (entries (the_store s) p). es = map (stamp (int n)) (take n (entries (the_store s) p))))"

lemma entries_outbox [simp]: "entries (m\<lparr>outbox := q\<rparr>) p = entries m p"
  by (simp add: entries_def)

lemma same_outbox [simp]: "\<exists>q. m = m\<lparr>outbox := q\<rparr>" for m :: MemoryStore
  by (rule exI [of _ "outbox m"]) simp

lemma announce_to_outbox: "\<exists>q. snd (announce_to now a st m) = m\<lparr>outbox := q\<rparr>"
  by (auto simp: announce_to_def split: sum.split prod.split)

text \<open>What a committed entry changes of the store, apart from the outbox.\<close>

definition committed_to :: "MemoryStore \<Rightarrow> LedgerEvent \<Rightarrow> MemoryStore" where
  "committed_to m e = m\<lparr>m_seen := (m_seen m)(EntryID e \<mapsto> e),
     journal := AList.update (PortfolioID e) (entries m (PortfolioID e) @ [e]) (journal m),
     snapshots := (if Type e = EntryCorporateAction then (snapshots m)(PortfolioID e := None) else snapshots m)\<rparr>"

lemma commit_cases:
  "(\<exists>q. snd (commit now announce recovered e m) = m\<lparr>outbox := q\<rparr>)
    \<or> (m_seen m (EntryID e) = None \<and> (\<exists>q. snd (commit now announce recovered e m) = committed_to (m\<lparr>outbox := q\<rparr>) e))"
proof (cases "m_seen m (EntryID e) = None")
  case True
  let ?r = "case announce of None \<Rightarrow> (None, m) | Some a \<Rightarrow> announce_to now a (memoryReader m (Some e)) m"
  obtain err m' where r: "?r = (err, m')" by (cases ?r)
  obtain q where q: "m' = m\<lparr>outbox := q\<rparr>"
  proof (cases announce)
    case None
    then have "m' = m" using r by simp
    then show ?thesis using that [of "outbox m"] by simp
  next
    case (Some a)
    then show ?thesis using r announce_to_outbox [of now a "memoryReader m (Some e)" m] that by auto
  qed
  show ?thesis using True r q by (cases err) (auto simp: commit_def committed_to_def)
next
  case False
  have "\<exists>q. snd (commit now announce recovered e m) = m\<lparr>outbox := q\<rparr>"
    using False announce_to_outbox by (auto simp: commit_def split: option.split bool.split)
  then show ?thesis ..
qed


text \<open>
  What \<open>Append\<close> does to the store: nothing but enqueue, or one entry is committed: the caller's, or the
  fee adjustment of an approved revision.
\<close>

definition appended_entry :: "fill_lib \<Rightarrow> LedgerEvent \<Rightarrow> LedgerEvent \<Rightarrow> bool" where
  "appended_entry flib e x \<longleftrightarrow> x = stamp 0 e \<and> EntryID e \<noteq> ''''
     \<or> (\<exists>fill previous delta. FeeRevisionTerms flib fill = Inr previous \<and> x = feeAdjustment flib (stamp 0 e) fill delta)"

lemma check_execution_entry:
  assumes "check_execution flib m e fill = Inr x" and "EntryID e0 \<noteq> ''''" and "e = stamp 0 e0"
  shows "appended_entry flib e0 x"
proof (cases "x = e")
  case True
  then show ?thesis using assms by (simp add: appended_entry_def)
next
  case False
  then obtain f original where f: "fill = Some f" "m_seen m (EntryID e) = Some original" "booked_execution flib m e f original = Inr x"
    using assms(1) by (auto simp: check_execution_def Let_def split: option.splits if_splits sum.splits)
  obtain delta where d: "fee_approval_of f \<noteq> None" "x = feeAdjustment flib e f delta"
    using f(3) False by (auto simp: booked_execution_def split: option.splits if_splits sum.splits prod.splits)
  obtain previous where "FeeRevisionTerms flib f = Inr previous"
    using assms(1) f d(1) by (auto simp: check_execution_def Let_def split: option.splits if_splits sum.splits)
  then show ?thesis using d assms(3) by (auto simp: appended_entry_def)
qed

lemma Append_cases:
  "(\<exists>q. snd (Append lib flib now announce e m) = m\<lparr>outbox := q\<rparr>)
    \<or> (\<exists>x q. appended_entry flib e x \<and> m_seen m (EntryID x) = None
        \<and> snd (Append lib flib now announce e m) = committed_to (m\<lparr>outbox := q\<rparr>) x)"
proof (cases "\<exists>fill x. EntryID e \<noteq> '''' \<and> check_execution flib m (stamp 0 e) fill = Inr x
    \<and> snd (Append lib flib now announce e m)
      = snd (commit now announce (case fill of None \<Rightarrow> False | Some f \<Rightarrow> fill_recovery f \<noteq> None) x m)")
  case True
  then obtain fill x where x: "EntryID e \<noteq> ''''" "check_execution flib m (stamp 0 e) fill = Inr x"
    "snd (Append lib flib now announce e m)
      = snd (commit now announce (case fill of None \<Rightarrow> False | Some f \<Rightarrow> fill_recovery f \<noteq> None) x m)" by blast
  then show ?thesis
    using commit_cases [of now announce "case fill of None \<Rightarrow> False | Some f \<Rightarrow> fill_recovery f \<noteq> None" x m]
      check_execution_entry [OF x(2) x(1) refl] by auto
next
  case False
  have "snd (Append lib flib now announce e m) = m"
  proof (rule ccontr)
    assume h: "snd (Append lib flib now announce e m) \<noteq> m"
    then obtain fill x where "EntryID e \<noteq> ''''" "check_execution flib m (stamp 0 e) fill = Inr x"
      "Append lib flib now announce e m
        = commit now announce (case fill of None \<Rightarrow> False | Some f \<Rightarrow> fill_recovery f \<noteq> None) x m"
      by (auto simp: Append_def Let_def stamp_def split: if_splits sum.splits)
    then show False using False by metis
  qed
  then show ?thesis using same_outbox [of m] by simp
qed

text \<open>A fee adjustment is well formed: the execution it corrects has a scoped identity.\<close>

lemma HasSuffix_last: "HasSuffix s p \<Longrightarrow> p \<noteq> [] \<Longrightarrow> s \<noteq> [] \<and> last s = last p"
  by (auto simp: HasSuffix_def) (metis last_drop diff_less length_greater_0_conv length_0_conv le_zero_eq)

lemma hex_encode_chars: "c \<in> set (hex_encode bytes) \<Longrightarrow> c \<in> set ''0123456789abcdef''"
proof (induction bytes)
  case (Cons b bs)
  have "of_char b div 16 < (16 :: nat)" using of_char_lt [of b] by (simp add: less_mult_imp_div_less)
  note digits = hex_digit_mem [OF this] hex_digit_mem [of "of_char b mod 16"]
  have "c = hex_digit (of_char b div 16) \<or> c = hex_digit (of_char b mod 16) \<or> c \<in> set (hex_encode bs)"
    using Cons.prems by simp
  then show ?case using digits Cons.IH by (metis mod_less_divisor zero_less_numeral)
qed simp

lemma scoped_key_last:
  assumes "EconomicDigest flib (Some previous) = Inr d"
  shows "ExecutionKey flib previous \<noteq> [] \<and> last (ExecutionKey flib previous) \<noteq> CHR ''t''"
proof -
  have "ExecutionKey flib previous \<noteq> fill_id previous" using assms by (auto simp: EconomicDigest_def split: if_splits)
  then obtain bytes where k: "ExecutionKey flib previous = ''execution:v1:'' @ hex_encode bytes"
    by (auto simp: ExecutionKey_def split: if_splits)
  have "last (hex_encode bytes) \<noteq> CHR ''t''" if "hex_encode bytes \<noteq> []"
    using hex_encode_chars [OF last_in_set [OF that]] by auto
  then show ?thesis by (cases "hex_encode bytes = []") (auto simp: k)
qed

lemma appended_entry_wf:
  assumes "appended_entry flib e x" and "wf_entry e"
  shows "wf_entry x \<and> PortfolioID x = PortfolioID e \<and> EntryID x \<noteq> ''''"
proof (cases "x = stamp 0 e \<and> EntryID e \<noteq> ''''")
  case False
  then obtain fill previous delta where x: "FeeRevisionTerms flib fill = Inr previous" "x = feeAdjustment flib (stamp 0 e) fill delta"
    using assms(1) by (auto simp: appended_entry_def)
  obtain fee d where a: "previous = fill\<lparr>fill_fee := fee, fill_recovery := None\<rparr>"
    "EconomicDigest flib (Some previous) = Inr d"
    using x(1) by (auto elim!: FeeRevisionTerms_Inr)
  have "ExecutionKey flib previous = ExecutionKey flib fill" by (simp add: a(1) ExecutionKey_def)
  then have "\<not> HasSuffix (EntryID x) '':payment''"
    using scoped_key_last [OF a(2)] HasSuffix_last [of "EntryID x" "'':payment''"] by (auto simp: x(2) feeAdjustment_def)
  then show ?thesis by (simp add: x(2) feeAdjustment_def wf_entry_def)
qed (use assms in simp)


section \<open>Every history keeps the contract\<close>

lemma entries_committed:
  "entries (committed_to m e) p = (if p = PortfolioID e then entries m p @ [e] else entries m p)"
  by (simp add: committed_to_def entries_def update_conv)

lemma checkpoint_prefix_append: "checkpoint_prefix lib p es s \<Longrightarrow> checkpoint_prefix lib p (es @ xs) s"
proof -
  assume "checkpoint_prefix lib p es s"
  then obtain n t0 where n: "0 \<le> t0" "n \<le> length es" "JournalPosition s = int n"
    "view (RestoreBook s) = view (ReplayAsOf lib p (take n es) t0 0)"
    "MaxEffective s = maxEffective (ReplayAsOf lib p (take n es) t0 0)"
    "NextEffective s = nextEffective (ReplayAsOf lib p (take n es) t0 0)"
    unfolding checkpoint_prefix_def by blast
  have "take n (es @ xs) = take n es" using n(2) by simp
  then show ?thesis unfolding checkpoint_prefix_def using n by (intro exI [of _ n] exI [of _ t0]) simp
qed

lemma store_ok_append:
  assumes ok: "store_ok lib s" and x: "wf_entry x" "EntryID x \<noteq> ''''" "m_seen (the_store s) (EntryID x) = None"
  shows "store_ok lib (s\<lparr>the_store := committed_to ((the_store s)\<lparr>outbox := q\<rparr>) x\<rparr>)"
proof -
  let ?m = "the_store s" and ?m' = "committed_to ((the_store s)\<lparr>outbox := q\<rparr>) x"
  have ent: "entries ?m' p = (if p = PortfolioID x then entries ?m p @ [x] else entries ?m p)" for p
    by (simp add: entries_committed)
  have seen': "m_seen ?m' i = (if i = EntryID x then Some x else m_seen ?m i)" for i
    by (simp add: committed_to_def)
  have old: "journal_wf p (entries ?m p)" "\<forall>e \<in> set (entries ?m p). m_seen ?m (EntryID e) \<noteq> None" for p
    using ok by (auto simp: store_ok_def)
  have "EntryID x \<notin> EntryID ` set (entries ?m p)" for p using old(2) [of p] x(3) by auto
  then have 1: "journal_wf p (entries ?m' p) \<and> (\<forall>e \<in> set (entries ?m' p). m_seen ?m' (EntryID e) \<noteq> None)" for p
    using old [of p] x by (auto simp: ent seen' journal_wf_def)
  have 2: "checkpoint_prefix lib p (entries ?m' p) sn" if "snapshots ?m' p = Some sn" for p sn
  proof -
    have "snapshots ?m p = Some sn" using that by (auto simp: committed_to_def split: if_splits)
    then have "checkpoint_prefix lib p (entries ?m p) sn" using ok by (simp add: store_ok_def)
    then show ?thesis by (auto simp: ent intro: checkpoint_prefix_append)
  qed
  have 3: "\<exists>n \<le> length (entries ?m' p). es = map (stamp (int n)) (take n (entries ?m' p))" if read: "inflight s w = Some (p, es)" for w p es
  proof -
    obtain n where "n \<le> length (entries ?m p)" "es = map (stamp (int n)) (take n (entries ?m p))"
      using ok read unfolding store_ok_def by blast
    then show ?thesis by (intro exI [of _ n]) (auto simp: ent)
  qed
  show ?thesis unfolding store_ok_def using 1 2 3 by simp
qed

lemma journal_count:
  assumes "journal_wf p es"
  shows "countJournalEntries p (map (stamp n) es) 0 = int (length es)"
proof -
  have "filter (\<lambda>e. PortfolioID e = p \<and> actionStage e \<noteq> 2 \<and> knowable 0 e) (map (stamp n) es) = map (stamp n) es"
    using assms by (intro filter_True) (auto simp: journal_wf_def wf_entry_def)
  moreover have "distinct (map EntryID (map (stamp n) es))" using assms by (simp add: journal_wf_def o_def)
  ultimately show ?thesis by (simp add: countJournalEntries_def distinct_remdups_id)
qed

lemma checkpoint_of_prefix:
  assumes "journal_wf p es" and "n \<le> length es" and "0 \<le> t0"
  shows "checkpoint_prefix lib p es ((checkpoint_of lib t0 p (map (stamp (int n)) (take n es)))\<lparr>s_commitPrefix := c\<rparr>)"
proof -
  let ?b = "ReplayAsOf lib p (map (stamp (int n)) (take n es)) t0 0"
  let ?s = "(checkpoint_of lib t0 p (map (stamp (int n)) (take n es)))\<lparr>s_commitPrefix := c\<rparr>"
  have "journalPosition ?b = int n"
    using journal_count [OF journal_wf_take [OF assms(1)], of "int n" n] assms(2)
    by (simp add: ReplayAsOf_def with_counts_def Let_def)
  moreover have "view (RestoreBook ?s) = view ?b"
    by (simp add: checkpoint_of_def RestoreBook_def Book_Snapshot_def view_def Let_def NewBook_def)
  ultimately show ?thesis
    unfolding checkpoint_prefix_def using assms(2,3)
    by (intro exI [of _ n] exI [of _ t0]) (simp add: ReplayAsOf_stamp checkpoint_of_def Book_Snapshot_def)
qed

lemma SaveSnapshot_cases:
  "snd (SaveSnapshot sn m) = m \<or> snd (SaveSnapshot sn m) = m\<lparr>snapshots := (snapshots m)(s_PortfolioID sn \<mapsto> sn\<lparr>s_commitPrefix := True\<rparr>)\<rparr>"
  by (auto simp: SaveSnapshot_def)

lemma entries_snapshots [simp]: "entries (m\<lparr>snapshots := x\<rparr>) p = entries m p"
  by (simp add: entries_def)

lemma s_PortfolioID_checkpoint: "s_PortfolioID (checkpoint_of lib now p es) = p"
proof -
  have "bPortfolioID (ReplayAsOf lib p es now 0) = p"
    using view_portfolio [OF view_ReplayAsOf, of lib p es now] by (simp add: applyUntil_def until_fold portfolio_foldl)
  then show ?thesis by (simp add: checkpoint_of_def Book_Snapshot_def)
qed

lemma memoryReader_reads:
  "Journal (memoryReader m None) p = Inr (map (stamp (int (length (entries m p)))) (entries m p))"
  "0 \<le> n \<Longrightarrow> n \<le> int (length (entries m p)) \<Longrightarrow>
    JournalSince (memoryReader m None) p n = Inr (map (stamp (int (length (entries m p)))) (drop (nat n) (entries m p)))"
  by (simp_all add: memoryReader_def reader_JournalSince_def Let_def stamp_def)

lemma store_ok_step:
  assumes "store_ok lib s" and "valid_op op"
  shows "store_ok lib (store_step lib flib s op)"
proof (cases op)
  case (OpAppend now announce e)
  have wf: "wf_entry e" using assms(2) OpAppend by simp
  from Append_cases [of lib flib now announce e "the_store s"] show ?thesis
  proof (elim disjE exE conjE)
    fix q assume "snd (Append lib flib now announce e (the_store s)) = (the_store s)\<lparr>outbox := q\<rparr>"
    then show ?thesis using assms(1) OpAppend by (simp add: store_ok_def)
  next
    fix x q assume "appended_entry flib e x" "m_seen (the_store s) (EntryID x) = None"
      "snd (Append lib flib now announce e (the_store s)) = committed_to ((the_store s)\<lparr>outbox := q\<rparr>) x"
    then show ?thesis
      using store_ok_append [OF assms(1)] appended_entry_wf [OF _ wf] OpAppend by simp
  qed
next
  case (OpRead w p)
  have "\<exists>n \<le> length (entries (the_store s) p). map (stamp (int (length (entries (the_store s) p)))) (entries (the_store s) p)
      = map (stamp (int n)) (take n (entries (the_store s) p))"
    by (rule exI [of _ "length (entries (the_store s) p)"]) simp
  then show ?thesis
    using assms(1) OpRead by (auto simp: store_ok_def memoryReader_reads)
next
  case (OpSave w now)
  show ?thesis
  proof (cases "inflight s w")
    case None
    then show ?thesis using assms(1) OpSave by simp
  next
    case (Some pe)
    obtain p es where pe: "pe = (p, es)" by (cases pe)
    obtain n where n: "n \<le> length (entries (the_store s) p)" "es = map (stamp (int n)) (take n (entries (the_store s) p))"
      using assms(1) Some pe unfolding store_ok_def by blast
    let ?sn = "(checkpoint_of lib now p es)\<lparr>s_commitPrefix := True\<rparr>"
    have cp: "checkpoint_prefix lib p (entries (the_store s) p) ?sn"
      unfolding n(2) using assms n(1) OpSave by (intro checkpoint_of_prefix) (auto simp: store_ok_def)
    have "snd (save_checkpoint lib now p es (the_store s)) = the_store s
      \<or> snd (save_checkpoint lib now p es (the_store s)) = (the_store s)\<lparr>snapshots := (snapshots (the_store s))(p \<mapsto> ?sn)\<rparr>"
      using SaveSnapshot_cases [of "checkpoint_of lib now p es" "the_store s"]
      by (auto simp: save_checkpoint_def s_PortfolioID_checkpoint)
    then show ?thesis using assms(1) OpSave Some pe cp by (elim disjE) (auto simp: store_ok_def)
  qed
qed

lemma store_ok_run: "list_all valid_op ops \<Longrightarrow> store_ok lib (run_store lib flib ops)"
proof -
  have "store_ok lib (foldl (store_step lib flib) s ops)" if "store_ok lib s" "list_all valid_op ops" for s
    using that by (induction ops arbitrary: s) (auto intro: store_ok_step)
  moreover have "store_ok lib \<lparr>the_store = NewMemoryStore, inflight = Map.empty\<rparr>"
    by (simp add: store_ok_def NewMemoryStore_def entries_def journal_wf_def)
  ultimately show "list_all valid_op ops \<Longrightarrow> store_ok lib (run_store lib flib ops)" by (simp add: run_store_def)
qed

interpretation mem_history: ledger_history lib
  "\<lambda>ops. memoryReader (the_store (run_store lib flib ops)) None"
  "\<lambda>ops. entries (the_store (run_store lib flib ops))"
  "list_all valid_op" for lib flib
proof
  fix h p assume "list_all valid_op h"
  then have ok: "store_ok lib (run_store lib flib h)" by (rule store_ok_run)
  let ?m = "the_store (run_store lib flib h)"
  show "Journal (memoryReader ?m None) p = Inr (map (stamp (int (length (entries ?m p)))) (entries ?m p))"
    by (rule memoryReader_reads)
  show "JournalSince (memoryReader ?m None) p n = Inr (map (stamp (int (length (entries ?m p)))) (drop (nat n) (entries ?m p)))"
    if "0 \<le> n" "n \<le> int (length (entries ?m p))" for n
    using that by (rule memoryReader_reads)
  show "checkpoint_prefix lib p (entries ?m p) s" if "LoadSnapshot (memoryReader ?m None) p = Inr s" for s
    using that ok by (auto simp: memoryReader_def reader_LoadSnapshot_def store_ok_def split: option.splits)
  show "err = ErrNoSnapshot" if "LoadSnapshot (memoryReader ?m None) p = Inl err" for err
    using that by (auto simp: memoryReader_def reader_LoadSnapshot_def split: option.splits)
  show "journal_wf p (entries ?m p)" using ok by (simp add: store_ok_def)
qed


text \<open>
  C23: a bounded read is the full read. In every store that any interleaving of appends, journal reads
  and checkpoint writes by any number of workers can produce, materializing the current book of a
  portfolio succeeds, and the book it gives (from a checkpoint and the tail, or by a full scan) has
  exactly the positions, cash, accrued income, settled balances and settlement counts of the replay of
  the whole journal. So the checkpoint is a cache: it never changes an answer.
\<close>

theorem checkpoint_is_transparent:
  assumes "list_all valid_op ops" and "0 < now"
  shows "\<exists>b reason. currentBook lib (the_store (run_store lib flib ops)) portfolio now = Inr (b, reason)
    \<and> view b = view (ReplayAsOf lib portfolio (entries (the_store (run_store lib flib ops)) portfolio) now 0)"
  unfolding currentBook_def using assms by (rule mem_history.materialize_is_replay)

text \<open>
  The journal is append-only and exactly-once: no step removes or rewrites an entry, and no id is ever
  journalled twice.
\<close>

lemma step_appends:
  "\<exists>xs. entries (the_store (store_step lib flib s op)) p = entries (the_store s) p @ xs"
proof (cases op)
  case (OpAppend now announce e)
  from Append_cases [of lib flib now announce e "the_store s"] show ?thesis
    by (elim disjE exE conjE) (auto simp: OpAppend entries_committed)
next
  case (OpRead w q)
  then show ?thesis by (simp add: memoryReader_reads)
next
  case (OpSave w now)
  have "entries (snd (save_checkpoint lib now q es m)) p = entries m p" for q es m
    using SaveSnapshot_cases [of "checkpoint_of lib now q es" m] by (auto simp: save_checkpoint_def)
  then show ?thesis using OpSave by (auto split: option.split)
qed

lemma run_appends:
  "\<exists>xs. entries (the_store (foldl (store_step lib flib) s ops)) p = entries (the_store s) p @ xs"
proof (induction ops arbitrary: s)
  case (Cons op ops)
  obtain xs where "entries (the_store (store_step lib flib s op)) p = entries (the_store s) p @ xs"
    using step_appends by blast
  then show ?case using Cons [of "store_step lib flib s op"] by auto
qed simp

text \<open>
  C24: the journal is append-only and exactly-once. Whatever happens after a point in a history, the
  journal of every portfolio as it was at that point is a prefix of what it is afterwards; an entry
  stands in the journal of its own portfolio; and no entry id occurs twice in a journal, however often
  its entry is delivered.
\<close>

theorem journal_append_only:
  assumes "list_all valid_op (before @ after)"
  shows "(\<exists>xs. entries (the_store (run_store lib flib (before @ after))) portfolio
        = entries (the_store (run_store lib flib before)) portfolio @ xs)
    \<and> distinct (map EntryID (entries (the_store (run_store lib flib (before @ after))) portfolio))
    \<and> (\<forall>e \<in> set (entries (the_store (run_store lib flib (before @ after))) portfolio). PortfolioID e = portfolio \<and> EntryID e \<noteq> '''')"
proof -
  have "journal_wf portfolio (entries (the_store (run_store lib flib (before @ after))) portfolio)"
    using store_ok_run [OF assms] by (simp add: store_ok_def)
  then show ?thesis using run_appends [of lib flib "run_store lib flib before" after portfolio]
    by (simp add: run_store_def journal_wf_def)
qed

lemma sample_trade_wf: "wf_entry (sample_trade ''a'' q p f k)"
  by (simp add: wf_entry_def HasSuffix_def)

theorem checkpoint_is_transparent_witness:
  "\<exists>b reason. currentBook lib0 (the_store (run_store lib0 fl0
      [OpAppend 1 None (sample_trade ''a'' 2 10 1 1), OpRead 0 ''fund'', OpSave 0 5])) ''fund'' 9 = Inr (b, reason)
    \<and> view b = view (ReplayAsOf lib0 ''fund'' (entries (the_store (run_store lib0 fl0
      [OpAppend 1 None (sample_trade ''a'' 2 10 1 1), OpRead 0 ''fund'', OpSave 0 5])) ''fund'') 9 0)"
  by (rule checkpoint_is_transparent) (simp_all add: sample_trade_wf)

theorem journal_append_only_witness:
  "distinct (map EntryID (entries (the_store (run_store lib0 fl0
      ([OpAppend 1 None (sample_trade ''a'' 2 10 1 1)] @ [OpAppend 2 None (sample_trade ''a'' 2 10 1 1)]))) ''fund''))"
  using journal_append_only [of "[OpAppend 1 None (sample_trade ''a'' 2 10 1 1)]" "[OpAppend 2 None (sample_trade ''a'' 2 10 1 1)]" lib0 fl0 "''fund''"]
  by (simp add: sample_trade_wf)

end
