(* ===== verification/Compliance_Rules.thy ===== *)
theory Compliance_Rules
  imports Decimal Go_Lib "HOL-Library.List_Lexorder" "HOL-Library.Char_ord" "HOL-Library.AList" "HOL-Library.Multiset"
begin

text \<open>
  The mandate and rule engine \<open>internal/compliance\<close>: the candidate book and the registry of rules
  (\<open>engine.go\<close>), the nine rules (\<open>rules.go\<close>, \<open>cashbuffer.go\<close>, \<open>venuemargin.go\<close>) and the wire types of
  \<open>compliance.proto\<close>. The classifier, the risk measures and the venue margins are functions the
  candidate carries; a function that is not wired is \<open>None\<close>. The engine is compared with \<open>rule_ok\<close>,
  which states over exact values when a rule holds of a book.

  \<^item> A protobuf enum is open: the last constructor of each carries a number outside the schema.
  \<^item> \<open>foldBook\<close> memoises its result per book; the fold is a function of the book, so the model computes it.
  \<^item> \<open>sort.Slice\<close> may leave two positions of one instrument in either order; here they keep book order.
\<close>

section \<open>Wire types\<close>

datatype ComplianceStatus = STATUS_UNSPECIFIED | STATUS_PASS | STATUS_WARN | STATUS_BREACH | STATUS_other int

datatype RuleType = RULE_UNSPECIFIED | RULE_CONCENTRATION | RULE_RESTRICTION | RULE_ISSUER_EXCLUSION
  | RULE_GROSS_LEVERAGE | RULE_CURRENCY | RULE_BUYING_POWER | RULE_RISK_MEASURE | RULE_VENUE_MARGIN
  | RULE_CASH_BUFFER | RULE_other int

datatype Dimension = DIM_UNSPECIFIED | DIM_INSTRUMENT | DIM_ISSUER | DIM_SECTOR | DIM_ASSET_CLASS
  | DIM_CURRENCY | DIM_other int

datatype RestrictionMode = MODE_UNSPECIFIED | MODE_DENY | MODE_ALLOW_ONLY | MODE_other int

fun RuleType_String :: "RuleType \<Rightarrow> string" where
  "RuleType_String RULE_UNSPECIFIED = ''RULE_TYPE_UNSPECIFIED''"
| "RuleType_String RULE_CONCENTRATION = ''RULE_TYPE_CONCENTRATION''"
| "RuleType_String RULE_RESTRICTION = ''RULE_TYPE_RESTRICTION''"
| "RuleType_String RULE_ISSUER_EXCLUSION = ''RULE_TYPE_ISSUER_EXCLUSION''"
| "RuleType_String RULE_GROSS_LEVERAGE = ''RULE_TYPE_GROSS_LEVERAGE''"
| "RuleType_String RULE_CURRENCY = ''RULE_TYPE_CURRENCY''"
| "RuleType_String RULE_BUYING_POWER = ''RULE_TYPE_BUYING_POWER''"
| "RuleType_String RULE_RISK_MEASURE = ''RULE_TYPE_RISK_MEASURE''"
| "RuleType_String RULE_VENUE_MARGIN = ''RULE_TYPE_VENUE_MARGIN''"
| "RuleType_String RULE_CASH_BUFFER = ''RULE_TYPE_CASH_BUFFER''"
| "RuleType_String (RULE_other n) = Itoa n"

fun Dimension_String :: "Dimension \<Rightarrow> string" where
  "Dimension_String DIM_UNSPECIFIED = ''DIMENSION_UNSPECIFIED''"
| "Dimension_String DIM_INSTRUMENT = ''DIMENSION_INSTRUMENT''"
| "Dimension_String DIM_ISSUER = ''DIMENSION_ISSUER''"
| "Dimension_String DIM_SECTOR = ''DIMENSION_SECTOR''"
| "Dimension_String DIM_ASSET_CLASS = ''DIMENSION_ASSET_CLASS''"
| "Dimension_String DIM_CURRENCY = ''DIMENSION_CURRENCY''"
| "Dimension_String (DIM_other n) = Itoa n"

fun RestrictionMode_String :: "RestrictionMode \<Rightarrow> string" where
  "RestrictionMode_String MODE_UNSPECIFIED = ''RESTRICTION_MODE_UNSPECIFIED''"
| "RestrictionMode_String MODE_DENY = ''RESTRICTION_MODE_DENY''"
| "RestrictionMode_String MODE_ALLOW_ONLY = ''RESTRICTION_MODE_ALLOW_ONLY''"
| "RestrictionMode_String (MODE_other n) = Itoa n"

record ConcentrationLimit =
  cl_dimension :: Dimension
  cl_bucket :: string
  cl_max_weight :: "decimal option"

record RestrictionList =
  rl_dimension :: Dimension
  rl_values :: "string list"
  rl_mode :: RestrictionMode

record RiskMeasureLimit =
  rm_measure_name :: string
  rm_max_value :: "decimal option"

record VenueMarginLimit =
  vm_venue :: string
  vm_min_margin_ratio :: "decimal option"

text \<open>The \<open>oneof\<close> of a rule; a limit with a single field is its field.\<close>

datatype RuleParams = No_params
  | Concentration ConcentrationLimit
  | Restriction RestrictionList
  | IssuerExclusion "string list"
  | LeverageCap "decimal option"
  | CurrencyRestriction "string list"
  | BuyingPower "decimal option"
  | RiskMeasure RiskMeasureLimit
  | VenueMargin VenueMarginLimit
  | CashBuffer "decimal option"

record Rule =
  rule_id :: string
  rule_type :: RuleType
  on_violation :: ComplianceStatus
  rule_params :: RuleParams

record Mandate =
  mandate_id :: string
  tenant_id :: string
  portfolio_id :: string
  mandate_version :: "64 word"
  rules :: "Rule list"
  effective_at :: "Timestamp option"

record Violation =
  v_rule_id :: string
  v_rule_type :: RuleType
  v_severity :: ComplianceStatus
  Message :: string
  Evidence :: "string \<rightharpoonup> string"

record ComplianceResult =
  res_status :: ComplianceStatus
  res_portfolio_id :: string
  res_mandate_id :: string
  res_mandate_version :: "64 word"
  res_violations :: "Violation list"
  res_evaluated_at :: "Timestamp option"

section \<open>The candidate\<close>

record Position =
  InstrumentID :: string
  Quantity :: "decimal option"
  MarketValue :: "money option"

datatype NAVBasis = NAVBasisUnspecified | NAVBasisGrossPositions | NAVBasisEquity

fun NAVBasis_String :: "NAVBasis \<Rightarrow> string" where
  "NAVBasis_String NAVBasisGrossPositions = ''gross_positions''"
| "NAVBasis_String NAVBasisEquity = ''equity''"
| "NAVBasis_String NAVBasisUnspecified = ''unspecified''"

record CashCompleteness =
  OmittedEntryTypes :: "string list"

definition Incomplete :: "CashCompleteness option \<Rightarrow> bool" where
  "Incomplete c \<longleftrightarrow> (case c of None \<Rightarrow> False | Some x \<Rightarrow> OmittedEntryTypes x \<noteq> [])"

definition Stated :: "CashCompleteness option \<Rightarrow> bool" where
  "Stated c \<longleftrightarrow> c \<noteq> None"

definition Vouched :: "CashCompleteness option \<Rightarrow> bool" where
  "Vouched c \<longleftrightarrow> Stated c \<and> \<not> Incomplete c"

definition Omitted :: "CashCompleteness option \<Rightarrow> string list" where
  "Omitted c = (case c of None \<Rightarrow> [] | Some x \<Rightarrow> OmittedEntryTypes x)"

record ComplianceBook =
  PortfolioID :: string
  BaseCurrency :: string
  Risk :: "(string \<Rightarrow> rat option) option"
  NAV :: "money option"
  nav_basis :: NAVBasis
  NAVBasisDetail :: string
  Cash :: "money option"
  Completeness :: "CashCompleteness option"
  Positions :: "Position list"

record Attributes =
  Issuer :: string
  Sector :: string
  AssetClass :: string

type_synonym Classifier = "string \<Rightarrow> instant \<Rightarrow> Attributes \<times> bool"

record CandidateOrder =
  co_InstrumentID :: string
  co_SignedQuantity :: "decimal option"
  co_Venue :: string

record MarginState =
  Account :: string
  MarginRatio :: "rat option"
  ObservedAt :: instant
  CoverageReported :: bool
  ExcludedCount :: "32 word"

record Candidate =
  c_Book :: ComplianceBook
  c_Classifier :: "Classifier option"
  c_AsOf :: instant
  ClassifyAsOf :: instant
  c_Order :: "CandidateOrder option"
  Margin :: "(string \<Rightarrow> MarginState option) option"

definition classifyAsOf :: "Candidate \<Rightarrow> instant" where
  "classifyAsOf c = (if ClassifyAsOf c \<noteq> 0 then ClassifyAsOf c else c_AsOf c)"

section \<open>Exact values\<close>

text \<open>The generated getters on a nil \<open>Money\<close>.\<close>

definition get_amount :: "money option \<Rightarrow> decimal option" where
  "get_amount m = (case m of None \<Rightarrow> None | Some x \<Rightarrow> amount x)"

definition get_currency_code :: "money option \<Rightarrow> string" where
  "get_currency_code m = (case m of None \<Rightarrow> [] | Some x \<Rightarrow> currency_code x)"

text \<open>The exponent is widened to 64 bits before it is negated, so no exponent wraps.\<close>

definition ratFromDecimal :: "decimal option \<Rightarrow> rat" where
  "ratFromDecimal d =
     (case d of
        None \<Rightarrow> 0
      | Some x \<Rightarrow>
          let r = of_int (sint (coefficient x)); e = sint (exponent x);
              n = (if e < 0 then - e else e); scale = of_int (10 ^ nat n)
          in if e = 0 then r else if e > 0 then r * scale else r / scale)"

definition absRatFromMoney :: "money option \<Rightarrow> rat" where
  "absRatFromMoney m = \<bar>ratFromDecimal (get_amount m)\<bar>"

definition ratString :: "rat \<Rightarrow> string" where
  "ratString r = FloatString 6 r"

section \<open>Shared rule helpers\<close>

text \<open>An em dash in UTF-8, and a violation before the engine stamps it.\<close>

definition em_dash :: string where
  "em_dash = [CHR 0xE2, CHR 0x80, CHR 0x94]"

definition violation :: "string \<Rightarrow> (string \<rightharpoonup> string) \<Rightarrow> Violation" where
  "violation msg ev =
     \<lparr>v_rule_id = [], v_rule_type = RULE_UNSPECIFIED, v_severity = STATUS_UNSPECIFIED, Message = msg, Evidence = ev\<rparr>"

definition paramsMismatch :: "string \<Rightarrow> Violation" where
  "paramsMismatch want =
     violation (''rule params do not match rule type '' @ em_dash @ '' denied by default'') [''expected_params'' \<mapsto> want]"

definition unmarkedReason :: "Position \<Rightarrow> string" where
  "unmarkedReason p =
     (case MarketValue p of
        None \<Rightarrow> ''no_market_value''
      | Some mv \<Rightarrow>
          if amount mv = None then ''no_amount''
          else if currency_code mv = [] then ''no_currency''
          else [])"

definition unmarkedPosition :: "Position \<Rightarrow> bool" where
  "unmarkedPosition p \<longleftrightarrow> unmarkedReason p \<noteq> []"

definition zeroMark :: "Position \<Rightarrow> bool" where
  "zeroMark p \<longleftrightarrow> get_coefficient (get_amount (MarketValue p)) = 0"

record candidateFold =
  fold_held :: "Position list"
  fold_gross :: rat

definition foldBook :: "Candidate \<Rightarrow> candidateFold" where
  "foldBook c =
     (let hs = filter (\<lambda>p. \<not> (unmarkedPosition p \<or> zeroMark p)) (Positions (c_Book c))
      in \<lparr>fold_held = sort_key InstrumentID hs,
          fold_gross = foldl (\<lambda>g p. g + absRatFromMoney (MarketValue p)) 0 hs\<rparr>)"

definition heldPositions :: "Candidate \<Rightarrow> Position list" where
  "heldPositions c = fold_held (foldBook c)"

definition totalGross :: "Candidate \<Rightarrow> rat" where
  "totalGross c = fold_gross (foldBook c)"

definition no_attributes :: Attributes where
  "no_attributes = \<lparr>Issuer = [], Sector = [], AssetClass = []\<rparr>"

definition classify :: "Candidate \<Rightarrow> Position \<Rightarrow> Attributes" where
  "classify c p =
     (case c_Classifier c of
        None \<Rightarrow> no_attributes
      | Some f \<Rightarrow> fst (f (InstrumentID p) (classifyAsOf c)))"

definition bucketKey :: "Candidate \<Rightarrow> Dimension \<Rightarrow> Position \<Rightarrow> string" where
  "bucketKey c dm p =
     (case dm of
        DIM_INSTRUMENT \<Rightarrow> InstrumentID p
      | DIM_CURRENCY \<Rightarrow> get_currency_code (MarketValue p)
      | DIM_ISSUER \<Rightarrow> Issuer (classify c p)
      | DIM_SECTOR \<Rightarrow> Sector (classify c p)
      | DIM_ASSET_CLASS \<Rightarrow> AssetClass (classify c p)
      | _ \<Rightarrow> [])"

text \<open>A Go map from bucket to exposure, as an association list with one entry per key.\<close>

definition grossByDimension :: "Candidate \<Rightarrow> Dimension \<Rightarrow> (string \<times> rat) list" where
  "grossByDimension c dm =
     foldl (\<lambda>out p. AList.map_default (bucketKey c dm p) (absRatFromMoney (MarketValue p))
                      (\<lambda>g. g + absRatFromMoney (MarketValue p)) out) [] (heldPositions c)"

definition sortedKeys :: "(string \<times> rat) list \<Rightarrow> string list" where
  "sortedKeys m = sort (map fst m)"

definition classifiedDimension :: "Dimension \<Rightarrow> bool" where
  "classifiedDimension dm \<longleftrightarrow> dm \<in> {DIM_ISSUER, DIM_SECTOR, DIM_ASSET_CLASS}"

definition maxUnresolvedSample :: nat where
  "maxUnresolvedSample = 32"

definition unresolvedDimension :: "Candidate \<Rightarrow> string \<Rightarrow> Dimension \<Rightarrow> Violation option" where
  "unresolvedDimension c what dm =
     (if \<not> classifiedDimension dm then None
      else let hs = heldPositions c in
        if hs = [] then None
        else if c_Classifier c = None then
          Some (violation (what @ '' cannot be verified: no instrument classifier is wired, so this dimension cannot be resolved for any holding'')
            [''dimension'' \<mapsto> Dimension_String dm, ''classifier'' \<mapsto> ''unavailable'', ''holdings'' \<mapsto> Itoa (int (length hs))])
        else let unresolved = map InstrumentID (filter (\<lambda>p. bucketKey c dm p = []) hs) in
          if unresolved = [] then None
          else Some (violation (what @ '' cannot be verified: the classifier does not resolve this dimension for every holding'')
            [''dimension'' \<mapsto> Dimension_String dm, ''classifier'' \<mapsto> ''present'',
             ''holdings'' \<mapsto> Itoa (int (length hs)), ''unresolved'' \<mapsto> Itoa (int (length unresolved)),
             ''unresolved_instruments'' \<mapsto> strings_Join (take maxUnresolvedSample unresolved) '','']))"

definition unmarkedHoldings :: "Candidate \<Rightarrow> string \<Rightarrow> Violation option" where
  "unmarkedHoldings c what =
     (let ps = filter unmarkedPosition (Positions (c_Book c)); unmarked = map InstrumentID ps in
      if unmarked = [] then None
      else Some (violation (what @ '' cannot be verified: the book carries a position whose market value the platform cannot use (see unmarked_reasons), so neither its own exposure nor the book's total is known'')
        [''unmarked_holdings'' \<mapsto> Itoa (int (length unmarked)),
         ''unmarked_sample'' \<mapsto> strings_Join (take maxUnresolvedSample (sort unmarked)) '','',
         ''unmarked_reasons'' \<mapsto> strings_Join (sort (remdups (map unmarkedReason ps))) '','']))"

definition unusableEquity :: "Candidate \<Rightarrow> Violation option" where
  "unusableEquity c =
     (let b = c_Book c; nav = ratFromDecimal (get_amount (NAV b)); basis = NAVBasis_String (nav_basis b) in
      if nav_basis b \<noteq> NAVBasisEquity then
        Some (violation ''leverage cannot be verified: the book's NAV is not an equity figure, so gross exposure divided by it is not a leverage ratio''
          (let ev = [''nav_basis'' \<mapsto> basis]
           in if NAVBasisDetail b \<noteq> [] then ev(''nav_basis_detail'' \<mapsto> NAVBasisDetail b) else ev))
      else if NAV b = None \<or> get_amount (NAV b) = None then
        Some (violation ''leverage cannot be verified: NAV unavailable''
          [''nav'' \<mapsto> ''unavailable'', ''nav_basis'' \<mapsto> basis])
      else if nav \<le> 0 then
        Some (violation ''leverage cannot be verified: equity is not positive, so gross leverage is undefined rather than within any cap''
          [''nav_basis'' \<mapsto> basis, ''equity'' \<mapsto> ratString nav])
      else None)"

section \<open>The rules\<close>

definition ConcentrationRule :: "Candidate \<Rightarrow> Rule \<Rightarrow> Violation option" where
  "ConcentrationRule c rule =
     (case rule_params rule of
        Concentration cl \<Rightarrow>
          (case unmarkedHoldings c ''concentration'' of
             Some v \<Rightarrow> Some v
           | None \<Rightarrow>
               let total = totalGross c in
               if total = 0 then None
               else (case unresolvedDimension c ''concentration'' (cl_dimension cl) of
                  Some v \<Rightarrow> Some v
                | None \<Rightarrow>
                    let limit = ratFromDecimal (cl_max_weight cl);
                        buckets = grossByDimension c (cl_dimension cl);
                        check = (\<lambda>key g.
                          let weight = g / total in
                          if weight \<le> limit then None
                          else Some (violation ''concentration exceeds limit''
                            [''dimension'' \<mapsto> Dimension_String (cl_dimension cl), ''bucket'' \<mapsto> key,
                             ''observed'' \<mapsto> ratString weight, ''limit'' \<mapsto> ratString limit]))
                    in if cl_bucket cl \<noteq> [] then
                         (case map_of buckets (cl_bucket cl) of
                            None \<Rightarrow> None
                          | Some g \<Rightarrow> check (cl_bucket cl) g)
                       else first_some (\<lambda>key. check key (the (map_of buckets key))) (sortedKeys buckets)))
      | _ \<Rightarrow> Some (paramsMismatch ''concentration''))"

definition RestrictionRule :: "Candidate \<Rightarrow> Rule \<Rightarrow> Violation option" where
  "RestrictionRule c rule =
     (case rule_params rule of
        Restriction rl \<Rightarrow>
          (case unmarkedHoldings c ''restriction'' of
             Some v \<Rightarrow> Some v
           | None \<Rightarrow>
              (case unresolvedDimension c ''restriction'' (rl_dimension rl) of
                 Some v \<Rightarrow> Some v
               | None \<Rightarrow>
                   first_some (\<lambda>p.
                     let key = bucketKey c (rl_dimension rl) p;
                         bad = (case rl_mode rl of
                                  MODE_DENY \<Rightarrow> key \<in> set (rl_values rl)
                                | MODE_ALLOW_ONLY \<Rightarrow> key \<notin> set (rl_values rl)
                                | _ \<Rightarrow> True)
                     in if bad then Some (violation ''instrument violates restriction list''
                          [''dimension'' \<mapsto> Dimension_String (rl_dimension rl), ''bucket'' \<mapsto> key,
                           ''mode'' \<mapsto> RestrictionMode_String (rl_mode rl), ''instrument'' \<mapsto> InstrumentID p])
                        else None) (heldPositions c)))
      | _ \<Rightarrow> Some (paramsMismatch ''restriction''))"

definition IssuerExclusionRule :: "Candidate \<Rightarrow> Rule \<Rightarrow> Violation option" where
  "IssuerExclusionRule c rule =
     (case rule_params rule of
        IssuerExclusion excluded \<Rightarrow>
          (case unmarkedHoldings c ''issuer exclusion'' of
             Some v \<Rightarrow> Some v
           | None \<Rightarrow>
              (case unresolvedDimension c ''issuer exclusion'' DIM_ISSUER of
                 Some v \<Rightarrow> Some v
               | None \<Rightarrow>
                   first_some (\<lambda>p.
                     let issuer = Issuer (classify c p) in
                     if issuer \<noteq> [] \<and> issuer \<in> set excluded then
                       Some (violation ''holding in excluded issuer''
                         [''issuer'' \<mapsto> issuer, ''instrument'' \<mapsto> InstrumentID p])
                     else None) (heldPositions c)))
      | _ \<Rightarrow> Some (paramsMismatch ''issuer_exclusion''))"

definition LeverageRule :: "Candidate \<Rightarrow> Rule \<Rightarrow> Violation option" where
  "LeverageRule c rule =
     (case rule_params rule of
        LeverageCap cap \<Rightarrow>
          (case unusableEquity c of
             Some v \<Rightarrow> Some v
           | None \<Rightarrow>
               let nav = ratFromDecimal (get_amount (NAV (c_Book c))) in
               (case unmarkedHoldings c ''leverage'' of
                  Some v \<Rightarrow> Some v
                | None \<Rightarrow>
                    let limit = ratFromDecimal cap; lev = totalGross c / nav in
                    if lev \<le> limit then None
                    else Some (violation ''gross leverage exceeds cap''
                      [''observed'' \<mapsto> ratString lev, ''limit'' \<mapsto> ratString limit])))
      | _ \<Rightarrow> Some (paramsMismatch ''leverage_cap''))"

definition attributeCash :: "Violation \<Rightarrow> CashCompleteness option \<Rightarrow> Violation" where
  "attributeCash v cc =
     (if \<not> Stated cc then
        v\<lparr>Evidence := (Evidence v)(''balance_completeness'' \<mapsto> ''unstated''),
          Message := ''order is below the permitted cash floor, but the balance's producer did not state what that balance contains ''
            @ em_dash @ '' this refusal has not been shown to be a spending limit''\<rparr>
      else if Incomplete cc then
        v\<lparr>Evidence := (Evidence v)(''balance_completeness'' \<mapsto> ''incomplete'',
            ''balance_omits'' \<mapsto> strings_Join (Omitted cc) '',''),
          Message := ''order is below the permitted cash floor of a balance the book of record says is INCOMPLETE ''
            @ em_dash @ '' nothing feeds the entry types in balance_omits, so this refusal may be a missing feed rather than a spending limit''\<rparr>
      else v\<lparr>Evidence := (Evidence v)(''balance_completeness'' \<mapsto> ''complete'')\<rparr>)"

definition BuyingPowerRule :: "Candidate \<Rightarrow> Rule \<Rightarrow> Violation option" where
  "BuyingPowerRule c rule =
     (case rule_params rule of
        BuyingPower min_cash_after \<Rightarrow>
          (case Cash (c_Book c) of
             None \<Rightarrow> Some (violation ''buying power cannot be verified: cash balance unavailable''
                        [''cash'' \<mapsto> ''unavailable''])
           | Some cash \<Rightarrow>
               let after = ratFromDecimal (amount cash); low = ratFromDecimal min_cash_after in
               if after \<ge> low then None
               else Some (attributeCash (violation ''order would spend below the permitted cash floor''
                 [''cash_after'' \<mapsto> ratString after, ''floor'' \<mapsto> ratString low,
                  ''currency'' \<mapsto> currency_code cash]) (Completeness (c_Book c))))
      | _ \<Rightarrow> Some (paramsMismatch ''buying_power''))"

definition CurrencyRule :: "Candidate \<Rightarrow> Rule \<Rightarrow> Violation option" where
  "CurrencyRule c rule =
     (case rule_params rule of
        CurrencyRestriction allowed \<Rightarrow>
          (case unmarkedHoldings c ''currency restriction'' of
             Some v \<Rightarrow> Some v
           | None \<Rightarrow>
               first_some (\<lambda>p.
                 let ccy = get_currency_code (MarketValue p) in
                 if ccy \<notin> set allowed then
                   Some (violation ''position in disallowed currency''
                     [''currency'' \<mapsto> ccy, ''instrument'' \<mapsto> InstrumentID p])
                 else None) (heldPositions c))
      | _ \<Rightarrow> Some (paramsMismatch ''currency_restriction''))"

definition RiskLimitRule :: "Candidate \<Rightarrow> Rule \<Rightarrow> Violation option" where
  "RiskLimitRule c rule =
     (case rule_params rule of
        RiskMeasure rl \<Rightarrow>
          let name = rm_measure_name rl in
          if name = [] then Some (violation ''risk limit names no measure'' [''measure'' \<mapsto> ''unspecified''])
          else (case Risk (c_Book c) of
             None \<Rightarrow> Some (violation ''risk limit cannot be verified: no risk measures available''
                        [''measure'' \<mapsto> name, ''risk'' \<mapsto> ''unavailable''])
           | Some by_name \<Rightarrow>
              (case by_name name of
                 None \<Rightarrow> Some (violation ''risk limit cannot be verified: measure unknown or not current''
                            [''measure'' \<mapsto> name, ''risk'' \<mapsto> ''unknown''])
               | Some observed \<Rightarrow>
                   let limit = ratFromDecimal (rm_max_value rl) in
                   if observed \<le> limit then None
                   else Some (violation ''order refused: the portfolio is over its risk limit''
                     [''measure'' \<mapsto> name, ''observed'' \<mapsto> ratString observed, ''limit'' \<mapsto> ratString limit])))
      | _ \<Rightarrow> Some (paramsMismatch ''risk_measure''))"

definition unvouchedCeiling :: "money \<Rightarrow> decimal option \<Rightarrow> CashCompleteness option \<Rightarrow> Violation" where
  "unvouchedCeiling cash limit cc =
     (let ev = [''idle_cash'' \<mapsto> ratString (ratFromDecimal (amount cash)),
                ''max_idle_cash'' \<mapsto> ratString (ratFromDecimal limit), ''currency'' \<mapsto> currency_code cash] in
      if \<not> Stated cc then
        violation ''idle cash cannot be verified: the balance's producer did not state what the balance contains, so a ceiling compared against it could pass on cash nobody counted''
          (ev(''balance_completeness'' \<mapsto> ''unstated''))
      else
        violation (''idle cash cannot be verified: the book of record says this balance is INCOMPLETE '' @ em_dash
            @ '' nothing feeds the entry types in balance_omits, and the cash they would add is exactly the idle cash this ceiling exists to find'')
          (ev(''balance_completeness'' \<mapsto> ''incomplete'', ''balance_omits'' \<mapsto> strings_Join (Omitted cc) '','')))"

text \<open>
  The message of \<open>MoneyIn\<close>'s error. Go's quoting \<open>%q\<close>, which consults the Unicode tables, is the argument
  \<open>quoted\<close>.
\<close>

definition TrimRight :: "char \<Rightarrow> string \<Rightarrow> string" where
  "TrimRight c s = rev (dropWhile (\<lambda>x. x = c) (rev s))"

definition dec_Str :: "rat \<Rightarrow> string" where
  "dec_Str r =
     (let s = FloatString scale r;
          t = (if CHR ''.'' \<in> set s then TrimRight (CHR ''.'') (TrimRight (CHR ''0'') s) else s)
      in if t = [] \<or> t = ''-0'' then ''0'' else t)"

definition currency_error :: "(string \<Rightarrow> string) \<Rightarrow> money \<Rightarrow> string \<Rightarrow> string" where
  "currency_error quoted m currency =
     ''dec: money is not in the expected currency: '' @ dec_Str (FromProto (amount m)) @ '' in ''
       @ quoted (currency_code m) @ '' cannot net against a '' @ quoted currency @ '' balance''"

definition CashBufferRule :: "(string \<Rightarrow> string) \<Rightarrow> Candidate \<Rightarrow> Rule \<Rightarrow> Violation option" where
  "CashBufferRule quoted c rule =
     (case rule_params rule of
        CashBuffer max_idle_cash \<Rightarrow>
          if c_Order c \<noteq> None then None
          else if max_idle_cash = None then
            Some (violation (''cash buffer declares no maximum '' @ em_dash
                @ '' an idle-cash ceiling with no number cannot be defaulted to zero, because that would read as a mandate to hold no cash at all'')
              [''max_idle_cash'' \<mapsto> ''unset''])
          else (case Cash (c_Book c) of
             None \<Rightarrow> Some (violation ''idle cash cannot be verified: no cash balance for this portfolio''
                        [''idle_cash'' \<mapsto> ''unavailable'', ''max_idle_cash'' \<mapsto> ratString (ratFromDecimal max_idle_cash)])
           | Some m \<Rightarrow>
               if \<not> Vouched (Completeness (c_Book c)) then
                 Some (unvouchedCeiling m max_idle_cash (Completeness (c_Book c)))
               else (case MoneyIn (Some m) (BaseCurrency (c_Book c)) of
                  Inl err \<Rightarrow> Some (violation (''idle cash cannot be verified: '' @ currency_error quoted m (BaseCurrency (c_Book c)))
                    [''idle_cash'' \<mapsto> ratString (ratFromDecimal (amount m)),
                     ''max_idle_cash'' \<mapsto> ratString (ratFromDecimal max_idle_cash),
                     ''currency'' \<mapsto> currency_code m, ''base_currency'' \<mapsto> BaseCurrency (c_Book c)])
                | Inr cash \<Rightarrow>
                    let ceiling = ratFromDecimal max_idle_cash in
                    if cash \<le> ceiling then None
                    else Some (violation ''portfolio holds more uninvested cash than its mandate permits''
                      [''idle_cash'' \<mapsto> ratString cash, ''max_idle_cash'' \<mapsto> ratString ceiling,
                       ''currency'' \<mapsto> BaseCurrency (c_Book c), ''balance_completeness'' \<mapsto> ''complete''])))
      | _ \<Rightarrow> Some (paramsMismatch ''cash_buffer''))"

definition MarginComplete :: "MarginState \<Rightarrow> bool" where
  "MarginComplete m \<longleftrightarrow> CoverageReported m \<and> ExcludedCount m = 0"

definition stamp_time :: "instant \<Rightarrow> string" where
  "stamp_time t = (if t = 0 then ''unknown'' else RFC3339Nano t)"

definition orderReducesPosition :: "Candidate \<Rightarrow> bool" where
  "orderReducesPosition c =
     (case c_Order c of
        None \<Rightarrow> False
      | Some ord \<Rightarrow>
          let delta = ratFromDecimal (co_SignedQuantity ord) in
          if sgn delta = 0 then False
          else (case find (\<lambda>p. InstrumentID p = co_InstrumentID ord) (Positions (c_Book c)) of
             None \<Rightarrow> False
           | Some p \<Rightarrow>
               let post = ratFromDecimal (Quantity p); pre = post - delta in
               if sgn pre = 0 \<or> sgn pre = sgn delta then False
               else sgn post = 0 \<or> sgn post = sgn pre))"

definition VenueMarginRule :: "Candidate \<Rightarrow> Rule \<Rightarrow> Violation option" where
  "VenueMarginRule c rule =
     (case rule_params rule of
        VenueMargin vm \<Rightarrow>
          let declared = vm_venue vm; low = vm_min_margin_ratio vm;
              order_venue = (case c_Order c of None \<Rightarrow> [] | Some ord \<Rightarrow> co_Venue ord);
              venue = (if order_venue \<noteq> [] then order_venue else declared) in
          if low \<noteq> None \<and> declared = [] then
            Some (violation (''venue margin floor names no venue '' @ em_dash @ '' a margin ratio has no meaning until the venue is named'')
              [''venue'' \<mapsto> ''unspecified'', ''floor'' \<mapsto> ratString (ratFromDecimal low)])
          else if orderReducesPosition c then None
          else if order_venue \<noteq> [] \<and> declared \<noteq> [] \<and> declared \<noteq> order_venue then None
          else if venue = [] then
            Some (violation ''margin cannot be verified: the order names no venue, so no exchange account can be identified''
              [''venue'' \<mapsto> ''unspecified''])
          else (case Margin c of
             None \<Rightarrow> Some (violation ''margin cannot be verified: no venue margin source is wired''
                        [''venue'' \<mapsto> venue, ''margin'' \<mapsto> ''unavailable''])
           | Some margin \<Rightarrow>
              (case margin venue of
                 None \<Rightarrow> Some (violation ''margin cannot be verified: the exchange's margin state for this account is unknown or not current''
                            [''venue'' \<mapsto> venue, ''margin'' \<mapsto> ''unknown''])
               | Some st \<Rightarrow>
                   if \<not> CoverageReported st then
                     Some (violation ''margin cannot be verified: the observation does not report what the exchange left out''
                       [''venue'' \<mapsto> venue, ''account'' \<mapsto> Account st, ''coverage'' \<mapsto> ''not_reported'',
                        ''observed_at'' \<mapsto> stamp_time (ObservedAt st)])
                   else if ExcludedCount st > 0 then
                     Some (violation ''margin cannot be verified: the exchange did not report part of this account's margin state''
                       [''venue'' \<mapsto> venue, ''account'' \<mapsto> Account st, ''coverage'' \<mapsto> ''incomplete'',
                        ''excluded'' \<mapsto> Itoa (uint (ExcludedCount st)), ''observed_at'' \<mapsto> stamp_time (ObservedAt st)])
                   else (case MarginRatio st of
                      None \<Rightarrow> Some (violation ''margin cannot be verified: the exchange reported no margin ratio for this account''
                        [''venue'' \<mapsto> venue, ''account'' \<mapsto> Account st, ''margin_ratio'' \<mapsto> ''unknown'',
                         ''observed_at'' \<mapsto> stamp_time (ObservedAt st)])
                    | Some q \<Rightarrow>
                        if low = None then None
                        else let lowest = ratFromDecimal low in
                          if q \<ge> lowest then None
                          else Some (violation ''order refused: the venue account is below its margin floor''
                            [''venue'' \<mapsto> venue, ''account'' \<mapsto> Account st, ''margin_ratio'' \<mapsto> ratString q,
                             ''floor'' \<mapsto> ratString lowest, ''observed_at'' \<mapsto> stamp_time (ObservedAt st)]))))
      | _ \<Rightarrow> Some (paramsMismatch ''venue_margin''))"

section \<open>Registry and engine\<close>

type_synonym RuleFunc = "Candidate \<Rightarrow> Rule \<Rightarrow> Violation option"
type_synonym RuleRegistry = "RuleType \<rightharpoonup> RuleFunc"

definition NewRegistry :: RuleRegistry where
  "NewRegistry = Map.empty"

definition Register :: "RuleRegistry \<Rightarrow> RuleType \<Rightarrow> RuleFunc \<Rightarrow> RuleRegistry" where
  "Register r t fn = r(t \<mapsto> fn)"

definition DefaultRegistry :: "(string \<Rightarrow> string) \<Rightarrow> RuleRegistry" where
  "DefaultRegistry quoted =
     (let r = Register NewRegistry RULE_CONCENTRATION ConcentrationRule;
          r = Register r RULE_RESTRICTION RestrictionRule;
          r = Register r RULE_ISSUER_EXCLUSION IssuerExclusionRule;
          r = Register r RULE_GROSS_LEVERAGE LeverageRule;
          r = Register r RULE_CURRENCY CurrencyRule;
          r = Register r RULE_BUYING_POWER BuyingPowerRule;
          r = Register r RULE_RISK_MEASURE RiskLimitRule;
          r = Register r RULE_VENUE_MARGIN VenueMarginRule
      in Register r RULE_CASH_BUFFER (CashBufferRule quoted))"

fun severity_rank :: "ComplianceStatus \<Rightarrow> nat" where
  "severity_rank STATUS_BREACH = 3"
| "severity_rank STATUS_WARN = 2"
| "severity_rank STATUS_PASS = 1"
| "severity_rank STATUS_UNSPECIFIED = 0"
| "severity_rank (STATUS_other n) = 0"

definition worst :: "ComplianceStatus \<Rightarrow> ComplianceStatus \<Rightarrow> ComplianceStatus" where
  "worst a b = (if severity_rank b > severity_rank a then b else a)"

definition violationSeverity :: "Rule \<Rightarrow> ComplianceStatus" where
  "violationSeverity rule =
     (if on_violation rule = STATUS_UNSPECIFIED then STATUS_BREACH else on_violation rule)"

text \<open>One round of the loop of \<open>Evaluate\<close>, and the loop.\<close>

definition evaluate_rule :: "RuleRegistry \<Rightarrow> Candidate \<Rightarrow> Rule \<Rightarrow> Violation option" where
  "evaluate_rule registry c rule =
     (case registry (rule_type rule) of
        None \<Rightarrow> Some \<lparr>v_rule_id = rule_id rule, v_rule_type = rule_type rule, v_severity = STATUS_BREACH,
                 Message = ''unknown rule type '' @ em_dash @ '' denied by default'',
                 Evidence = [''rule_type'' \<mapsto> RuleType_String (rule_type rule)]\<rparr>
      | Some fn \<Rightarrow>
          (case fn c rule of
             None \<Rightarrow> None
           | Some v \<Rightarrow> Some (v\<lparr>v_rule_id := rule_id rule, v_rule_type := rule_type rule,
                               v_severity := violationSeverity rule\<rparr>)))"

definition evaluate_step :: "RuleRegistry \<Rightarrow> Candidate \<Rightarrow> ComplianceResult \<Rightarrow> Rule \<Rightarrow> ComplianceResult" where
  "evaluate_step registry c res rule =
     (case evaluate_rule registry c rule of
        None \<Rightarrow> res
      | Some v \<Rightarrow> res\<lparr>res_violations := res_violations res @ [v],
                      res_status := worst (res_status res) (v_severity v)\<rparr>)"

definition engine_Evaluate :: "RuleRegistry \<Rightarrow> Candidate \<Rightarrow> Mandate \<Rightarrow> ComplianceResult" where
  "engine_Evaluate registry c m =
     foldl (evaluate_step registry c)
       \<lparr>res_status = STATUS_PASS, res_portfolio_id = portfolio_id m, res_mandate_id = mandate_id m,
        res_mandate_version = mandate_version m, res_violations = [],
        res_evaluated_at = Some (timestamppb_New (c_AsOf c))\<rparr> (rules m)"

section \<open>What the rules mean\<close>

text \<open>
  The specification of the rules over exact values. A position is marked when its market value has an
  amount and a currency; a holding is a position worth something; exposure adds absolute values.
\<close>

definition position_value :: "Position \<Rightarrow> rat" where
  "position_value p = dvalue (get_amount (MarketValue p))"

definition marked :: "ComplianceBook \<Rightarrow> bool" where
  "marked b \<longleftrightarrow>
     list_all (\<lambda>p. get_amount (MarketValue p) \<noteq> None \<and> get_currency_code (MarketValue p) \<noteq> []) (Positions b)"

definition holdings :: "ComplianceBook \<Rightarrow> Position list" where
  "holdings b = filter (\<lambda>p. position_value p \<noteq> 0) (Positions b)"

definition exposure :: "Position list \<Rightarrow> rat" where
  "exposure ps = sum_list (map (\<lambda>p. \<bar>position_value p\<bar>) ps)"

definition dimension_resolved :: "Candidate \<Rightarrow> Dimension \<Rightarrow> bool" where
  "dimension_resolved c dm \<longleftrightarrow>
     classifiedDimension dm \<longrightarrow> list_all (\<lambda>p. bucketKey c dm p \<noteq> []) (holdings (c_Book c))"

definition in_bucket :: "Candidate \<Rightarrow> Dimension \<Rightarrow> string \<Rightarrow> Position list" where
  "in_bucket c dm key = filter (\<lambda>p. bucketKey c dm p = key) (holdings (c_Book c))"

definition concentration_ok :: "Candidate \<Rightarrow> ConcentrationLimit \<Rightarrow> bool" where
  "concentration_ok c cl \<longleftrightarrow>
     marked (c_Book c) \<and> dimension_resolved c (cl_dimension cl)
     \<and> list_all (\<lambda>p. let key = bucketKey c (cl_dimension cl) p in
           cl_bucket cl \<in> {[], key} \<longrightarrow>
           exposure (in_bucket c (cl_dimension cl) key) \<le> dvalue (cl_max_weight cl) * exposure (holdings (c_Book c)))
         (holdings (c_Book c))"

definition restriction_ok :: "Candidate \<Rightarrow> RestrictionList \<Rightarrow> bool" where
  "restriction_ok c rl \<longleftrightarrow>
     marked (c_Book c) \<and> dimension_resolved c (rl_dimension rl)
     \<and> list_all (\<lambda>p. (rl_mode rl = MODE_DENY \<and> bucketKey c (rl_dimension rl) p \<notin> set (rl_values rl))
           \<or> (rl_mode rl = MODE_ALLOW_ONLY \<and> bucketKey c (rl_dimension rl) p \<in> set (rl_values rl)))
         (holdings (c_Book c))"

definition leverage_ok :: "ComplianceBook \<Rightarrow> decimal option \<Rightarrow> bool" where
  "leverage_ok b cap \<longleftrightarrow>
     nav_basis b = NAVBasisEquity \<and> 0 < dvalue (get_amount (NAV b)) \<and> marked b
     \<and> exposure (holdings b) \<le> dvalue cap * dvalue (get_amount (NAV b))"

definition risk_ok :: "ComplianceBook \<Rightarrow> RiskMeasureLimit \<Rightarrow> bool" where
  "risk_ok b rl \<longleftrightarrow>
     rm_measure_name rl \<noteq> []
     \<and> (case Risk b of None \<Rightarrow> False
        | Some f \<Rightarrow> (case f (rm_measure_name rl) of None \<Rightarrow> False | Some x \<Rightarrow> x \<le> dvalue (rm_max_value rl)))"

definition cash_buffer_ok :: "Candidate \<Rightarrow> decimal option \<Rightarrow> bool" where
  "cash_buffer_ok c limit \<longleftrightarrow>
     c_Order c \<noteq> None
     \<or> (limit \<noteq> None \<and> Vouched (Completeness (c_Book c))
        \<and> (case Cash (c_Book c) of None \<Rightarrow> False
           | Some m \<Rightarrow> FromProto (amount m) \<le> dvalue limit
               \<and> (FromProto (amount m) = 0 \<or> currency_code m = BaseCurrency (c_Book c))))"

text \<open>The order moves its instrument's position towards zero without crossing it.\<close>

definition de_risks :: "Candidate \<Rightarrow> bool" where
  "de_risks c \<longleftrightarrow>
     (case c_Order c of None \<Rightarrow> False
      | Some ord \<Rightarrow>
          (case find (\<lambda>p. InstrumentID p = co_InstrumentID ord) (Positions (c_Book c)) of None \<Rightarrow> False
           | Some p \<Rightarrow>
               let post = dvalue (Quantity p); pre = post - dvalue (co_SignedQuantity ord)
               in 0 \<le> post * pre \<and> \<bar>post\<bar> < \<bar>pre\<bar>))"

definition venue_of :: "Candidate \<Rightarrow> string" where
  "venue_of c = (case c_Order c of None \<Rightarrow> [] | Some ord \<Rightarrow> co_Venue ord)"

definition margin_ok :: "Candidate \<Rightarrow> VenueMarginLimit \<Rightarrow> bool" where
  "margin_ok c vm \<longleftrightarrow>
     (vm_min_margin_ratio vm \<noteq> None \<longrightarrow> vm_venue vm \<noteq> [])
     \<and> (de_risks c
        \<or> (venue_of c \<noteq> [] \<and> vm_venue vm \<noteq> [] \<and> venue_of c \<noteq> vm_venue vm)
        \<or> (let venue = (if venue_of c \<noteq> [] then venue_of c else vm_venue vm) in
            venue \<noteq> []
            \<and> (case Margin c of None \<Rightarrow> False
               | Some f \<Rightarrow>
                  (case f venue of None \<Rightarrow> False
                   | Some st \<Rightarrow> MarginComplete st
                      \<and> (case MarginRatio st of None \<Rightarrow> False
                         | Some q \<Rightarrow> vm_min_margin_ratio vm \<noteq> None \<longrightarrow> dvalue (vm_min_margin_ratio vm) \<le> q)))))"

definition rule_ok :: "Candidate \<Rightarrow> Rule \<Rightarrow> bool" where
  "rule_ok c r =
     (case rule_params r of
        No_params \<Rightarrow> False
      | Concentration cl \<Rightarrow> rule_type r = RULE_CONCENTRATION \<and> concentration_ok c cl
      | Restriction rl \<Rightarrow> rule_type r = RULE_RESTRICTION \<and> restriction_ok c rl
      | IssuerExclusion xs \<Rightarrow> rule_type r = RULE_ISSUER_EXCLUSION \<and> marked (c_Book c) \<and> dimension_resolved c DIM_ISSUER
          \<and> list_all (\<lambda>p. bucketKey c DIM_ISSUER p \<notin> set xs) (holdings (c_Book c))
      | LeverageCap cap \<Rightarrow> rule_type r = RULE_GROSS_LEVERAGE \<and> leverage_ok (c_Book c) cap
      | CurrencyRestriction ccys \<Rightarrow> rule_type r = RULE_CURRENCY \<and> marked (c_Book c)
          \<and> list_all (\<lambda>p. get_currency_code (MarketValue p) \<in> set ccys) (holdings (c_Book c))
      | BuyingPower low \<Rightarrow> rule_type r = RULE_BUYING_POWER
          \<and> (case Cash (c_Book c) of None \<Rightarrow> False | Some m \<Rightarrow> dvalue low \<le> dvalue (amount m))
      | RiskMeasure rl \<Rightarrow> rule_type r = RULE_RISK_MEASURE \<and> risk_ok (c_Book c) rl
      | VenueMargin vm \<Rightarrow> rule_type r = RULE_VENUE_MARGIN \<and> margin_ok c vm
      | CashBuffer limit \<Rightarrow> rule_type r = RULE_CASH_BUFFER \<and> cash_buffer_ok c limit)"

section \<open>The fold of the book\<close>

lemma ratFromDecimal_dvalue [simp]: "ratFromDecimal d = dvalue d"
proof (cases d)
  case (Some x)
  define e where "e = sint (exponent x)"
  have "(10 :: rat) powi e = (if e \<ge> 0 then 10 ^ nat e else 1 / 10 ^ nat (- e))"
    by (simp add: power_int_def inverse_eq_divide power_one_over)
  then show ?thesis by (simp add: Some ratFromDecimal_def dval_def Let_def flip: e_def)
qed (simp add: ratFromDecimal_def)

lemma absRatFromMoney_value: "absRatFromMoney (MarketValue p) = \<bar>position_value p\<bar>"
  by (simp add: absRatFromMoney_def position_value_def)

lemma unmarkedPosition_iff:
  "unmarkedPosition p \<longleftrightarrow> get_amount (MarketValue p) = None \<or> get_currency_code (MarketValue p) = []"
  by (auto simp: unmarkedPosition_def unmarkedReason_def get_amount_def get_currency_code_def split: option.split)

lemma zeroMark_iff: "zeroMark p \<longleftrightarrow> position_value p = 0"
  by (simp add: zeroMark_def position_value_def dvalue_get)

lemma unmarkedHoldings_None: "unmarkedHoldings c what = None \<longleftrightarrow> marked (c_Book c)"
  by (auto simp: unmarkedHoldings_def marked_def Let_def filter_empty_conv list_all_iff unmarkedPosition_iff)

lemma foldl_gross: "foldl (\<lambda>g p. g + f p) a ps = a + sum_list (map f ps)" for a :: rat
  by (induction ps arbitrary: a) (simp_all add: add.assoc)

lemma marked_held:
  assumes "marked (c_Book c)"
  shows "filter (\<lambda>p. \<not> (unmarkedPosition p \<or> zeroMark p)) (Positions (c_Book c)) = holdings (c_Book c)"
  using assms unfolding holdings_def
  by (intro filter_cong) (auto simp: marked_def list_all_iff unmarkedPosition_iff zeroMark_iff)

lemma marked_heldPositions: "marked (c_Book c) \<Longrightarrow> heldPositions c = sort_key InstrumentID (holdings (c_Book c))"
  unfolding heldPositions_def foldBook_def Let_def by (simp only: marked_held candidateFold.simps)

lemma marked_totalGross: "marked (c_Book c) \<Longrightarrow> totalGross c = exposure (holdings (c_Book c))"
  unfolding totalGross_def foldBook_def Let_def
  by (simp only: marked_held candidateFold.simps foldl_gross exposure_def absRatFromMoney_value add_0)

lemma set_heldPositions: "marked (c_Book c) \<Longrightarrow> set (heldPositions c) = set (holdings (c_Book c))"
  by (simp add: marked_heldPositions)

lemma exposure_pos: "ps \<noteq> [] \<Longrightarrow> \<forall>p\<in>set ps. position_value p \<noteq> 0 \<Longrightarrow> 0 < exposure ps"
proof (induction ps)
  case (Cons p ps)
  have "0 \<le> exposure ps" unfolding exposure_def by (rule sum_list_nonneg) auto
  then show ?case using Cons.prems by (simp add: exposure_def add_pos_nonneg)
qed simp

lemma exposure_holdings_pos: "holdings b \<noteq> [] \<Longrightarrow> 0 < exposure (holdings b)"
  by (rule exposure_pos) (simp_all add: holdings_def)

lemma exposure_zero: "exposure (holdings b) = 0 \<longleftrightarrow> holdings b = []"
  using exposure_holdings_pos [of b] by (cases "holdings b = []") (simp_all add: exposure_def)

lemma bucketKey_unclassified:
  "c_Classifier c = None \<Longrightarrow> classifiedDimension dm \<Longrightarrow> bucketKey c dm p = []"
  by (auto simp: bucketKey_def classify_def no_attributes_def classifiedDimension_def)

lemma unresolvedDimension_None:
  assumes "marked (c_Book c)"
  shows "unresolvedDimension c what dm = None \<longleftrightarrow> dimension_resolved c dm"
proof (cases "c_Classifier c = None")
  case True
  then show ?thesis
    using set_heldPositions [OF assms] bucketKey_unclassified [OF True, of dm]
    by (cases "holdings (c_Book c)") (auto simp: unresolvedDimension_def dimension_resolved_def Let_def list_all_iff)
next
  case False
  then show ?thesis
    using set_heldPositions [OF assms]
    by (auto simp: unresolvedDimension_def dimension_resolved_def Let_def list_all_iff filter_empty_conv)
qed

lemma grossByDimension_step:
  "map_of (foldl (\<lambda>out p. AList.map_default (key p) (f p) (\<lambda>g. g + f p) out) [] ps) k =
     (if \<exists>p\<in>set ps. key p = k then Some (sum_list (map f (filter (\<lambda>p. key p = k) ps))) else None)"
  for f :: "'a \<Rightarrow> rat"
proof (induction ps rule: rev_induct)
  case (snoc p ps)
  show ?case
  proof (cases "k = key p")
    case True
    then show ?thesis using snoc by (cases "\<exists>q\<in>set ps. key q = key p") (auto simp: map_of_map_default)
  next
    case False
    then show ?thesis using snoc by (auto simp: map_of_map_default)
  qed
qed simp

lemma sum_list_sort_key: "sum_list (map f (filter P (sort_key k ps))) = sum_list (map f (filter P ps))" for f :: "'a \<Rightarrow> rat"
  proof -
  have "mset (map f (filter P (sort_key k ps))) = mset (map f (filter P ps))" by (simp add: mset_filter)
  then have "sum_mset (mset (map f (filter P (sort_key k ps)))) = sum_mset (mset (map f (filter P ps)))" by simp
  then show ?thesis by (simp only: sum_mset_sum_list)
qed

lemma map_of_grossByDimension:
  assumes "marked (c_Book c)"
  shows "map_of (grossByDimension c dm) k =
    (if \<exists>p\<in>set (holdings (c_Book c)). bucketKey c dm p = k then Some (exposure (in_bucket c dm k)) else None)"
  unfolding grossByDimension_def grossByDimension_step set_heldPositions [OF assms]
  by (simp add: marked_heldPositions [OF assms] sum_list_sort_key exposure_def in_bucket_def absRatFromMoney_value)

section \<open>Each rule decides what it means\<close>

lemma heldPositions_Nil: "marked (c_Book c) \<Longrightarrow> heldPositions c = [] \<longleftrightarrow> holdings (c_Book c) = []"
  using set_heldPositions [of c] by (auto simp del: set_empty simp flip: set_empty)

lemma concentration_check:
  assumes "p \<in> set (holdings b)"
  shows "x / exposure (holdings b) \<le> y \<longleftrightarrow> x \<le> y * exposure (holdings b)"
proof -
  have "0 < exposure (holdings b)" using assms by (intro exposure_holdings_pos) auto
  then show ?thesis by (simp add: pos_divide_le_eq)
qed

lemma set_sortedKeys: "set (sortedKeys m) = dom (map_of m)"
  by (simp add: sortedKeys_def dom_map_of_conv_image_fst)

lemma ConcentrationRule_iff:
  assumes "rule_params r = Concentration cl"
  shows "ConcentrationRule c r = None \<longleftrightarrow> concentration_ok c cl"
proof (cases "marked (c_Book c) \<and> holdings (c_Book c) \<noteq> [] \<and> dimension_resolved c (cl_dimension cl)")
  case True
  then have mk: "marked (c_Book c)" and ne: "exposure (holdings (c_Book c)) \<noteq> 0" by (simp_all add: exposure_zero)
  let ?b = "\<lambda>k. map_of (grossByDimension c (cl_dimension cl)) k"
  note bucket = map_of_grossByDimension [OF mk, of "cl_dimension cl"]
  have um: "unmarkedHoldings c ''concentration'' = None" using mk by (simp only: unmarkedHoldings_None)
  have ur: "unresolvedDimension c ''concentration'' (cl_dimension cl) = None"
    using mk True by (simp only: unresolvedDimension_None)
  show ?thesis
  proof (cases "cl_bucket cl = []")
    case all: True
    have "ConcentrationRule c r = None \<longleftrightarrow>
        (\<forall>k\<in>dom ?b. the (?b k) / totalGross c \<le> dvalue (cl_max_weight cl))"
      by (simp add: ConcentrationRule_def assms um ur all Let_def first_some_None set_sortedKeys marked_totalGross [OF mk] ne)
    also have "\<dots> \<longleftrightarrow> concentration_ok c cl"
      using True by (auto simp: bucket dom_def marked_totalGross [OF mk] concentration_ok_def Let_def list_all_iff all concentration_check)
    finally show ?thesis .
  next
    case one: False
    have "ConcentrationRule c r = None \<longleftrightarrow>
        (\<forall>g. ?b (cl_bucket cl) = Some g \<longrightarrow> g / totalGross c \<le> dvalue (cl_max_weight cl))"
      by (simp add: ConcentrationRule_def assms um ur one Let_def marked_totalGross [OF mk] ne split: option.split)
    also have "\<dots> \<longleftrightarrow> concentration_ok c cl"
      using True one by (auto simp: bucket marked_totalGross [OF mk] concentration_ok_def Let_def list_all_iff concentration_check)
    finally show ?thesis .
  qed
next
  case False
  then consider "\<not> marked (c_Book c)" | "marked (c_Book c)" "holdings (c_Book c) = []"
    | "marked (c_Book c)" "holdings (c_Book c) \<noteq> []" "\<not> dimension_resolved c (cl_dimension cl)" by blast
  then show ?thesis
  proof cases
    case 2
    then have "totalGross c = 0" by (simp add: marked_totalGross exposure_def)
    with 2 show ?thesis
      by (simp add: ConcentrationRule_def assms concentration_ok_def unmarkedHoldings_None guarded_None dimension_resolved_def)
  next
    case 3
    then have "totalGross c \<noteq> 0" by (simp add: marked_totalGross exposure_zero)
    with 3 show ?thesis
      by (simp add: ConcentrationRule_def assms concentration_ok_def guarded_None unresolvedDimension_None)
  qed (simp add: ConcentrationRule_def assms concentration_ok_def unmarkedHoldings_None guarded_None)
qed

lemma RestrictionRule_iff:
  "rule_params r = Restriction rl \<Longrightarrow> RestrictionRule c r = None \<longleftrightarrow> restriction_ok c rl"
  by (cases "rl_mode rl")
    (auto simp: RestrictionRule_def restriction_ok_def unmarkedHoldings_None unresolvedDimension_None first_some_None
      set_heldPositions list_all_iff Let_def guarded_None heldPositions_Nil)

lemma IssuerExclusionRule_iff:
  "rule_params r = IssuerExclusion xs \<Longrightarrow> IssuerExclusionRule c r = None \<longleftrightarrow>
     marked (c_Book c) \<and> dimension_resolved c DIM_ISSUER
     \<and> list_all (\<lambda>p. bucketKey c DIM_ISSUER p \<notin> set xs) (holdings (c_Book c))"
  by (auto simp: IssuerExclusionRule_def unmarkedHoldings_None unresolvedDimension_None first_some_None
      set_heldPositions list_all_iff Let_def dimension_resolved_def classifiedDimension_def bucketKey_def guarded_None)

lemma unusableEquity_None:
  "unusableEquity c = None \<longleftrightarrow> nav_basis (c_Book c) = NAVBasisEquity \<and> 0 < dvalue (get_amount (NAV (c_Book c)))"
  by (auto simp: unusableEquity_def Let_def get_amount_def split: option.split)

lemma LeverageRule_iff:
  "rule_params r = LeverageCap cap \<Longrightarrow> LeverageRule c r = None \<longleftrightarrow> leverage_ok (c_Book c) cap"
  by (auto simp: LeverageRule_def leverage_ok_def Let_def unusableEquity_None unmarkedHoldings_None marked_totalGross
      pos_divide_le_eq guarded_None)

lemma CurrencyRule_iff:
  "rule_params r = CurrencyRestriction xs \<Longrightarrow> CurrencyRule c r = None \<longleftrightarrow>
     marked (c_Book c) \<and> list_all (\<lambda>p. get_currency_code (MarketValue p) \<in> set xs) (holdings (c_Book c))"
  by (auto simp: CurrencyRule_def unmarkedHoldings_None first_some_None set_heldPositions list_all_iff Let_def guarded_None)

lemma BuyingPowerRule_iff:
  "rule_params r = BuyingPower low \<Longrightarrow> BuyingPowerRule c r = None \<longleftrightarrow>
     (case Cash (c_Book c) of None \<Rightarrow> False | Some m \<Rightarrow> dvalue low \<le> dvalue (amount m))"
  by (auto simp: BuyingPowerRule_def Let_def split: option.split)

lemma RiskLimitRule_iff:
  "rule_params r = RiskMeasure rml \<Longrightarrow> RiskLimitRule c r = None \<longleftrightarrow> risk_ok (c_Book c) rml"
  by (auto simp: RiskLimitRule_def risk_ok_def Let_def split: option.split)

lemma CashBufferRule_iff:
  "rule_params r = CashBuffer limit \<Longrightarrow> CashBufferRule quoted c r = None \<longleftrightarrow> cash_buffer_ok c limit"
  by (auto simp: CashBufferRule_def cash_buffer_ok_def MoneyIn_def Let_def sgn_eq_0_iff split: option.split)

lemma towards_zero:
  fixes post delta :: rat
  shows "(sgn delta \<noteq> 0 \<and> \<not> (sgn (post - delta) = 0 \<or> sgn (post - delta) = sgn delta)
      \<and> (sgn post = 0 \<or> sgn post = sgn (post - delta)))
    \<longleftrightarrow> 0 \<le> post * (post - delta) \<and> \<bar>post\<bar> < \<bar>post - delta\<bar>"
  by (auto simp: sgn_if zero_le_mult_iff abs_if split: if_splits)

lemma orderReducesPosition_iff: "orderReducesPosition c \<longleftrightarrow> de_risks c"
  unfolding orderReducesPosition_def de_risks_def Let_def ratFromDecimal_dvalue
  using towards_zero by (auto split: option.split)

text \<open>The part of the venue rule that reads the observed margin.\<close>

lemma margin_observation_iff:
  "(case obs of
      None \<Rightarrow> Some v1
    | Some st \<Rightarrow>
        if \<not> CoverageReported st then Some (v2 st)
        else if ExcludedCount st > 0 then Some (v3 st)
        else (case MarginRatio st of
           None \<Rightarrow> Some (v4 st)
         | Some q \<Rightarrow>
             if low = None then None
             else if q \<ge> ratFromDecimal low then None else Some (v5 st q))) = None
   \<longleftrightarrow> (case obs of
        None \<Rightarrow> False
      | Some st \<Rightarrow> MarginComplete st
         \<and> (case MarginRatio st of None \<Rightarrow> False | Some q \<Rightarrow> low \<noteq> None \<longrightarrow> dvalue low \<le> q))"
  by (auto simp: MarginComplete_def word_gt_0 split: option.split)

lemma VenueMarginRule_iff:
  assumes "rule_params r = VenueMargin vm"
  shows "VenueMarginRule c r = None \<longleftrightarrow> margin_ok c vm"
proof -
  let ?low = "vm_min_margin_ratio vm" and ?declared = "vm_venue vm"
  let ?venue = "if venue_of c \<noteq> [] then venue_of c else ?declared"
  note rule = VenueMarginRule_def assms RuleParams.case Let_def venue_of_def [symmetric] orderReducesPosition_iff
  consider "?low \<noteq> None \<and> ?declared = []" | "\<not> (?low \<noteq> None \<and> ?declared = [])" "de_risks c"
    | "\<not> (?low \<noteq> None \<and> ?declared = [])" "\<not> de_risks c" "venue_of c \<noteq> [] \<and> ?declared \<noteq> [] \<and> ?declared \<noteq> venue_of c"
    | "\<not> (?low \<noteq> None \<and> ?declared = [])" "\<not> de_risks c" "\<not> (venue_of c \<noteq> [] \<and> ?declared \<noteq> [] \<and> ?declared \<noteq> venue_of c)"
    by blast
  then show ?thesis
  proof cases
    case 4
    then have "VenueMarginRule c r = None \<longleftrightarrow> ?venue \<noteq> [] \<and> (case Margin c of None \<Rightarrow> False | Some f \<Rightarrow>
        (case f ?venue of None \<Rightarrow> False | Some st \<Rightarrow> MarginComplete st
         \<and> (case MarginRatio st of None \<Rightarrow> False | Some q \<Rightarrow> ?low \<noteq> None \<longrightarrow> dvalue ?low \<le> q)))"
      by (cases "?venue = []"; cases "Margin c") (simp_all only: rule if_True if_False margin_observation_iff
          option.case option.distinct simp_thms refl)
    moreover have "\<not> (venue_of c \<noteq> [] \<and> ?declared \<noteq> [] \<and> venue_of c \<noteq> ?declared)" using 4(3) by metis
    ultimately show ?thesis using 4(1,2) unfolding margin_ok_def Let_def by blast
  next
    case 3
    then have "VenueMarginRule c r = None" by (simp add: rule)
    with 3 show ?thesis by (auto simp: margin_ok_def)
  next
    case 2
    then have "VenueMarginRule c r = None" by (simp add: rule)
    with 2 show ?thesis by (auto simp: margin_ok_def)
  qed (simp add: rule margin_ok_def)
qed

section \<open>The engine over any registry\<close>

text \<open>
  A registry whose evaluators decide a specification \<open>ok\<close>. \<open>binding\<close> are the rules whose violation refuses:
  the unregistered ones, and the ones whose configured severity is BREACH or left unspecified.
\<close>

definition hard_rule :: "RuleRegistry \<Rightarrow> Rule \<Rightarrow> bool" where
  "hard_rule registry r \<longleftrightarrow> registry (rule_type r) = None \<or> on_violation r \<in> {STATUS_BREACH, STATUS_UNSPECIFIED}"

definition effective_severity :: "RuleRegistry \<Rightarrow> Rule \<Rightarrow> ComplianceStatus" where
  "effective_severity registry r = (if registry (rule_type r) = None then STATUS_BREACH else violationSeverity r)"

lemma hard_rule_iff: "hard_rule registry r \<longleftrightarrow> effective_severity registry r = STATUS_BREACH"
  by (auto simp: hard_rule_def effective_severity_def violationSeverity_def)

lemma evaluate_fold:
  "let res' = foldl (evaluate_step registry c) res rs in
     res_violations res' = res_violations res @ List.map_filter (evaluate_rule registry c) rs
     \<and> res_status res' = foldl worst (res_status res) (map v_severity (List.map_filter (evaluate_rule registry c) rs))
     \<and> res_mandate_version res' = res_mandate_version res \<and> res_mandate_id res' = res_mandate_id res
     \<and> res_portfolio_id res' = res_portfolio_id res \<and> res_evaluated_at res' = res_evaluated_at res"
proof (induction rs arbitrary: res)
  case (Cons r rs)
  show ?case using Cons.IH [of "evaluate_step registry c res r"]
    by (cases "evaluate_rule registry c r") (simp_all add: evaluate_step_def Let_def List.map_filter_def)
qed (simp add: List.map_filter_def)

lemma worst_rank: "severity_rank (worst a b) = max (severity_rank a) (severity_rank b)"
  by (simp add: worst_def)

lemma worst_fold_rank: "severity_rank (foldl worst s ss) = Max (insert (severity_rank s) (severity_rank ` set ss))"
proof (induction ss arbitrary: s)
  case (Cons t ss)
  show ?case
    by (cases "severity_rank ` set ss = {}") (simp_all add: Cons worst_rank max.left_commute max.commute)
qed simp

lemma worst_breach: "foldl worst s ss = STATUS_BREACH \<longleftrightarrow> s = STATUS_BREACH \<or> STATUS_BREACH \<in> set ss"
proof (induction ss arbitrary: s)
  case (Cons t ss)
  have "worst s t = STATUS_BREACH \<longleftrightarrow> s = STATUS_BREACH \<or> t = STATUS_BREACH"
    by (cases s; cases t) (auto simp: worst_def)
  then show ?case using Cons by auto
qed simp

lemma evaluate_rule_severity:
  "evaluate_rule registry c r = Some v \<Longrightarrow> v_severity v = effective_severity registry r \<and> v_rule_id v = rule_id r
     \<and> v_rule_type v = rule_type r"
  by (auto simp: evaluate_rule_def effective_severity_def split: option.splits)

locale rule_semantics =
  fixes registry :: RuleRegistry
    and ok :: "Candidate \<Rightarrow> Rule \<Rightarrow> bool"
  assumes decides: "registry (rule_type r) = Some fn \<Longrightarrow> fn c r = None \<longleftrightarrow> ok c r"
    and unregistered: "registry (rule_type r) = None \<Longrightarrow> \<not> ok c r"
begin

lemma evaluate_rule_iff: "evaluate_rule registry c r = None \<longleftrightarrow> ok c r"
  using decides [of r _ c] unregistered [of r c] by (cases "registry (rule_type r)") (auto simp: evaluate_rule_def split: option.split)

lemma violations_iff: "res_violations (engine_Evaluate registry c m) = [] \<longleftrightarrow> (\<forall>r\<in>set (rules m). ok c r)"
  using evaluate_fold [of registry c _ "rules m"]
  by (simp add: engine_Evaluate_def Let_def List.map_filter_def filter_empty_conv evaluate_rule_iff)

lemma status_breach_iff:
  "res_status (engine_Evaluate registry c m) = STATUS_BREACH \<longleftrightarrow>
     (\<exists>r\<in>set (rules m). hard_rule registry r \<and> \<not> ok c r)"
proof -
  let ?vs = "List.map_filter (evaluate_rule registry c) (rules m)"
  have "res_status (engine_Evaluate registry c m) = STATUS_BREACH \<longleftrightarrow> STATUS_BREACH \<in> set (map v_severity ?vs)"
    using evaluate_fold [of registry c _ "rules m"] by (simp add: engine_Evaluate_def Let_def worst_breach)
  also have "\<dots> \<longleftrightarrow> (\<exists>r\<in>set (rules m). \<exists>v. evaluate_rule registry c r = Some v \<and> v_severity v = STATUS_BREACH)"
    by (force simp: List.map_filter_def)
  also have "\<dots> \<longleftrightarrow> (\<exists>r\<in>set (rules m). \<not> ok c r \<and> effective_severity registry r = STATUS_BREACH)"
  proof -
    have "(\<exists>v. evaluate_rule registry c r = Some v \<and> v_severity v = STATUS_BREACH)
        \<longleftrightarrow> \<not> ok c r \<and> effective_severity registry r = STATUS_BREACH" for r
      using evaluate_rule_severity [of registry c r] evaluate_rule_iff [of c r] by (cases "evaluate_rule registry c r") auto
    then show ?thesis by simp
  qed
  also have "\<dots> \<longleftrightarrow> (\<exists>r\<in>set (rules m). hard_rule registry r \<and> \<not> ok c r)"
    by (auto simp: hard_rule_iff)
  finally show ?thesis .
qed

end

lemmas rule_iffs = ConcentrationRule_iff RestrictionRule_iff IssuerExclusionRule_iff LeverageRule_iff CurrencyRule_iff
  BuyingPowerRule_iff RiskLimitRule_iff CashBufferRule_iff VenueMarginRule_iff

lemmas rule_defs = ConcentrationRule_def RestrictionRule_def IssuerExclusionRule_def LeverageRule_def CurrencyRule_def
  BuyingPowerRule_def RiskLimitRule_def CashBufferRule_def VenueMarginRule_def

lemma DefaultRegistry_cases:
  "DefaultRegistry quoted t = (case t of
     RULE_CONCENTRATION \<Rightarrow> Some ConcentrationRule | RULE_RESTRICTION \<Rightarrow> Some RestrictionRule
   | RULE_ISSUER_EXCLUSION \<Rightarrow> Some IssuerExclusionRule | RULE_GROSS_LEVERAGE \<Rightarrow> Some LeverageRule
   | RULE_CURRENCY \<Rightarrow> Some CurrencyRule | RULE_BUYING_POWER \<Rightarrow> Some BuyingPowerRule
   | RULE_RISK_MEASURE \<Rightarrow> Some RiskLimitRule | RULE_VENUE_MARGIN \<Rightarrow> Some VenueMarginRule
   | RULE_CASH_BUFFER \<Rightarrow> Some (CashBufferRule quoted) | _ \<Rightarrow> None)"
  by (cases t) (simp_all add: DefaultRegistry_def Register_def NewRegistry_def Let_def)

text \<open>A rule whose parameters belong to another type is a violation.\<close>

lemma matching_params:
  "ConcentrationRule c r = None \<Longrightarrow> \<exists>x. rule_params r = Concentration x"
  "RestrictionRule c r = None \<Longrightarrow> \<exists>x. rule_params r = Restriction x"
  "IssuerExclusionRule c r = None \<Longrightarrow> \<exists>x. rule_params r = IssuerExclusion x"
  "LeverageRule c r = None \<Longrightarrow> \<exists>x. rule_params r = LeverageCap x"
  "CurrencyRule c r = None \<Longrightarrow> \<exists>x. rule_params r = CurrencyRestriction x"
  "BuyingPowerRule c r = None \<Longrightarrow> \<exists>x. rule_params r = BuyingPower x"
  "RiskLimitRule c r = None \<Longrightarrow> \<exists>x. rule_params r = RiskMeasure x"
  "VenueMarginRule c r = None \<Longrightarrow> \<exists>x. rule_params r = VenueMargin x"
  "CashBufferRule quoted c r = None \<Longrightarrow> \<exists>x. rule_params r = CashBuffer x"
  subgoal by (cases "rule_params r") (simp_all add: ConcentrationRule_def)
  subgoal by (cases "rule_params r") (simp_all add: RestrictionRule_def)
  subgoal by (cases "rule_params r") (simp_all add: IssuerExclusionRule_def)
  subgoal by (cases "rule_params r") (simp_all add: LeverageRule_def)
  subgoal by (cases "rule_params r") (simp_all add: CurrencyRule_def)
  subgoal by (cases "rule_params r") (simp_all add: BuyingPowerRule_def)
  subgoal by (cases "rule_params r") (simp_all add: RiskLimitRule_def)
  subgoal by (cases "rule_params r") (simp_all add: VenueMarginRule_def)
  subgoal by (cases "rule_params r") (simp_all add: CashBufferRule_def)
  done

lemma DefaultRegistry_decides:
  assumes "DefaultRegistry quoted (rule_type r) = Some fn"
  shows "fn c r = None \<longleftrightarrow> rule_ok c r"
  using assms matching_params [where c = c and r = r]
  by (cases "rule_type r"; cases "rule_params r") (auto simp: DefaultRegistry_cases rule_ok_def rule_iffs)

lemma DefaultRegistry_unregistered: "DefaultRegistry quoted (rule_type r) = None \<Longrightarrow> \<not> rule_ok c r"
  by (cases "rule_type r"; cases "rule_params r") (auto simp: DefaultRegistry_cases rule_ok_def)

interpretation default_rules: rule_semantics "DefaultRegistry quoted" rule_ok for quoted
  by unfold_locales (rule DefaultRegistry_decides DefaultRegistry_unregistered, assumption)+
section \<open>The engine refuses exactly what its rules refuse\<close>

text \<open>
  C21: The engine over the default registry decides the specification of the rules: its status is BREACH
  exactly when some rule of the mandate that is unregistered, or whose configured severity is BREACH or
  unspecified, does not hold of the candidate; it lists no violation exactly when every rule holds; and
  the severity it reports is the worst over the rules that do not hold.
\<close>

theorem engine_decides:
  "(res_status (engine_Evaluate (DefaultRegistry quoted) c m) = STATUS_BREACH \<longleftrightarrow>
      (\<exists>r\<in>set (rules m). \<not> rule_ok c r \<and> hard_rule (DefaultRegistry quoted) r))
   \<and> (res_violations (engine_Evaluate (DefaultRegistry quoted) c m) = [] \<longleftrightarrow> (\<forall>r\<in>set (rules m). rule_ok c r))
   \<and> severity_rank (res_status (engine_Evaluate (DefaultRegistry quoted) c m)) =
       Max (insert 1 {severity_rank (effective_severity (DefaultRegistry quoted) r) |r. r \<in> set (rules m) \<and> \<not> rule_ok c r})"
proof -
  let ?reg = "DefaultRegistry quoted"
  have "severity_rank ` set (map v_severity (List.map_filter (evaluate_rule ?reg c) (rules m)))
      = {severity_rank (effective_severity ?reg r) |r. r \<in> set (rules m) \<and> \<not> rule_ok c r}" (is "?L = ?R")
  proof
    show "?L \<subseteq> ?R"
      using evaluate_rule_severity [of ?reg c] default_rules.evaluate_rule_iff [of quoted c]
      by (fastforce simp: List.map_filter_def)
    show "?R \<subseteq> ?L"
    proof
      fix n assume "n \<in> ?R"
      then obtain r where r: "r \<in> set (rules m)" "\<not> rule_ok c r" "n = severity_rank (effective_severity ?reg r)" by blast
      then obtain v where v: "evaluate_rule ?reg c r = Some v"
        using default_rules.evaluate_rule_iff [of quoted c r] by blast
      then have "v \<in> set (List.map_filter (evaluate_rule ?reg c) (rules m))"
        using r(1) by (force simp: List.map_filter_def)
      then show "n \<in> ?L" using evaluate_rule_severity [OF v] r(3) by force
    qed
  qed
  then have "severity_rank (res_status (engine_Evaluate ?reg c m)) =
      Max (insert 1 {severity_rank (effective_severity ?reg r) |r. r \<in> set (rules m) \<and> \<not> rule_ok c r})"
    using evaluate_fold [of ?reg c _ "rules m"] by (simp add: engine_Evaluate_def Let_def worst_fold_rank)
  then show ?thesis
    using default_rules.status_breach_iff [of quoted c m] default_rules.violations_iff [of quoted c m] by blast
qed

theorem engine_decides_witness:
  "res_status (engine_Evaluate (DefaultRegistry (\<lambda>s. s))
      \<lparr>c_Book = \<lparr>PortfolioID = ''growth'', BaseCurrency = ''USD'', Risk = None, NAV = None, nav_basis = NAVBasisUnspecified,
          NAVBasisDetail = [], Cash = Some \<lparr>amount = Some \<lparr>coefficient = 5, exponent = 0\<rparr>, currency_code = ''USD''\<rparr>,
          Completeness = None, Positions = []\<rparr>,
       c_Classifier = None, c_AsOf = 1, ClassifyAsOf = 0, c_Order = None, Margin = None\<rparr>
      \<lparr>mandate_id = ''m'', tenant_id = ''acme'', portfolio_id = ''growth'', mandate_version = 1,
       rules = [\<lparr>rule_id = ''cash'', rule_type = RULE_BUYING_POWER, on_violation = STATUS_UNSPECIFIED,
                 rule_params = BuyingPower (Some \<lparr>coefficient = 10, exponent = 0\<rparr>)\<rparr>],
       effective_at = None\<rparr>) = STATUS_BREACH"
  unfolding engine_decides [THEN conjunct1]
  by (simp add: rule_ok_def hard_rule_def dval_def)

text \<open>
  The package comment says that a rule whose params do not match its type resolves to BREACH, never PASS;
  the engine gives it the rule's own severity, so under an advisory rule it is a warning.
\<close>

lemma mismatch_under_warn:
  "res_status (engine_Evaluate (DefaultRegistry quoted) c
     \<lparr>mandate_id = [], tenant_id = [], portfolio_id = [], mandate_version = 0,
      rules = [\<lparr>rule_id = [], rule_type = RULE_CURRENCY, on_violation = STATUS_WARN, rule_params = No_params\<rparr>], effective_at = None\<rparr>) = STATUS_WARN"
  by (simp add: engine_Evaluate_def evaluate_step_def evaluate_rule_def DefaultRegistry_cases CurrencyRule_def worst_def
      violationSeverity_def)

text \<open>A severity outside the schema, which an open enum admits, ranks below PASS: the violation is listed and the
  order is not refused.\<close>

lemma unknown_severity_passes:
  "let res = engine_Evaluate (DefaultRegistry quoted) c
     \<lparr>mandate_id = [], tenant_id = [], portfolio_id = [], mandate_version = 0,
      rules = [\<lparr>rule_id = [], rule_type = RULE_CURRENCY, on_violation = STATUS_other 4, rule_params = No_params\<rparr>], effective_at = None\<rparr>
   in res_status res = STATUS_PASS \<and> length (res_violations res) = 1"
  by (simp add: engine_Evaluate_def evaluate_step_def evaluate_rule_def DefaultRegistry_cases CurrencyRule_def worst_def
      violationSeverity_def)

end
