(* ===== verification/Subject_Token.thy ===== *)
theory Subject_Token
  imports Go_Lib
begin

text \<open>
  Subject tokens \<open>internal/platform/subject\<close>: the percent-escaping of ids into single NATS subject tokens
  (\<open>token.go\<close>) and the subjects of the compacted position streams (\<open>subject.go\<close>). A Go byte is a
  \<^typ>\<open>char\<close>, read as a number by \<^const>\<open>of_char\<close>.
\<close>

section \<open>Tokens\<close>

definition EmptyToken :: string where
  "EmptyToken = ''%_EMPTY''"

definition upperhex :: string where
  "upperhex = ''0123456789ABCDEF''"

definition byte_of :: "char \<Rightarrow> nat" where
  "byte_of c = of_char c"

definition safeTokenByte :: "char \<Rightarrow> bool" where
  "safeTokenByte b \<longleftrightarrow> \<not> (byte_of b < 0x21 \<or> byte_of b > 0x7e) \<and> b \<notin> {CHR ''.'', CHR ''*'', CHR ''>'', CHR ''%''}"

definition escape_byte :: "char \<Rightarrow> string" where
  "escape_byte c =
     (if safeTokenByte c then [c]
      else [CHR ''%'', upperhex ! (byte_of c div 16), upperhex ! (byte_of c mod 16)])"

definition Token :: "string \<Rightarrow> string" where
  "Token s =
     (if s = [] then EmptyToken
      else let escapes = length (filter (\<lambda>c. \<not> safeTokenByte c) s) in
        if escapes = 0 then s else concat (map escape_byte s))"

definition unhex :: "char \<Rightarrow> nat option" where
  "unhex c =
     (if byte_of (CHR ''0'') \<le> byte_of c \<and> byte_of c \<le> byte_of (CHR ''9'') then Some (byte_of c - byte_of (CHR ''0''))
      else if byte_of (CHR ''A'') \<le> byte_of c \<and> byte_of c \<le> byte_of (CHR ''F'')
      then Some (byte_of c - byte_of (CHR ''A'') + 10)
      else None)"

text \<open>Why a token does not decode; the Go errors carry the token and the offset in their text.\<close>

datatype token_error = Empty_token | Unsafe_byte char | Truncated_escape | Malformed_escape char char

text \<open>The loop of \<open>Detoken\<close> over the rest of the token; an escape needs two more bytes.\<close>

fun detoken_loop :: "string \<Rightarrow> token_error + string" where
  "detoken_loop [] = Inr []"
| "detoken_loop (c # cs) =
     (if c \<noteq> CHR ''%'' then
        (if \<not> safeTokenByte c then Inl (Unsafe_byte c)
         else map_sum (\<lambda>e. e) (\<lambda>b. c # b) (detoken_loop cs))
      else (case cs of
          h # l # cs' \<Rightarrow>
            (case (unhex h, unhex l) of
               (Some hi, Some lo) \<Rightarrow> map_sum (\<lambda>e. e) (\<lambda>b. char_of (hi * 16 + lo) # b) (detoken_loop cs')
             | _ \<Rightarrow> Inl (Malformed_escape h l))
        | _ \<Rightarrow> Inl Truncated_escape))"

definition Detoken :: "string \<Rightarrow> token_error + string" where
  "Detoken tok =
     (if tok = EmptyToken then Inr []
      else if tok = [] then Inl Empty_token
      else detoken_loop tok)"

section \<open>Subjects\<close>

definition PositionChanged :: string where
  "PositionChanged = ''risk.position.changed''"

definition VenuePositionChanged :: string where
  "VenuePositionChanged = ''risk.position.venue.changed''"

definition PositionFor :: "string \<Rightarrow> string \<Rightarrow> string \<Rightarrow> string" where
  "PositionFor tenantID portfolioID instrumentID =
     PositionChanged @ ''.'' @ Token tenantID @ ''.'' @ Token portfolioID @ ''.'' @ Token instrumentID"

definition VenuePositionFor :: "string \<Rightarrow> string \<Rightarrow> string \<Rightarrow> string \<Rightarrow> string" where
  "VenuePositionFor tenantID portfolioID venue instrumentID =
     VenuePositionChanged @ ''.'' @ Token tenantID @ ''.'' @ Token portfolioID @ ''.'' @ Token venue @ ''.''
       @ Token instrumentID"

section \<open>The round trip\<close>

lemma byte_of_lt: "byte_of c < 256"
  by (simp add: byte_of_def of_char_lt)

lemma char_of_byte [simp]: "char_of (byte_of c) = c"
  by (simp add: byte_of_def)

lemma hex_digit_round: "n < 16 \<Longrightarrow> unhex (upperhex ! n) = Some n"
proof -
  have "\<forall>n\<in>set [0..<16]. unhex (upperhex ! n) = Some n" by code_simp
  then show "n < 16 \<Longrightarrow> unhex (upperhex ! n) = Some n" by simp
qed

lemma upperhex_safe: "n < 16 \<Longrightarrow> upperhex ! n \<in> set upperhex"
  by (rule nth_mem) (simp add: upperhex_def)

lemma percent_unsafe [simp]: "\<not> safeTokenByte (CHR ''%'')" "\<not> safeTokenByte (CHR ''.'')"
  by (simp_all add: safeTokenByte_def)

lemma byte_halves: "byte_of c div 16 < 16" "byte_of c mod 16 < 16" "byte_of c div 16 * 16 + byte_of c mod 16 = byte_of c"
  using byte_of_lt [of c] by (simp_all add: less_mult_imp_div_less)

lemma detoken_escape: "detoken_loop (escape_byte c @ cs) = map_sum (\<lambda>e. e) (\<lambda>b. c # b) (detoken_loop cs)"
proof (cases "safeTokenByte c")
  case True
  then have "c \<noteq> CHR ''%''" by auto
  with True show ?thesis by (simp add: escape_byte_def)
next
  case False
  then show ?thesis
    using hex_digit_round [OF byte_halves(1) [of c]] hex_digit_round [OF byte_halves(2) [of c]] byte_halves(3) [of c]
    by (simp add: escape_byte_def)
qed

lemma detoken_concat: "detoken_loop (concat (map escape_byte s)) = Inr s"
  by (induction s) (simp_all add: detoken_escape)

lemma Token_escapes: "s \<noteq> [] \<Longrightarrow> Token s = concat (map escape_byte s)"
proof -
  have "filter (\<lambda>c. \<not> safeTokenByte c) s = [] \<Longrightarrow> concat (map escape_byte s) = s"
    by (induction s) (auto simp: escape_byte_def split: if_splits)
  then show "s \<noteq> [] \<Longrightarrow> Token s = concat (map escape_byte s)" by (simp add: Token_def)
qed

lemma Token_round_trip: "Detoken (Token s) = Inr s"
proof (cases s)
  case Nil
  then show ?thesis by (simp add: Token_def Detoken_def)
next
  case (Cons c cs)
  have loop: "detoken_loop (Token s) = Inr s" using detoken_concat [of s] Cons by (simp only: Token_escapes list.distinct not_False_eq_True)
  have "detoken_loop EmptyToken = Inl (Malformed_escape (CHR ''_'') (CHR ''E''))"
    by (simp add: EmptyToken_def unhex_def byte_of_def)
  then have "Token s \<noteq> EmptyToken" using loop by (metis sum.distinct(1))
  moreover have "Token s \<noteq> []" using loop Cons by (metis detoken_loop.simps(1) list.distinct(1) sum.inject(2))
  ultimately show ?thesis using loop by (simp add: Detoken_def)
qed

lemma Token_inject: "Token s = Token t \<longleftrightarrow> s = t"
  by (metis Token_round_trip sum.inject(2))

section \<open>A subject names one entity\<close>

lemma escape_no_dot: "CHR ''.'' \<notin> set (escape_byte c)"
proof (cases "safeTokenByte c")
  case True
  then show ?thesis by (auto simp: escape_byte_def)
next
  case False
  have "upperhex ! (byte_of c div 16) \<in> set upperhex" "upperhex ! (byte_of c mod 16) \<in> set upperhex"
    using byte_halves [of c] by (auto intro: upperhex_safe)
  then have "upperhex ! (byte_of c div 16) \<noteq> CHR ''.''" "upperhex ! (byte_of c mod 16) \<noteq> CHR ''.''"
    by (auto simp: upperhex_def)
  with False show ?thesis by (auto simp: escape_byte_def)
qed

lemma Token_no_dot: "CHR ''.'' \<notin> set (Token s)"
proof (cases "s = []")
  case True
  then show ?thesis by (simp add: Token_def EmptyToken_def)
qed (auto simp: Token_escapes escape_no_dot)

lemma token_split:
  assumes "Token a @ ''.'' @ x = Token b @ ''.'' @ y"
  shows "a = b \<and> x = y"
proof -
  have "takeWhile (\<lambda>c. c \<noteq> CHR ''.'') (Token s @ ''.'' @ z) = Token s" for s z
    using Token_no_dot [of s] by (subst takeWhile_append2) auto
  then have "Token a = Token b" using assms by metis
  with assms show ?thesis by (simp add: Token_inject)
qed

lemma PositionFor_inject:
  "PositionFor t p i = PositionFor t' p' i' \<Longrightarrow> t = t' \<and> p = p' \<and> i = i'"
  by (auto simp: PositionFor_def Token_inject dest!: token_split [unfolded append_Cons append_Nil])

lemma VenuePositionFor_inject:
  "VenuePositionFor t p v i = VenuePositionFor t' p' v' i' \<Longrightarrow> t = t' \<and> p = p' \<and> v = v' \<and> i = i'"
  by (auto simp: VenuePositionFor_def Token_inject dest!: token_split [unfolded append_Cons append_Nil])

lemma subjects_disjoint: "PositionFor t p i \<noteq> VenuePositionFor t' p' v' i'"
  by (simp add: PositionFor_def VenuePositionFor_def PositionChanged_def VenuePositionChanged_def)

text \<open>
  C40: Every id survives its token: \<open>Detoken\<close> returns exactly the id \<open>Token\<close> was given, for all byte strings,
  the empty one included. Hence two positions of the aggregate stream, or two venue positions, ride one
  compacted subject only if they are the same position, and an aggregate subject is never a venue subject.
\<close>

theorem subjects_are_identities:
  "Detoken (Token s) = Inr s
   \<and> (PositionFor t p i = PositionFor t' p' i' \<longleftrightarrow> t = t' \<and> p = p' \<and> i = i')
   \<and> (VenuePositionFor t p v i = VenuePositionFor t' p' v' i' \<longleftrightarrow> t = t' \<and> p = p' \<and> v = v' \<and> i = i')
   \<and> PositionFor t p i \<noteq> VenuePositionFor t' p' v' i'"
proof -
  have "PositionFor t p i = PositionFor t' p' i' \<longleftrightarrow> t = t' \<and> p = p' \<and> i = i'"
    by (rule iffI, erule PositionFor_inject, elim conjE, simp only:)
  moreover have "VenuePositionFor t p v i = VenuePositionFor t' p' v' i' \<longleftrightarrow> t = t' \<and> p = p' \<and> v = v' \<and> i = i'"
    by (rule iffI, erule VenuePositionFor_inject, elim conjE, simp only:)
  ultimately show ?thesis using Token_round_trip subjects_disjoint by blast
qed

text \<open>
  The comment on the charset of instrument ids still describes an earlier, lossy token: a dot and an underscore do not
  share a token, and line breaks do not reach the subject.
\<close>

lemma dot_and_underscore_differ:
  "Token ''VOD.L'' = ''VOD%2EL'' \<and> Token ''VOD_L'' = ''VOD_L'' \<and> Token [CHR 0x0D] = ''%0D'' \<and> Token [CHR 0x0A] = ''%0A''"
  by code_simp

text \<open>\<open>Detoken\<close> is documented to accept only what \<open>Token\<close> can emit; it also accepts the escape of a safe byte.\<close>

lemma Detoken_accepts_needless_escape: "Detoken ''%41'' = Inr ''A'' \<and> Token ''A'' \<noteq> ''%41''"
  by (simp add: Detoken_def EmptyToken_def Token_def unhex_def safeTokenByte_def byte_of_def char_of_def bit_Suc_0_iff)

end
