(* ===== verification/Mandate_Registry.thy ===== *)
theory Mandate_Registry
  imports Compliance_Rules Dual_Control Subject_Token "HOL-Library.Product_Lexorder"
begin

text \<open>
  Which mandate governs a portfolio: the registry the pre-trade gate reads (\<open>mandate.go\<close>,
  \<open>governance.go\<close>), the stream codec and consumer that fill it (\<open>mandate_codec.go\<close>), the publisher that
  writes the compacted stream (\<open>publisher.go\<close>) and the say-once ledger both the registry and the gate warn
  through (\<open>sayonce.go\<close>).

  \<^item> The JSON and protobuf encodings are the argument \<open>mandate_codec\<close>; \<open>sha256\<close> and the string tables are
    arguments as in the four-eyes rule. The broker's last message on a subject is an argument of the publisher.
  \<^item> A Go map from a key to a slice reads as nil where the key is absent: here a function with \<open>[]\<close>.
  \<^item> The locks order the operations of one registry; each operation below is one critical section.
\<close>

section \<open>The say-once ledger\<close>

record sayOnce =
  so_stable :: "string set"
  so_volatile :: "(string \<times> 64 word) list"
  so_seq :: "64 word"

definition empty_sayOnce :: sayOnce where
  "empty_sayOnce = \<lparr>so_stable = {}, so_volatile = [], so_seq = 0\<rparr>"

definition maxVolatileWarnings :: nat where
  "maxVolatileWarnings = 50000"

definition say_first :: "sayOnce \<Rightarrow> string \<Rightarrow> bool \<times> sayOnce" where
  "say_first s key =
     (if key \<in> so_stable s then (False, s) else (True, s\<lparr>so_stable := insert key (so_stable s)\<rparr>))"

definition say_sweep :: "sayOnce \<Rightarrow> sayOnce" where
  "say_sweep s =
     (let keep = word_of_nat (maxVolatileWarnings div 2);
          cutoff = (if so_seq s > keep then so_seq s - keep else 0)
      in s\<lparr>so_volatile := filter (\<lambda>(d, n). \<not> n < cutoff) (so_volatile s)\<rparr>)"

definition say_digest :: "(string \<Rightarrow> string) \<Rightarrow> string \<Rightarrow> string \<Rightarrow> string" where
  "say_digest sha256 key supplied = take 16 (sha256 (key @ [CHR 0x00] @ supplied))"

definition say_about :: "sayOnce \<Rightarrow> string \<Rightarrow> bool \<times> sayOnce" where
  "say_about s d =
     (let s = s\<lparr>so_seq := so_seq s + 1\<rparr> in
      if map_of (so_volatile s) d \<noteq> None
      then (False, s\<lparr>so_volatile := AList.update d (so_seq s) (so_volatile s)\<rparr>)
      else let s = (if length (so_volatile s) \<ge> maxVolatileWarnings then say_sweep s else s)
           in (True, s\<lparr>so_volatile := AList.update d (so_seq s) (so_volatile s)\<rparr>))"

definition firstAbout :: "(string \<Rightarrow> string) \<Rightarrow> sayOnce \<Rightarrow> string \<Rightarrow> string \<Rightarrow> bool \<times> sayOnce" where
  "firstAbout sha256 s key supplied = say_about s (say_digest sha256 key supplied)"

section \<open>Governance\<close>

datatype Governance = GovernanceUnspecified | Governed | NeverMandated | MandateLapsed

fun Governance_String :: "Governance \<Rightarrow> string" where
  "Governance_String Governed = ''governed''"
| "Governance_String NeverMandated = ''never_mandated''"
| "Governance_String MandateLapsed = ''mandate_lapsed''"
| "Governance_String GovernanceUnspecified = ''unspecified''"

definition NoMandate :: "Governance \<Rightarrow> bool" where
  "NoMandate g \<longleftrightarrow> g = NeverMandated \<or> g = MandateLapsed \<or> g = GovernanceUnspecified"

section \<open>The registry\<close>

text \<open>The errors of the package; the text of an error carries the ids it was raised with.\<close>

datatype mandate_error =
    ErrMandateTenantUnresolved
  | ErrMandateUnreadable mandate_error
  | Unspecified_cause
  | Nil_mandate
  | Ids_required
  | Undecodable
  | No_mandate_in_value
  | Unencodable
  | Empty_set
  | Not_covered dc_error
  | No_reader
  | Read_failed
  | Behind_in_force
  | Mandate_incomplete string

type_synonym mandateKey = "string \<times> string"

record MandateRegistry =
  byKey :: "mandateKey \<Rightarrow> Mandate list"
  tenantsByPortfolio :: "string \<Rightarrow> string list"
  rejected :: "(mandateKey \<times> mandate_error) list"
  dropped :: nat
  armed :: bool
  warned :: sayOnce

definition NewMandateRegistry :: MandateRegistry where
  "NewMandateRegistry = \<lparr>byKey = (\<lambda>_. []), tenantsByPortfolio = (\<lambda>_. []), rejected = [], dropped = 0,
     armed = False, warned = empty_sayOnce\<rparr>"

definition SystemTenant :: string where
  "SystemTenant = ''__system__''"

definition registry_Arm :: "MandateRegistry \<Rightarrow> MandateRegistry" where
  "registry_Arm r = r\<lparr>armed := True\<rparr>"

definition Drop :: "MandateRegistry \<Rightarrow> MandateRegistry" where
  "Drop r = r\<lparr>dropped := dropped r + 1\<rparr>"

definition registry_Reject :: "MandateRegistry \<Rightarrow> string \<Rightarrow> string \<Rightarrow> mandate_error option \<Rightarrow> MandateRegistry" where
  "registry_Reject r tenantID portfolioID cause =
     (if tenantID = [] \<or> portfolioID = [] then Drop r
      else r\<lparr>rejected := AList.update (tenantID, portfolioID)
               (case cause of None \<Rightarrow> Unspecified_cause | Some e \<Rightarrow> e) (rejected r)\<rparr>)"

definition Rejections :: "MandateRegistry \<Rightarrow> string list" where
  "Rejections r = sort (map (\<lambda>(k, _). fst k @ ''/'' @ snd k) (rejected r))"


definition effective :: "Mandate \<Rightarrow> instant" where
  "effective m = AsTime (effective_at m)"

text \<open>The order of a portfolio's versions, and the copy of them with one version replaced or added.\<close>

definition version_order :: "Mandate \<Rightarrow> instant \<times> 64 word" where
  "version_order m = (effective m, mandate_version m)"

fun replace_version :: "Mandate list \<Rightarrow> Mandate \<Rightarrow> Mandate list" where
  "replace_version [] m = [m]"
| "replace_version (v # vs) m = (if mandate_version v = mandate_version m then m # vs else v # replace_version vs m)"

definition put_version :: "Mandate list \<Rightarrow> Mandate \<Rightarrow> Mandate list" where
  "put_version vers m = sort_key version_order (replace_version vers m)"

definition retainSelectable :: "Mandate list \<Rightarrow> instant \<Rightarrow> Mandate list" where
  "retainSelectable vers asOf =
     (case find (\<lambda>i. \<not> effective (vers ! i) > asOf) (rev [0..<length vers]) of
        None \<Rightarrow> vers
      | Some start \<Rightarrow> if start = 0 then vers else drop start vers)"

definition Put :: "MandateRegistry \<Rightarrow> instant \<Rightarrow> Mandate option \<Rightarrow> mandate_error + MandateRegistry" where
  "Put r now mandate =
     (case mandate of
        None \<Rightarrow> Inl Nil_mandate
      | Some m \<Rightarrow>
          if tenant_id m = [] \<or> portfolio_id m = [] then Inl Ids_required
          else let k = (tenant_id m, portfolio_id m) in
            Inr (r\<lparr>rejected := AList.delete k (rejected r),
                   tenantsByPortfolio := (tenantsByPortfolio r)
                     (portfolio_id m := List.insert (tenant_id m) (tenantsByPortfolio r (portfolio_id m))),
                   byKey := (byKey r)(k := retainSelectable (put_version (byKey r k) m) now)\<rparr>))"

definition sortedTenants :: "string list \<Rightarrow> string list" where
  "sortedTenants ts = sort ts"

definition TenantsGoverning :: "MandateRegistry \<Rightarrow> string \<Rightarrow> string list" where
  "TenantsGoverning r portfolioID = sortedTenants (tenantsByPortfolio r portfolioID)"

definition warnMisfiled :: "MandateRegistry \<Rightarrow> string \<Rightarrow> string \<Rightarrow> MandateRegistry" where
  "warnMisfiled r tenantID portfolioID =
     r\<lparr>warned := snd (say_first (warned r) (''misfiled:'' @ tenantID @ '':'' @ portfolioID))\<rparr>"

definition warnSystemFallback :: "MandateRegistry \<Rightarrow> string \<Rightarrow> MandateRegistry" where
  "warnSystemFallback r portfolioID = r\<lparr>warned := snd (say_first (warned r) (''sysfallback:'' @ portfolioID))\<rparr>"

text \<open>The selection scan: versions are ascending, so the last match wins; a zero instant matches every version.\<close>

definition select_version :: "Mandate list \<Rightarrow> instant \<Rightarrow> Mandate option" where
  "select_version vers asOf = foldl (\<lambda>chosen v. if asOf = 0 \<or> \<not> effective v > asOf then Some v else chosen) None vers"

definition resolve_versions :: "MandateRegistry \<Rightarrow> string \<Rightarrow> string \<Rightarrow> Mandate list" where
  "resolve_versions r tenantID portfolioID =
     (let vers = byKey r (tenantID, portfolioID); others = TenantsGoverning r portfolioID in
      if vers = [] \<and> tenantID = SystemTenant \<and> length others = 1 then byKey r (others ! 0, portfolioID) else vers)"

definition registry_Mandate ::
  "MandateRegistry \<Rightarrow> string \<Rightarrow> string \<Rightarrow> instant \<Rightarrow> (mandate_error + (Mandate option \<times> Governance)) \<times> MandateRegistry" where
  "registry_Mandate r tenantID portfolioID asOf =
     (if tenantID = [] then (Inl ErrMandateTenantUnresolved, r)
      else case map_of (rejected r) (tenantID, portfolioID) of
        Some cause \<Rightarrow> (Inl (ErrMandateUnreadable cause), r)
      | None \<Rightarrow>
          let others = TenantsGoverning r portfolioID; vers = resolve_versions r tenantID portfolioID in
          if vers = [] then
            if tenantID = SystemTenant \<and> length others > 1 then (Inl ErrMandateTenantUnresolved, r)
            else (Inr (None, NeverMandated), if others \<noteq> [] then warnMisfiled r tenantID portfolioID else r)
          else
            let r' = (if tenantID = SystemTenant \<and> length others = 1 \<and> others ! 0 \<noteq> SystemTenant
                      then warnSystemFallback r portfolioID else r)
            in (case select_version vers asOf of
                  None \<Rightarrow> (Inr (None, MandateLapsed), r')
                | Some m \<Rightarrow> (Inr (Some m, Governed), r')))"

section \<open>Codec and consumer\<close>

record ConfigChanged =
  config_key :: string
  new_value :: string
  previous_value :: string
  changed_by :: string
  approved_by :: string
  cc_reason :: string

record mandate_codec =
  MarshalMandate :: "Mandate \<Rightarrow> string option"
  MarshalSet :: "Mandate list \<Rightarrow> string option"
  UnmarshalSet :: "string \<Rightarrow> Mandate list option"
  UnmarshalMandate :: "string \<Rightarrow> Mandate option"
  UnmarshalConfig :: "string \<Rightarrow> ConfigChanged option"

definition MandateConfigKeyPrefix :: string where
  "MandateConfigKeyPrefix = ''compliance.mandate.''"

definition SubjectMandateChanged :: string where
  "SubjectMandateChanged = ''compliance.mandate.changed''"

definition MandateConfigKey :: "string \<Rightarrow> string \<Rightarrow> string" where
  "MandateConfigKey tenantID portfolioID = MandateConfigKeyPrefix @ tenantID @ ''/'' @ portfolioID"

definition ParseMandateConfigKey :: "string \<Rightarrow> (string \<times> string) option" where
  "ParseMandateConfigKey key =
     (case CutPrefix key MandateConfigKeyPrefix of
        None \<Rightarrow> None
      | Some rest \<Rightarrow>
          (case strings_Cut rest (CHR ''/'') of
             None \<Rightarrow> None
           | Some (t, p) \<Rightarrow> if t = [] \<or> p = [] then None else Some (t, p)))"

definition SubjectMandateFor :: "string \<Rightarrow> string \<Rightarrow> string" where
  "SubjectMandateFor tenantID portfolioID =
     SubjectMandateChanged @ ''.'' @ Token tenantID @ ''.'' @ Token portfolioID"

definition MarshalMandateSetValue :: "mandate_codec \<Rightarrow> Mandate list \<Rightarrow> mandate_error + string" where
  "MarshalMandateSetValue codec ms =
     (if ms = [] then Inl Empty_set
      else case MarshalSet codec ms of None \<Rightarrow> Inl Unencodable | Some s \<Rightarrow> Inr s)"

definition DecodeMandateValue :: "mandate_codec \<Rightarrow> string \<Rightarrow> mandate_error + Mandate list" where
  "DecodeMandateValue codec s =
     (case UnmarshalSet codec s of
        Some (m # ms) \<Rightarrow> Inr (m # ms)
      | _ \<Rightarrow> (case UnmarshalMandate codec s of None \<Rightarrow> Inl Undecodable | Some m \<Rightarrow> Inr [m]))"

text \<open>
  \<open>Apply\<close> files the members one by one and stops at the first refusal; what was filed before it stays.
  The second component is the registry after the call.
\<close>

fun put_all :: "MandateRegistry \<Rightarrow> instant \<Rightarrow> Mandate list \<Rightarrow> mandate_error option \<times> MandateRegistry" where
  "put_all r now [] = (None, r)"
| "put_all r now (m # ms) = (case Put r now (Some m) of Inl e \<Rightarrow> (Some e, r) | Inr r' \<Rightarrow> put_all r' now ms)"

definition loader_Apply ::
  "mandate_codec \<Rightarrow> MandateRegistry \<Rightarrow> instant \<Rightarrow> ConfigChanged \<Rightarrow> mandate_error option \<times> MandateRegistry" where
  "loader_Apply codec r now cc =
     (if \<not> HasPrefix (config_key cc) MandateConfigKeyPrefix then (None, r)
      else case DecodeMandateValue codec (new_value cc) of
        Inl e \<Rightarrow> (Some e, r)
      | Inr ms \<Rightarrow> if ms = [] then (Some No_mandate_in_value, r) else put_all r now ms)"

definition consumer_Handle :: "mandate_codec \<Rightarrow> MandateRegistry \<Rightarrow> instant \<Rightarrow> string \<Rightarrow> MandateRegistry" where
  "consumer_Handle codec r now payload =
     (case UnmarshalConfig codec payload of
        None \<Rightarrow> Drop r
      | Some cc \<Rightarrow>
          (case loader_Apply codec r now cc of
             (None, r') \<Rightarrow> r'
           | (Some e, r') \<Rightarrow>
               (case ParseMandateConfigKey (config_key cc) of
                  None \<Rightarrow> Drop r'
                | Some (t, p) \<Rightarrow> registry_Reject r' t p (Some e))))"

definition ValidateMandate :: "Mandate option \<Rightarrow> mandate_error option" where
  "ValidateMandate mandate =
     (case mandate of
        None \<Rightarrow> Some (Mandate_incomplete ''no mandate'')
      | Some m \<Rightarrow>
          if tenant_id m = [] then Some (Mandate_incomplete ''tenant_id'')
          else if mandate_id m = [] then Some (Mandate_incomplete ''mandate_id'')
          else if portfolio_id m = [] then Some (Mandate_incomplete ''portfolio_id'')
          else if mandate_version m = 0 then Some (Mandate_incomplete ''version'')
          else if effective_at m = None then Some (Mandate_incomplete ''effective_at'')
          else None)"

section \<open>Publisher\<close>

record MandateEvent =
  ev_Subject :: string
  ev_EventType :: string
  ev_Domain :: string
  ev_EventTime :: instant
  ev_PartitionKey :: string
  ev_TenantID :: string
  ev_Payload :: ConfigChanged
  ev_ExpectedLastSubjectSeq :: "64 word"

text \<open>What the broker answers for the last message on a subject.\<close>

datatype last_message = No_retained_message | Read_error | Retained string "64 word"

definition MandateDigest :: "(string \<Rightarrow> string) \<Rightarrow> mandate_codec \<Rightarrow> Mandate \<Rightarrow> string \<Rightarrow> mandate_error + string" where
  "MandateDigest sha256 codec m reason =
     (case MarshalMandate codec m of
        None \<Rightarrow> Inl Unencodable
      | Some value \<Rightarrow> Inr (Digest sha256 [ActMandateChange, value, reason]))"

definition retained :: "mandate_codec \<Rightarrow> last_message \<Rightarrow> mandate_error + (Mandate list \<times> string \<times> 64 word)" where
  "retained codec msg =
     (case msg of
        No_retained_message \<Rightarrow> Inr ([], [], 0)
      | Read_error \<Rightarrow> Inl Read_failed
      | Retained payload seq \<Rightarrow>
          (case UnmarshalConfig codec payload of
             None \<Rightarrow> Inr ([], [], seq)
           | Some cc \<Rightarrow>
               (case DecodeMandateValue codec (new_value cc) of
                  Inl e \<Rightarrow> Inr ([], new_value cc, seq)
                | Inr hs \<Rightarrow> Inr (hs, new_value cc, seq))))"

text \<open>The loop of \<open>mergeIntoSet\<close> replaces every member of the version, and appends when there was none.\<close>

definition merge_version :: "Mandate list \<Rightarrow> Mandate \<Rightarrow> Mandate list" where
  "merge_version hs m =
     map (\<lambda>v. if mandate_version v = mandate_version m then m else v) hs
       @ (if \<exists>v\<in>set hs. mandate_version v = mandate_version m then [] else [m])"

definition mergeIntoSet :: "Mandate list \<Rightarrow> Mandate \<Rightarrow> instant \<Rightarrow> mandate_error + Mandate list" where
  "mergeIntoSet hs m asOf =
     (let kept = retainSelectable (sort_key version_order (merge_version hs m)) asOf in
      if \<exists>v\<in>set kept. mandate_version v = mandate_version m then Inr kept else Inl Behind_in_force)"

definition publisher_Publish ::
  "(string \<Rightarrow> string) \<Rightarrow> strings_lib \<Rightarrow> mandate_codec \<Rightarrow> (string \<Rightarrow> last_message) option \<Rightarrow> instant
   \<Rightarrow> Mandate \<Rightarrow> Approval \<Rightarrow> string \<Rightarrow> mandate_error + MandateEvent" where
  "publisher_Publish sha256 lib codec state now m approval reason =
     (if portfolio_id m = [] \<or> tenant_id m = [] then Inl Ids_required
      else case MandateDigest sha256 codec m reason of
        Inl e \<Rightarrow> Inl e
      | Inr dig \<Rightarrow>
          (case Covers lib approval ActMandateChange dig of
             Some e \<Rightarrow> Inl (Not_covered e)
           | None \<Rightarrow>
               (case state of
                  None \<Rightarrow> Inl No_reader
                | Some last_on_subject \<Rightarrow>
                    let subj = SubjectMandateFor (tenant_id m) (portfolio_id m) in
                    (case retained codec (last_on_subject subj) of
                       Inl e \<Rightarrow> Inl e
                     | Inr (hs, prevValue, expect) \<Rightarrow>
                         (case mergeIntoSet hs m now of
                            Inl e \<Rightarrow> Inl e
                          | Inr ms \<Rightarrow>
                              (case MarshalMandateSetValue codec ms of
                                 Inl e \<Rightarrow> Inl e
                               | Inr newValue \<Rightarrow>
                                   let key = MandateConfigKey (tenant_id m) (portfolio_id m) in
                                   Inr \<lparr>ev_Subject = subj, ev_EventType = SubjectMandateChanged, ev_Domain = ''compliance'',
                                        ev_EventTime = effective m, ev_PartitionKey = key, ev_TenantID = tenant_id m,
                                        ev_Payload = \<lparr>config_key = key, new_value = newValue, previous_value = prevValue,
                                          changed_by = proposer approval, approved_by = approver approval, cc_reason = reason\<rparr>,
                                        ev_ExpectedLastSubjectSeq = expect\<rparr>))))))"

section \<open>The ledger remembers what was said lately, in bounded space\<close>

text \<open>The ledger after a history of sightings, oldest first.\<close>

definition say_run :: "string list \<Rightarrow> sayOnce" where
  "say_run ds = foldl (\<lambda>s d. snd (say_about s d)) empty_sayOnce ds"

definition say_ok :: "string list \<Rightarrow> sayOnce \<Rightarrow> bool" where
  "say_ok ds s \<longleftrightarrow>
     unat (so_seq s) = length ds \<and> distinct (map fst (so_volatile s)) \<and> length (so_volatile s) \<le> maxVolatileWarnings
     \<and> (\<forall>x n. map_of (so_volatile s) x = Some n \<longrightarrow>
          0 < unat n \<and> unat n \<le> length ds \<and> ds ! (unat n - 1) = x \<and> x \<notin> set (drop (unat n) ds))
     \<and> (\<forall>x \<in> set (drop (length ds - maxVolatileWarnings div 2) ds). map_of (so_volatile s) x \<noteq> None)"

lemma length_update_absent: "map_of xs k = None \<Longrightarrow> length (AList.update k v xs) = Suc (length xs)"
  by (induction xs) (auto split: if_splits)

lemma length_update_present: "map_of xs k \<noteq> None \<Longrightarrow> length (AList.update k v xs) = length xs"
  by (induction xs) (auto split: if_splits)

lemma map_of_filter_snd:
  "distinct (map fst xs) \<Longrightarrow> map_of (filter (\<lambda>(d, n). P n) xs) x = (case map_of xs x of None \<Rightarrow> None | Some n \<Rightarrow> if P n then Some n else None)"
proof (induction xs)
  case (Cons a xs)
  then show ?case
    by (cases a) (force split: option.splits dest: map_of_SomeD)
qed simp

lemma sweep_length:
  assumes "distinct (map fst xs)"
    and "\<And>x n. map_of xs x = Some n \<Longrightarrow> f (unat (n :: 64 word)) = x"
    and "\<And>x n. (x, n) \<in> set xs \<Longrightarrow> lo \<le> unat n \<and> unat n < lo + k"
  shows "length xs \<le> k"
proof -
  have "inj_on (\<lambda>(x, n). unat n) (set xs)"
  proof (rule inj_onI)
    fix p q assume p: "p \<in> set xs" and q: "q \<in> set xs" and e: "(case p of (x, n) \<Rightarrow> unat n) = (case q of (x, n) \<Rightarrow> unat n)"
    obtain x n y m where pq: "p = (x, n)" "q = (y, m)" by fastforce
    then have "n = m" using e by (simp add: word_unat_eq_iff)
    moreover have "x = y"
      using assms(2) [of x n] assms(2) [of y m] p q pq \<open>n = m\<close> assms(1) by (simp add: map_of_eq_Some_iff)
    ultimately show "p = q" using pq by simp
  qed
  moreover have "(\<lambda>(x, n). unat n) ` set xs \<subseteq> {lo..<lo + k}" using assms(3) by fastforce
  ultimately have "card (set xs) \<le> k" using card_inj_on_le [of _ "set xs" "{lo..<lo + k}"] by simp
  moreover have "distinct xs" using assms(1) by (simp add: distinct_map)
  ultimately show ?thesis using distinct_card [of xs] by simp
qed

lemma say_ok_step:
  assumes ok: "say_ok ds s" and len: "Suc (length ds) < 2 ^ 64"
  shows "say_ok (ds @ [d]) (snd (say_about s d))"
proof -
  define n where "n = so_seq s + 1"
  have seq: "unat (so_seq s) = length ds" and dist: "distinct (map fst (so_volatile s))"
    and size: "length (so_volatile s) \<le> 50000"
    and entry: "\<And>x n. map_of (so_volatile s) x = Some n \<Longrightarrow>
      0 < unat n \<and> unat n \<le> length ds \<and> ds ! (unat n - 1) = x \<and> x \<notin> set (drop (unat n) ds)"
    and recent: "\<And>x. x \<in> set (drop (length ds - 25000) ds) \<Longrightarrow> map_of (so_volatile s) x \<noteq> None"
    using ok by (auto simp: say_ok_def maxVolatileWarnings_def)
  have n: "unat n = Suc (length ds)" using seq len by (simp add: n_def unat_word_ariths)
  define vol where "vol = (if map_of (so_volatile s) d = None \<and> length (so_volatile s) \<ge> 50000
      then filter (\<lambda>(x, k). \<not> k < (if n > 25000 then n - 25000 else 0)) (so_volatile s) else so_volatile s)"
  have result: "snd (say_about s d) = s\<lparr>so_seq := n, so_volatile := AList.update d n vol\<rparr>"
    by (simp add: say_about_def say_sweep_def Let_def vol_def n_def maxVolatileWarnings_def)
  have cut: "unat (if n > 25000 then n - 25000 else 0) = Suc (length ds) - 25000"
    using n by (simp add: unat_sub word_le_nat_alt word_less_nat_alt)
  have kept: "map_of vol x = Some k \<Longrightarrow> map_of (so_volatile s) x = Some k" for x k
    using map_of_filter_snd [OF dist] by (auto simp: vol_def split: if_splits option.splits)
  have stays: "map_of vol x \<noteq> None" if "x \<in> set (drop (Suc (length ds) - 25000) ds)" for x
  proof -
    from that have "x \<in> set (drop (length ds - 25000) ds)"
      by (meson diff_le_mono le_SucI order_refl set_drop_subset_set_drop subsetD)
    then obtain k where k: "map_of (so_volatile s) x = Some k" using recent by blast
    have "\<not> unat k < Suc (length ds) - 25000"
      using entry [OF k] that set_drop_subset_set_drop [of "unat k" "Suc (length ds) - 25000" ds] by (meson less_imp_le subsetD)
    then show ?thesis
      using k map_of_filter_snd [OF dist] cut by (simp add: vol_def word_less_nat_alt)
  qed
  have dvol: "distinct (map fst vol)" using dist by (simp add: vol_def distinct_map_filter)
  have "length (AList.update d n vol) \<le> 50000"
  proof (cases "map_of (so_volatile s) d = None \<and> length (so_volatile s) \<ge> 50000")
    case True
    have "length vol \<le> 25000"
    proof (rule sweep_length [where f = "\<lambda>k. ds ! (k - 1)" and lo = "Suc (length ds) - 25000"])
      show "distinct (map fst vol)" by (rule dvol)
      show "ds ! (unat k - 1) = x" if "map_of vol x = Some k" for x k using entry [OF kept [OF that]] by simp
      show "Suc (length ds) - 25000 \<le> unat k \<and> unat k < Suc (length ds) - 25000 + 25000" if "(x, k) \<in> set vol" for x k
      proof -
        have "map_of vol x = Some k" using that dvol by simp
        then have "unat k \<le> length ds" using entry [OF kept] by blast
        moreover have "\<not> unat k < Suc (length ds) - 25000" using that True cut by (simp add: vol_def word_less_nat_alt)
        ultimately show ?thesis by simp
      qed
    qed
    moreover have "map_of vol d = None" using True kept by (metis option.exhaust option.distinct(1))
    ultimately show ?thesis by (simp add: length_update_absent)
  next
    case False
    then show ?thesis
      using size by (cases "map_of (so_volatile s) d = None") (auto simp: vol_def length_update_absent length_update_present)
  qed
  moreover have "distinct (map fst (AList.update d n vol))" using dvol by (simp add: distinct_update)
  moreover have "0 < unat k \<and> unat k \<le> length (ds @ [d]) \<and> (ds @ [d]) ! (unat k - 1) = x \<and> x \<notin> set (drop (unat k) (ds @ [d]))"
    if "map_of (AList.update d n vol) x = Some k" for x k
  proof (cases "x = d")
    case True
    then show ?thesis using that n by (simp add: update_conv')
  next
    case False
    then have "map_of vol x = Some k" using that by (simp add: update_conv')
    then show ?thesis using entry [OF kept, of x k] False by (auto simp: nth_append)
  qed
  moreover have "map_of (AList.update d n vol) x \<noteq> None" if "x \<in> set (drop (length (ds @ [d]) - 25000) (ds @ [d]))" for x
    using that stays [of x] by (cases "x = d") (auto simp: update_conv' split: if_splits)
  ultimately show ?thesis by (simp add: say_ok_def result n maxVolatileWarnings_def)
qed

lemma say_ok_run: "length ds < 2 ^ 64 \<Longrightarrow> say_ok ds (say_run ds)"
proof (induction ds rule: rev_induct)
  case Nil
  then show ?case by (simp add: say_ok_def say_run_def empty_sayOnce_def)
next
  case (snoc d ds)
  then show ?case using say_ok_step [of ds "say_run ds" d] by (simp add: say_run_def)
qed

text \<open>
  However warnings arrive, the caller-keyed ledger holds at most 50000 entries; a warning sighted among the
  last 25000 sightings is not said again; and one never sighted is always said, so bounding the memory never
  silences a first warning.
\<close>

theorem say_once_bounded:
  assumes "length ds < 2 ^ 64"
  shows "length (so_volatile (say_run ds)) \<le> maxVolatileWarnings
    \<and> (d \<in> set (drop (length ds - maxVolatileWarnings div 2) ds) \<longrightarrow> \<not> fst (say_about (say_run ds) d))
    \<and> (d \<notin> set ds \<longrightarrow> fst (say_about (say_run ds) d))"
proof -
  have ok: "say_ok ds (say_run ds)" using assms by (rule say_ok_run)
  have "map_of (so_volatile (say_run ds)) d = None" if "d \<notin> set ds"
  proof (rule ccontr)
    assume "map_of (so_volatile (say_run ds)) d \<noteq> None"
    then obtain n where "map_of (so_volatile (say_run ds)) d = Some n" by blast
    then have "0 < unat n" "unat n \<le> length ds" "ds ! (unat n - 1) = d" using ok by (auto simp: say_ok_def)
    then have "d \<in> set ds" by (metis One_nat_def diff_less less_le_trans nth_mem zero_less_one)
    with that show False by simp
  qed
  then show ?thesis using ok by (auto simp: say_ok_def say_about_def Let_def)
qed

theorem say_once_bounded_witness:
  "length (so_volatile (say_run [''a''])) \<le> maxVolatileWarnings
   \<and> \<not> fst (say_about (say_run [''a'']) ''a'') \<and> fst (say_about (say_run [''a'']) ''b'')"
  using say_once_bounded [of "[''a'']" "''a''"] say_once_bounded [of "[''a'']" "''b''"]
  by (simp add: maxVolatileWarnings_def)

section \<open>Versions as sets\<close>

text \<open>
  Versioned documents with an effective time: \<open>add\<close> replaces the document of the same version, \<open>selectable\<close>
  drops what no query from \<open>t\<close> on can select, and \<open>rules_at\<close> is the one in force. Dropping along the way
  changes nothing as long as replacing the document in force does not withdraw it.
\<close>

locale version_sets =
  fixes eff :: "'v \<Rightarrow> 't::linorder" and ver :: "'v \<Rightarrow> 'k" and ord :: "'v \<Rightarrow> 'o::linorder"
  assumes eff_mono: "ord x \<le> ord y \<Longrightarrow> eff x \<le> eff y"
    and ord_ver: "ord x = ord y \<Longrightarrow> ver x = ver y"
begin

definition add_version :: "'v set \<Rightarrow> 'v \<Rightarrow> 'v set" where
  "add_version S m = insert m {x \<in> S. ver x \<noteq> ver m}"

definition rules_at :: "'v set \<Rightarrow> 't \<Rightarrow> 'v \<Rightarrow> bool" where
  "rules_at S t v \<longleftrightarrow> v \<in> S \<and> eff v \<le> t \<and> (\<forall>w\<in>S. eff w \<le> t \<longrightarrow> ord w \<le> ord v)"

definition selectable :: "'v set \<Rightarrow> 't \<Rightarrow> 'v set" where
  "selectable S t = {x \<in> S. \<forall>y\<in>S. eff y \<le> t \<longrightarrow> ord y \<le> ord x}"

definition takes_away :: "'v set \<Rightarrow> 't \<Rightarrow> 'v \<Rightarrow> bool" where
  "takes_away S t m \<longleftrightarrow> (\<exists>v. rules_at S t v \<and> ver v = ver m \<and> \<not> (ord v \<le> ord m \<and> eff m \<le> t))"

lemma rules_at_exists:
  assumes "finite S" "y \<in> S" "eff y \<le> t"
  shows "\<exists>v. rules_at S t v \<and> ord y \<le> ord v"
proof -
  let ?F = "{x \<in> S. eff x \<le> t}"
  have fin: "finite (ord ` ?F)" and mem: "ord y \<in> ord ` ?F" using assms by auto
  then have "Max (ord ` ?F) \<in> ord ` ?F" by (intro Max_in) auto
  then obtain v where v: "v \<in> ?F" "ord v = Max (ord ` ?F)" by (metis (no_types, lifting) imageE)
  then have "rules_at S t v" using Max_ge [OF fin] by (auto simp: rules_at_def)
  then show ?thesis using v Max_ge [OF fin mem] by auto
qed

lemma rules_at_selectable:
  assumes "finite S" and "t \<le> u"
  shows "rules_at (selectable S t) u v \<longleftrightarrow> rules_at S u v"
proof
  assume v: "rules_at S u v"
  then have "v \<in> selectable S t" using assms by (auto simp: rules_at_def selectable_def)
  with v show "rules_at (selectable S t) u v" by (auto simp: rules_at_def selectable_def)
next
  assume v: "rules_at (selectable S t) u v"
  have "ord w \<le> ord v" if w: "w \<in> S" "eff w \<le> u" for w
  proof -
    obtain z where z: "rules_at S u z" "ord w \<le> ord z" using rules_at_exists [OF \<open>finite S\<close> w] by blast
    then have "z \<in> selectable S t" using assms by (auto simp: rules_at_def selectable_def)
    then have "ord z \<le> ord v" using v z(1) by (auto simp: rules_at_def)
    then show ?thesis using z(2) by simp
  qed
  with v show "rules_at S u v" by (auto simp: rules_at_def selectable_def)
qed

lemma selectable_covers:
  assumes S: "finite S" and tn: "t \<le> now" and stay: "\<not> takes_away S now m" and y: "y \<in> S" "eff y \<le> now"
  shows "\<exists>w \<in> add_version (selectable S t) m. eff w \<le> now \<and> ord y \<le> ord w"
proof -
  obtain z where z: "rules_at S now z" "ord y \<le> ord z" using rules_at_exists [OF S y] by blast
  show ?thesis
  proof (cases "ver z = ver m")
    case True
    then have "ord z \<le> ord m" "eff m \<le> now" using stay z(1) by (auto simp: takes_away_def)
    then show ?thesis using z(2) by (intro bexI [of _ m]) (auto simp: add_version_def)
  next
    case False
    have "z \<in> selectable S t" using z(1) tn by (auto simp: rules_at_def selectable_def)
    then show ?thesis using False z by (intro bexI [of _ z]) (auto simp: add_version_def rules_at_def)
  qed
qed

lemma selectable_add:
  assumes S: "finite S" and tn: "t \<le> now" and stay: "\<not> takes_away S now m"
  shows "selectable (add_version (selectable S t) m) now = selectable (add_version S m) now"
proof (intro equalityI subsetI)
  fix x assume x: "x \<in> selectable (add_version (selectable S t) m) now"
  then have "x \<in> add_version S m" by (auto simp: selectable_def add_version_def)
  moreover have "ord y \<le> ord x" if y: "y \<in> add_version S m" "eff y \<le> now" for y
  proof (cases "y = m")
    case True
    then show ?thesis using x y by (auto simp: selectable_def add_version_def)
  next
    case False
    then obtain w where "w \<in> add_version (selectable S t) m" "eff w \<le> now" "ord y \<le> ord w"
      using selectable_covers [OF S tn stay, of y] y by (auto simp: add_version_def)
    then show ?thesis using x unfolding selectable_def by fastforce
  qed
  ultimately show "x \<in> selectable (add_version S m) now" by (simp add: selectable_def)
next
  fix x assume x: "x \<in> selectable (add_version S m) now"
  have sub: "add_version (selectable S t) m \<subseteq> add_version S m" by (auto simp: add_version_def selectable_def)
  have "x \<in> add_version (selectable S t) m"
  proof (cases "x = m")
    case False
    then have xS: "x \<in> S" "ver x \<noteq> ver m" using x by (auto simp: selectable_def add_version_def)
    have "ord y \<le> ord x" if y: "y \<in> S" "eff y \<le> t" for y
    proof -
      obtain w where "w \<in> add_version (selectable S t) m" "eff w \<le> now" "ord y \<le> ord w"
        using selectable_covers [OF S tn stay y(1)] order_trans [OF y(2) tn] by blast
      then show ?thesis using x sub unfolding selectable_def by fastforce
    qed
    then show ?thesis using xS by (simp add: add_version_def selectable_def)
  qed (simp add: add_version_def)
  then show "x \<in> selectable (add_version (selectable S t) m) now" using x sub by (auto simp: selectable_def)
qed

end

section \<open>Version lists\<close>

lemma version_order_le: "version_order x \<le> version_order y \<longleftrightarrow>
    effective x < effective y \<or> effective x = effective y \<and> mandate_version x \<le> mandate_version y"
  by (auto simp: version_order_def less_eq_prod_def)

interpretation mandate_versions: version_sets effective mandate_version version_order
  by unfold_locales (auto simp: version_order_le version_order_def)

definition ascending :: "Mandate list \<Rightarrow> bool" where
  "ascending vs \<longleftrightarrow> sorted (map version_order vs) \<and> distinct (map mandate_version vs)"

lemma ascending_unique: "ascending vs \<Longrightarrow> ascending ws \<Longrightarrow> set vs = set ws \<Longrightarrow> vs = ws"
proof -
  assume vs: "ascending vs" and ws: "ascending ws" and eq: "set vs = set ws"
  have inj: "inj_on mandate_version (set vs)" using vs by (simp add: ascending_def distinct_map)
  have "inj_on version_order (set vs \<union> set ws)"
    using inj eq by (auto simp: inj_on_def version_order_def)
  moreover have "distinct (map version_order vs)" "distinct (map version_order ws)"
    using vs ws calculation by (auto simp: ascending_def distinct_map intro: inj_on_subset)
  ultimately show "vs = ws"
    using vs ws eq map_sorted_distinct_set_unique [of version_order vs ws] by (simp add: ascending_def)
qed

lemma replace_version_versions:
  "distinct (map mandate_version vs) \<Longrightarrow>
     set (replace_version vs m) = mandate_versions.add_version (set vs) m \<and> distinct (map mandate_version (replace_version vs m))"
proof (induction vs)
  case (Cons v vs)
  show ?case
  proof (cases "mandate_version v = mandate_version m")
    case True
    then have "\<forall>x\<in>set vs. mandate_version x \<noteq> mandate_version m" using Cons.prems by (auto simp: image_iff)
    then show ?thesis using True Cons.prems by (auto simp: mandate_versions.add_version_def)
  next
    case False
    then show ?thesis using Cons by (auto simp: mandate_versions.add_version_def)
  qed
qed (simp add: mandate_versions.add_version_def)

lemma put_version_ascending: "ascending vs \<Longrightarrow> ascending (put_version vs m)"
proof -
  assume "ascending vs"
  then have "distinct (map mandate_version (replace_version vs m))"
    using replace_version_versions [of vs m] by (simp add: ascending_def)
  then have "distinct (map mandate_version (sort_key version_order (replace_version vs m)))"
    by (simp add: distinct_map)
  then show "ascending (put_version vs m)" by (simp add: ascending_def put_version_def)
qed

lemma set_put_version: "ascending vs \<Longrightarrow> set (put_version vs m) = mandate_versions.add_version (set vs) m"
  using replace_version_versions [of vs m] by (simp add: ascending_def put_version_def)

lemma retain_drop: "\<exists>n. retainSelectable vs t = drop n vs"
  by (auto simp: retainSelectable_def split: option.split intro: exI [of _ 0])

lemma ascending_drop: "ascending vs \<Longrightarrow> ascending (drop n vs)"
  by (simp add: ascending_def drop_map [symmetric] sorted_wrt_drop)

lemma retain_ascending: "ascending vs \<Longrightarrow> ascending (retainSelectable vs t)"
  using retain_drop [of vs t] by (auto intro: ascending_drop)

lemma ascending_nth: "ascending vs \<Longrightarrow> i < length vs \<Longrightarrow> j < length vs \<Longrightarrow>
    version_order (vs ! i) \<le> version_order (vs ! j) \<longleftrightarrow> i \<le> j"
proof -
  assume a: "ascending vs" and i: "i < length vs" and j: "j < length vs"
  have mono: "k \<le> l \<Longrightarrow> l < length vs \<Longrightarrow> version_order (vs ! k) \<le> version_order (vs ! l)" for k l
    using a sorted_nth_mono [of "map version_order vs" k l] by (simp add: ascending_def)
  have "version_order (vs ! i) = version_order (vs ! j) \<Longrightarrow> i = j"
    using a i j nth_eq_iff_index_eq [of "map mandate_version vs" i j] by (simp add: ascending_def version_order_def)
  then show ?thesis using mono [of i j] mono [of j i] i j by (metis order.antisym nle_le)
qed

lemma find_downwards:
  "find P (rev [0..<n]) = Some s \<Longrightarrow> s < n \<and> P s \<and> (\<forall>k. s < k \<longrightarrow> k < n \<longrightarrow> \<not> P k)"
proof (induction n)
  case (Suc n)
  then show ?case by (cases "P n") (auto simp: less_Suc_eq)
qed simp

lemma set_retain:
  assumes a: "ascending vs"
  shows "set (retainSelectable vs t) = mandate_versions.selectable (set vs) t"
proof (cases "find (\<lambda>i. \<not> effective (vs ! i) > t) (rev [0..<length vs])")
  case None
  then have "\<forall>x\<in>set vs. \<not> effective x \<le> t" by (fastforce simp: find_None_iff in_set_conv_nth)
  then show ?thesis using None by (auto simp: retainSelectable_def mandate_versions.selectable_def)
next
  case (Some s)
  then have s: "s < length vs" "effective (vs ! s) \<le> t" and later: "\<And>k. s < k \<Longrightarrow> k < length vs \<Longrightarrow> effective (vs ! k) > t"
    using find_downwards [OF Some] by (auto simp: not_less)
  have "x \<in> set (drop s vs) \<longleftrightarrow> x \<in> mandate_versions.selectable (set vs) t" for x
  proof
    assume "x \<in> set (drop s vs)"
    then obtain j where "j < length (drop s vs)" "x = drop s vs ! j" by (metis in_set_conv_nth)
    then obtain k where k: "s \<le> k" "k < length vs" "x = vs ! k" using s(1) by (intro that [of "s + j"]) auto
    have "version_order y \<le> version_order x" if y: "y \<in> set vs" "effective y \<le> t" for y
    proof -
      obtain l where l: "l < length vs" "y = vs ! l" using y(1) by (auto simp: in_set_conv_nth)
      then have "l \<le> s" using later [of l] y(2) by fastforce
      then show ?thesis using ascending_nth [OF a l(1) k(2)] l k by simp
    qed
    then show "x \<in> mandate_versions.selectable (set vs) t" using k by (auto simp: mandate_versions.selectable_def)
  next
    assume x: "x \<in> mandate_versions.selectable (set vs) t"
    then obtain k where k: "k < length vs" "x = vs ! k" by (auto simp: mandate_versions.selectable_def in_set_conv_nth)
    have "version_order (vs ! s) \<le> version_order x" using x s by (simp add: mandate_versions.selectable_def)
    then have "s \<le> k" using ascending_nth [OF a s(1) k(1)] k(2) by simp
    then have "drop s vs ! (k - s) = x" "k - s < length (drop s vs)" using k by auto
    then show "x \<in> set (drop s vs)" by (metis nth_mem)
  qed
  then have "set (drop s vs) = mandate_versions.selectable (set vs) t" by blast
  then show ?thesis using Some by (cases "s = 0") (simp_all add: retainSelectable_def)
qed

lemma select_last: "select_version vs t = (let xs = filter (\<lambda>v. t = 0 \<or> effective v \<le> t) vs in if xs = [] then None else Some (last xs))"
  unfolding select_version_def by (induction vs rule: rev_induct) (auto simp: Let_def not_less)

lemma sorted_le_last: "sorted xs \<Longrightarrow> x \<in> set xs \<Longrightarrow> x \<le> last xs"
  by (induction xs) auto

lemma select_iff:
  assumes a: "ascending vs" and t: "t \<noteq> 0"
  shows "select_version vs t = Some v \<longleftrightarrow> mandate_versions.rules_at (set vs) t v"
proof -
  let ?xs = "filter (\<lambda>v. effective v \<le> t) vs"
  have sorted: "sorted (map version_order ?xs)" using a by (simp add: ascending_def sorted_filter)
  have last_max: "?xs \<noteq> [] \<Longrightarrow> mandate_versions.rules_at (set vs) t (last ?xs)"
  proof -
    assume ne: "?xs \<noteq> []"
    have "version_order w \<le> version_order (last ?xs)" if "w \<in> set ?xs" for w
      using sorted_le_last [OF sorted, of "version_order w"] that ne by (simp add: last_map)
    moreover have "last ?xs \<in> set ?xs" using ne by (rule last_in_set)
    ultimately show ?thesis by (auto simp: mandate_versions.rules_at_def)
  qed
  have uniq: "mandate_versions.rules_at (set vs) t v \<Longrightarrow> mandate_versions.rules_at (set vs) t w \<Longrightarrow> v = w" for v w
  proof -
    assume v: "mandate_versions.rules_at (set vs) t v" and w: "mandate_versions.rules_at (set vs) t w"
    then have "version_order v = version_order w" by (meson mandate_versions.rules_at_def order.antisym)
    moreover have "inj_on mandate_version (set vs)" using a by (simp add: ascending_def distinct_map)
    ultimately show "v = w" using v w by (auto simp: mandate_versions.rules_at_def inj_on_def version_order_def)
  qed
  show ?thesis
  proof (cases "?xs = []")
    case True
    then show ?thesis using t by (auto simp: select_last Let_def mandate_versions.rules_at_def filter_empty_conv)
  next
    case False
    then show ?thesis using t last_max uniq by (auto simp: select_last Let_def)
  qed
qed

lemma retain_put:
  assumes "ascending vs" and "t \<le> now" and "\<not> mandate_versions.takes_away (set vs) now m"
  shows "retainSelectable (put_version (retainSelectable vs t) m) now = retainSelectable (put_version vs m) now"
proof (rule ascending_unique)
  show "set (retainSelectable (put_version (retainSelectable vs t) m) now) = set (retainSelectable (put_version vs m) now)"
    using assms mandate_versions.selectable_add [of "set vs" t now m]
    by (simp add: set_retain set_put_version retain_ascending put_version_ascending)
qed (use assms in \<open>simp_all add: retain_ascending put_version_ascending\<close>)

lemma select_retain:
  assumes "ascending vs" and "t \<le> u" and "u \<noteq> 0"
  shows "select_version (retainSelectable vs t) u = select_version vs u"
proof -
  have "select_version (retainSelectable vs t) u = Some v \<longleftrightarrow> select_version vs u = Some v" for v
    using assms mandate_versions.rules_at_selectable [of "set vs" t u v]
    by (simp add: select_iff retain_ascending set_retain)
  then show ?thesis by (metis option.exhaust)
qed

section \<open>The registry answers from the whole history\<close>

text \<open>
  The abstract history of a portfolio: the set of its published mandates, a republished version replacing the
  earlier one. \<open>in_force\<close> is the latest one effective at an instant. A republication withdraws the mandate in
  force when it moves that very version to the future or behind its old place.
\<close>

definition publish_set :: "Mandate set \<Rightarrow> Mandate \<Rightarrow> Mandate set" where
  "publish_set S m = insert m {x \<in> S. mandate_version x \<noteq> mandate_version m}"

definition in_force :: "Mandate set \<Rightarrow> instant \<Rightarrow> Mandate \<Rightarrow> bool" where
  "in_force S t v \<longleftrightarrow> v \<in> S \<and> effective v \<le> t \<and> (\<forall>w\<in>S. effective w \<le> t \<longrightarrow> version_order w \<le> version_order v)"

definition withdraws :: "Mandate set \<Rightarrow> instant \<Rightarrow> Mandate \<Rightarrow> bool" where
  "withdraws S t m \<longleftrightarrow>
     (\<exists>v\<in>S. in_force S t v \<and> mandate_version v = mandate_version m
        \<and> \<not> (version_order v \<le> version_order m \<and> effective m \<le> t))"

lemma version_set_defs:
  "mandate_versions.add_version = publish_set" "mandate_versions.rules_at = in_force" "mandate_versions.takes_away = withdraws"
  by (auto simp: fun_eq_iff mandate_versions.add_version_def publish_set_def mandate_versions.rules_at_def in_force_def
      mandate_versions.takes_away_def withdraws_def)

type_synonym put_event = "instant \<times> Mandate option"

definition filed_under :: "mandateKey \<Rightarrow> Mandate option \<Rightarrow> bool" where
  "filed_under k mo \<longleftrightarrow> (case mo of None \<Rightarrow> False
     | Some m \<Rightarrow> tenant_id m \<noteq> [] \<and> portfolio_id m \<noteq> [] \<and> (tenant_id m, portfolio_id m) = k)"

definition publish_event :: "mandateKey \<Rightarrow> Mandate set \<Rightarrow> put_event \<Rightarrow> Mandate set" where
  "publish_event k S e = (if filed_under k (snd e) then publish_set S (the (snd e)) else S)"

definition published :: "mandateKey \<Rightarrow> put_event list \<Rightarrow> Mandate set" where
  "published k es = foldl (publish_event k) {} es"

fun undisturbed :: "mandateKey \<Rightarrow> Mandate set \<Rightarrow> put_event list \<Rightarrow> bool" where
  "undisturbed k S [] = True"
| "undisturbed k S (e # es) =
     (\<not> (filed_under k (snd e) \<and> withdraws S (fst e) (the (snd e))) \<and> undisturbed k (publish_event k S e) es)"

definition registry_of :: "put_event list \<Rightarrow> MandateRegistry" where
  "registry_of es = run_events (\<lambda>r e. Put r (fst e) (snd e)) NewMandateRegistry es"

lemma undisturbed_append: "undisturbed k S (es @ fs) \<longleftrightarrow> undisturbed k S es \<and> undisturbed k (foldl (publish_event k) S es) fs"
  by (induction es arbitrary: S) auto

lemma run_events_append: "run_events app s (es @ fs) = run_events app (run_events app s es) fs"
  by (induction es arbitrary: s) auto

lemma byKey_put:
  "byKey (next_state (\<lambda>r e. Put r (fst e) (snd e)) r e) k =
     (if filed_under k (snd e) then retainSelectable (put_version (byKey r k) (the (snd e))) (fst e) else byKey r k)"
  by (auto simp: next_state_def Put_def filed_under_def Let_def split: option.split)

lemma retain_Nil: "retainSelectable vs t = [] \<longleftrightarrow> vs = []"
  by (auto simp: retainSelectable_def split: option.splits dest!: find_downwards)

lemma retain_empty [simp]: "retainSelectable [] t = []"
  by (simp add: retain_Nil)

lemma registry_versions:
  assumes "sorted (map fst es)" and "undisturbed k {} es" and "\<forall>e\<in>set es. fst e \<le> c"
  shows "\<exists>vs t. ascending vs \<and> set vs = published k es \<and> byKey (registry_of es) k = retainSelectable vs t \<and> t \<le> c"
  using assms
proof (induction es arbitrary: c rule: rev_induct)
  case Nil
  show ?case by (intro exI [of _ "[]"] exI [of _ c])
      (simp add: ascending_def published_def registry_of_def NewMandateRegistry_def)
next
  case (snoc e es)
  have "sorted (map fst es)" "undisturbed k {} es" "\<forall>x\<in>set es. fst x \<le> fst e"
    using snoc.prems by (auto simp: sorted_append undisturbed_append)
  then obtain vs t where vs: "ascending vs" "set vs = published k es" "byKey (registry_of es) k = retainSelectable vs t" "t \<le> fst e"
    using snoc.IH by blast
  have run: "byKey (registry_of (es @ [e])) k =
      (if filed_under k (snd e) then retainSelectable (put_version (byKey (registry_of es) k) (the (snd e))) (fst e)
       else byKey (registry_of es) k)"
    by (simp add: registry_of_def run_events_append byKey_put)
  have le: "fst e \<le> c" using snoc.prems(3) by simp
  show ?case
  proof (cases "filed_under k (snd e)")
    case True
    have "\<not> mandate_versions.takes_away (set vs) (fst e) (the (snd e))"
      using snoc.prems(2) True vs(2) by (simp add: undisturbed_append published_def version_set_defs)
    then have "byKey (registry_of (es @ [e])) k = retainSelectable (put_version vs (the (snd e))) (fst e)"
      using True vs retain_put [of vs t "fst e" "the (snd e)"] by (simp add: run)
    moreover have "set (put_version vs (the (snd e))) = published k (es @ [e])"
      using True vs by (simp add: set_put_version published_def publish_event_def version_set_defs)
    ultimately show ?thesis using le put_version_ascending [OF vs(1)] by blast
  next
    case False
    then show ?thesis using run vs le by (auto simp: published_def publish_event_def intro!: exI [of _ vs] exI [of _ t])
  qed
qed

lemma registry_of_rejected: "rejected (registry_of es) = []"
  by (induction es rule: rev_induct)
    (auto simp: registry_of_def NewMandateRegistry_def run_events_append next_state_def Put_def Let_def split: option.split)

lemma registry_lookup:
  assumes "sorted (map fst es)" and "undisturbed (tenant, portfolio) {} es" and "\<forall>e\<in>set es. fst e \<le> t"
    and "t \<noteq> 0" and "tenant \<noteq> []" and "tenant \<noteq> SystemTenant"
  obtains (governed) m where "fst (registry_Mandate (registry_of es) tenant portfolio t) = Inr (Some m, Governed)"
      "in_force (published (tenant, portfolio) es) t m"
    | (lapsed) "fst (registry_Mandate (registry_of es) tenant portfolio t) = Inr (None, MandateLapsed)"
      "\<forall>m. \<not> in_force (published (tenant, portfolio) es) t m" "published (tenant, portfolio) es \<noteq> {}"
    | (never) "fst (registry_Mandate (registry_of es) tenant portfolio t) = Inr (None, NeverMandated)"
      "published (tenant, portfolio) es = {}"
proof -
  let ?k = "(tenant, portfolio)"
  obtain vs u where vs: "ascending vs" "set vs = published ?k es" "byKey (registry_of es) ?k = retainSelectable vs u" "u \<le> t"
    using registry_versions [OF assms(1-3)] by blast
  have resolve: "resolve_versions (registry_of es) tenant portfolio = retainSelectable vs u"
    using assms(6) vs(3) by (simp add: resolve_versions_def Let_def)
  have select: "select_version (retainSelectable vs u) t = select_version vs t"
    using vs assms(4) by (intro select_retain)
  have iff: "select_version vs t = Some m \<longleftrightarrow> in_force (published ?k es) t m" for m
    using select_iff [OF vs(1) assms(4), of m] vs(2) by (simp add: version_set_defs)
  have lookup: "fst (registry_Mandate (registry_of es) tenant portfolio t) =
      (if vs = [] then Inr (None, NeverMandated)
       else case select_version vs t of None \<Rightarrow> Inr (None, MandateLapsed) | Some m \<Rightarrow> Inr (Some m, Governed))"
    using assms(5,6) resolve select
    by (simp add: registry_Mandate_def registry_of_rejected Let_def retain_Nil split: option.split)
  show thesis
  proof (cases "vs = []")
    case True
    then show ?thesis using lookup vs(2) by (intro never) simp_all
  next
    case False
    then have ne: "published ?k es \<noteq> {}" using vs(2) by (metis set_empty)
    show ?thesis
    proof (cases "select_version vs t")
      case None
      then show ?thesis using lookup False ne iff by (intro lapsed) simp_all
    next
      case (Some m)
      then have "in_force (published ?k es) t m" by (simp add: iff)
      then show ?thesis using lookup False Some by (intro governed [of m]) simp_all
    qed
  qed
qed

text \<open>
  C8: Pruning loses no answer. After any history of publications with a clock that does not run backwards, in
  which no republication withdraws the mandate in force, the registry, which keeps only the versions it considers
  selectable, resolves every lookup of a customer tenant at or after the last publication as the whole history
  does: the latest effective mandate when there is one, lapsed when mandates exist and none is effective,
  never mandated when none was published.
\<close>

theorem registry_answers_history:
  assumes "sorted (map fst es)" and "undisturbed (tenant, portfolio) {} es" and "\<forall>e\<in>set es. fst e \<le> t"
    and "t \<noteq> 0" and "tenant \<noteq> []" and "tenant \<noteq> SystemTenant"
  shows "case fst (registry_Mandate (registry_of es) tenant portfolio t) of
      Inr (Some m, g) \<Rightarrow> g = Governed \<and> in_force (published (tenant, portfolio) es) t m
    | Inr (None, g) \<Rightarrow> (\<forall>m. \<not> in_force (published (tenant, portfolio) es) t m)
        \<and> g = (if published (tenant, portfolio) es = {} then NeverMandated else MandateLapsed)
    | Inl e \<Rightarrow> False"
  using assms
proof (cases rule: registry_lookup)
  case never
  then show ?thesis by (simp add: in_force_def)
qed simp_all

theorem registry_answers_history_witness:
  "case fst (registry_Mandate
        (registry_of [(70000000000000000000, Some \<lparr>mandate_id = ''m'', tenant_id = ''acme'', portfolio_id = ''growth'',
           mandate_version = 1, rules = [], effective_at = Some \<lparr>ts_seconds = 0, ts_nanos = 0\<rparr>\<rparr>)])
        ''acme'' ''growth'' 70000000000000000000) of
      Inr (Some m, g) \<Rightarrow> g = Governed \<and> mandate_version m = 1
    | _ \<Rightarrow> False"
proof -
  let ?m = "\<lparr>mandate_id = ''m'', tenant_id = ''acme'', portfolio_id = ''growth'', mandate_version = 1, rules = [],
    effective_at = Some \<lparr>ts_seconds = 0, ts_nanos = 0\<rparr>\<rparr> :: Mandate"
  let ?es = "[(70000000000000000000, Some ?m)]"
  have pub: "published (''acme'', ''growth'') ?es = {?m}"
    by (simp add: published_def publish_event_def filed_under_def publish_set_def)
  have f: "in_force {?m} 70000000000000000000 ?m"
    by (simp add: in_force_def effective_def AsTime_def unixToInternal_def)
  have "undisturbed (''acme'', ''growth'') {} ?es" by (simp add: withdraws_def)
  then have "case fst (registry_Mandate (registry_of ?es) ''acme'' ''growth'' 70000000000000000000) of
      Inr (Some m, g) \<Rightarrow> g = Governed \<and> in_force (published (''acme'', ''growth'') ?es) 70000000000000000000 m
    | Inr (None, g) \<Rightarrow> (\<forall>m. \<not> in_force (published (''acme'', ''growth'') ?es) 70000000000000000000 m)
        \<and> g = (if published (''acme'', ''growth'') ?es = {} then NeverMandated else MandateLapsed)
    | Inl e \<Rightarrow> False"
    by (intro registry_answers_history) (simp_all add: SystemTenant_def)
  then show ?thesis using f unfolding pub by (auto simp: in_force_def split: sum.splits prod.splits option.splits)
qed

text \<open>
  Without the condition the answer can be lost: when the version in force is republished under its own number with
  a later date, the mandate it had replaced, still effective in the whole history, is gone from the registry.
\<close>

lemma redating_the_mandate_in_force_lapses:
  fixes mk
  defines "mk \<equiv> \<lambda>v s. \<lparr>mandate_id = ''m'', tenant_id = ''acme'', portfolio_id = ''growth'', mandate_version = v, rules = [],
    effective_at = Some \<lparr>ts_seconds = s, ts_nanos = 0\<rparr>\<rparr> :: Mandate"
  defines "now \<equiv> (62135596800 + 100) * 1000000000"
  defines "es \<equiv> [(now, Some (mk 1 10)), (now, Some (mk 2 20)), (now, Some (mk 2 200))]"
  shows "fst (registry_Mandate (registry_of es) ''acme'' ''growth'' now) = Inr (None, MandateLapsed)"
    and "in_force (published (''acme'', ''growth'') es) now (mk 1 10)"
  subgoal
    by (simp add: es_def mk_def now_def registry_of_def next_state_def Put_def NewMandateRegistry_def put_version_def
        retainSelectable_def version_order_def effective_def AsTime_def unixToInternal_def registry_Mandate_def
        resolve_versions_def select_version_def SystemTenant_def TenantsGoverning_def sortedTenants_def Let_def)
  subgoal
    by (simp add: es_def mk_def now_def published_def publish_event_def filed_under_def publish_set_def in_force_def
        effective_def AsTime_def unixToInternal_def version_order_def Let_def) (auto simp: unixToInternal_def)
  done

section \<open>What reaches the registry, and whose it is\<close>

text \<open>The registry under its consumer, with lookups and arming in between.\<close>

inductive registry_reachable :: "mandate_codec \<Rightarrow> MandateRegistry \<Rightarrow> bool" for codec where
  start: "registry_reachable codec NewMandateRegistry"
| handle: "registry_reachable codec r \<Longrightarrow> registry_reachable codec (consumer_Handle codec r now payload)"
| lookup: "registry_reachable codec r \<Longrightarrow> registry_reachable codec (snd (registry_Mandate r tenant portfolio t))"
| arm: "registry_reachable codec r \<Longrightarrow> registry_reachable codec (registry_Arm r)"

definition registry_ok :: "MandateRegistry \<Rightarrow> bool" where
  "registry_ok r \<longleftrightarrow>
     (\<forall>t p. ascending (byKey r (t, p))
        \<and> (\<forall>m\<in>set (byKey r (t, p)). tenant_id m = t \<and> portfolio_id m = p)
        \<and> (byKey r (t, p) \<noteq> [] \<longleftrightarrow> t \<in> set (tenantsByPortfolio r p)))
     \<and> (\<forall>p. distinct (tenantsByPortfolio r p))"

lemma registry_ok_cong:
  "registry_ok r \<Longrightarrow> byKey r' = byKey r \<Longrightarrow> tenantsByPortfolio r' = tenantsByPortfolio r \<Longrightarrow> registry_ok r'"
  by (simp add: registry_ok_def)

lemma put_version_nonempty: "put_version vs m \<noteq> []"
proof -
  have "length (put_version vs m) = length (replace_version vs m)" by (simp add: put_version_def)
  moreover have "replace_version vs m \<noteq> []" by (cases vs) auto
  ultimately show ?thesis by auto
qed

lemma retain_subset: "set (retainSelectable vs t) \<subseteq> set vs"
  using retain_drop [of vs t] by (auto dest: in_set_dropD)

lemma registry_ok_Put:
  assumes ok: "registry_ok r" and put: "Put r now mo = Inr r'"
  shows "registry_ok r'"
proof -
  obtain m where mo: "mo = Some m" and key: "tenant_id m \<noteq> []" "portfolio_id m \<noteq> []"
    using put by (auto simp: Put_def Let_def split: option.splits if_splits)
  let ?k = "(tenant_id m, portfolio_id m)"
  have by_key: "byKey r' = (byKey r)(?k := retainSelectable (put_version (byKey r ?k) m) now)"
    and tenants: "tenantsByPortfolio r' = (tenantsByPortfolio r)
      (portfolio_id m := List.insert (tenant_id m) (tenantsByPortfolio r (portfolio_id m)))"
    using put mo key by (auto simp: Put_def Let_def)
  have asc: "ascending (byKey r ?k)" and mine: "\<forall>v\<in>set (byKey r ?k). tenant_id v = tenant_id m \<and> portfolio_id v = portfolio_id m"
    using ok by (simp_all add: registry_ok_def)
  have sub: "set (retainSelectable (put_version (byKey r ?k) m) now) \<subseteq> insert m (set (byKey r ?k))"
    using retain_subset set_put_version [OF asc, of m] by (auto simp: version_set_defs publish_set_def)
  have at_key: "byKey r' ?k = retainSelectable (put_version (byKey r ?k) m) now" by (simp add: by_key)
  have mine': "\<forall>v\<in>set (byKey r' ?k). tenant_id v = tenant_id m \<and> portfolio_id v = portfolio_id m"
    unfolding at_key using mine sub by blast
  have at_other: "byKey r' (t, p) = byKey r (t, p)" if "(t, p) \<noteq> ?k" for t p using that by (auto simp: by_key)
  have holders: "t \<in> set (tenantsByPortfolio r' p) \<longleftrightarrow> t \<in> set (tenantsByPortfolio r p) \<or> (t, p) = ?k" for t p
    by (auto simp: tenants)
  have "ascending (byKey r' (t, p)) \<and> (\<forall>v\<in>set (byKey r' (t, p)). tenant_id v = t \<and> portfolio_id v = p)
      \<and> (byKey r' (t, p) \<noteq> [] \<longleftrightarrow> t \<in> set (tenantsByPortfolio r' p))" for t p
  proof (cases "(t, p) = ?k")
    case True
    then have tp: "t = tenant_id m" "p = portfolio_id m" by simp_all
    have "ascending (byKey r' ?k)" using asc by (simp add: at_key retain_ascending put_version_ascending)
    moreover have "byKey r' ?k \<noteq> []" by (simp add: at_key retain_Nil put_version_nonempty)
    ultimately show ?thesis using mine' holders unfolding tp by blast
  next
    case False
    then show ?thesis using ok at_other [OF False] by (auto simp: registry_ok_def holders)
  qed
  moreover have "distinct (tenantsByPortfolio r' p)" for p using ok by (simp add: tenants registry_ok_def)
  ultimately show ?thesis by (simp add: registry_ok_def)
qed

lemma registry_ok_put_all: "registry_ok r \<Longrightarrow> registry_ok (snd (put_all r now ms))"
  by (induction ms arbitrary: r) (auto split: sum.split dest: registry_ok_Put)

lemma registry_ok_Reject: "registry_ok r \<Longrightarrow> registry_ok (registry_Reject r t p cause)"
  by (erule registry_ok_cong) (simp_all add: registry_Reject_def Drop_def)

lemma registry_ok_Handle: "registry_ok r \<Longrightarrow> registry_ok (consumer_Handle codec r now payload)"
proof -
  assume ok: "registry_ok r"
  have drop: "registry_ok r \<Longrightarrow> registry_ok (Drop r)" for r by (erule registry_ok_cong) (simp_all add: Drop_def)
  have "registry_ok (snd (loader_Apply codec r now cc))" for cc
    using ok registry_ok_put_all by (auto simp: loader_Apply_def split: sum.split)
  then show ?thesis using ok drop registry_ok_Reject unfolding consumer_Handle_def
    by (auto split: option.split prod.split) (metis snd_conv)+
qed

lemma lookup_frame:
  "byKey (snd (registry_Mandate r t p a)) = byKey r \<and> tenantsByPortfolio (snd (registry_Mandate r t p a)) = tenantsByPortfolio r
   \<and> rejected (snd (registry_Mandate r t p a)) = rejected r"
  by (auto simp: registry_Mandate_def Let_def warnMisfiled_def warnSystemFallback_def split: option.split)

lemma reachable_ok: "registry_reachable codec r \<Longrightarrow> registry_ok r"
proof (induction rule: registry_reachable.induct)
  case start
  then show ?case by (simp add: registry_ok_def NewMandateRegistry_def ascending_def)
next
  case (lookup r t p a)
  then show ?case using registry_ok_cong lookup_frame by blast
next
  case (arm r)
  then show ?case by (elim registry_ok_cong) (simp_all add: registry_Arm_def)
qed (rule registry_ok_Handle)

lemma select_mem: "select_version vs t = Some m \<Longrightarrow> m \<in> set vs"
  by (auto simp: select_last Let_def split: if_splits dest: last_in_set)

lemma resolved_mandate:
  assumes "registry_ok r" and "m \<in> set (resolve_versions r tenant portfolio)"
  shows "portfolio_id m = portfolio
    \<and> (tenant_id m = tenant \<or> tenant = SystemTenant \<and> TenantsGoverning r portfolio = [tenant_id m])"
proof (cases "byKey r (tenant, portfolio) = [] \<and> tenant = SystemTenant \<and> length (TenantsGoverning r portfolio) = 1")
  case True
  then obtain o1 where "TenantsGoverning r portfolio = [o1]" by (auto simp: length_Suc_conv)
  then show ?thesis using assms True by (auto simp: resolve_versions_def registry_ok_def Let_def)
next
  case False
  then have "resolve_versions r tenant portfolio = byKey r (tenant, portfolio)"
    by (simp only: resolve_versions_def Let_def if_False)
  then show ?thesis using assms by (simp add: registry_ok_def)
qed

text \<open>
  C9: A tenant is governed by its own mandates. In every registry a stream of messages can produce, the mandate a
  lookup returns is of the portfolio asked about and of the tenant asking, unless the lookup is the shared system
  bucket and exactly one tenant holds mandates for that portfolio name; and filing a mandate of another tenant or
  another portfolio never changes the answer to a customer tenant.
\<close>

theorem tenant_isolation:
  assumes "registry_reachable codec r"
  shows "(case fst (registry_Mandate r tenant portfolio t) of
       Inr (Some m, g) \<Rightarrow> g = Governed \<and> portfolio_id m = portfolio
         \<and> (tenant_id m = tenant \<or> tenant = SystemTenant \<and> TenantsGoverning r portfolio = [tenant_id m])
     | _ \<Rightarrow> True)
   \<and> (\<forall>now m r'. Put r now (Some m) = Inr r' \<and> (tenant_id m, portfolio_id m) \<noteq> (tenant, portfolio) \<and> tenant \<noteq> SystemTenant
        \<longrightarrow> fst (registry_Mandate r' tenant portfolio t) = fst (registry_Mandate r tenant portfolio t))"
proof (intro conjI allI impI)
  have "portfolio_id m = portfolio \<and> (tenant_id m = tenant \<or> tenant = SystemTenant \<and> TenantsGoverning r portfolio = [tenant_id m])"
    if "select_version (resolve_versions r tenant portfolio) t = Some m" for m
    using resolved_mandate [OF reachable_ok [OF assms] select_mem [OF that]] .
  then show "case fst (registry_Mandate r tenant portfolio t) of
       Inr (Some m, g) \<Rightarrow> g = Governed \<and> portfolio_id m = portfolio
         \<and> (tenant_id m = tenant \<or> tenant = SystemTenant \<and> TenantsGoverning r portfolio = [tenant_id m])
     | _ \<Rightarrow> True"
    by (auto simp: registry_Mandate_def Let_def split: option.split)
next
  fix now m r'
  assume h: "Put r now (Some m) = Inr r' \<and> (tenant_id m, portfolio_id m) \<noteq> (tenant, portfolio) \<and> tenant \<noteq> SystemTenant"
  then have "byKey r' (tenant, portfolio) = byKey r (tenant, portfolio)"
    "map_of (rejected r') (tenant, portfolio) = map_of (rejected r) (tenant, portfolio)"
    by (auto simp: Put_def Let_def delete_conv' split: if_splits)
  then show "fst (registry_Mandate r' tenant portfolio t) = fst (registry_Mandate r tenant portfolio t)"
    using h by (simp add: registry_Mandate_def resolve_versions_def Let_def split: option.split)
qed
theorem tenant_isolation_witness:
  "fst (registry_Mandate NewMandateRegistry ''acme'' ''growth'' 5) =
   fst (registry_Mandate (registry_of [(1, Some \<lparr>mandate_id = ''m'', tenant_id = ''beta'', portfolio_id = ''growth'',
      mandate_version = 1, rules = [], effective_at = None\<rparr>)]) ''acme'' ''growth'' 5)"
proof -
  let ?m = "\<lparr>mandate_id = ''m'', tenant_id = ''beta'', portfolio_id = ''growth'', mandate_version = 1, rules = [],
    effective_at = None\<rparr> :: Mandate"
  have put: "Put NewMandateRegistry 1 (Some ?m) = Inr (registry_of [(1, Some ?m)])"
    by (simp add: registry_of_def next_state_def Put_def Let_def)
  have "fst (registry_Mandate (registry_of [(1, Some ?m)]) ''acme'' ''growth'' 5)
      = fst (registry_Mandate NewMandateRegistry ''acme'' ''growth'' 5)"
    by (rule tenant_isolation [OF registry_reachable.start, THEN conjunct2, THEN spec [of _ 1], THEN spec [of _ ?m],
          THEN spec, THEN mp]) (use put in \<open>simp add: SystemTenant_def\<close>)
  then show ?thesis by (rule sym)
qed

section \<open>An unreadable mandate is not an absent one\<close>

lemma HasPrefix_append [simp]: "HasPrefix (p @ s) p"
  by (simp add: HasPrefix_def)





text \<open>
  A slash in a tenant id is not refused at publication, as the comment of the parser says it is: the validation accepts
  it, and the key parses to another pair, so that a failure is filed under a portfolio nobody named.
\<close>

lemma slash_tenant_misfiled:
  assumes "mandate_id m \<noteq> []" and "portfolio_id m \<noteq> []" and "mandate_version m \<noteq> 0" and "effective_at m \<noteq> None"
    and "tenant_id m = ''a/b''"
  shows "ValidateMandate (Some m) = None"
    and "ParseMandateConfigKey (MandateConfigKey (tenant_id m) (portfolio_id m)) = Some (''a'', ''b/'' @ portfolio_id m)"
proof -
  show "ValidateMandate (Some m) = None" using assms by (simp add: ValidateMandate_def)
  have "strings_Cut (''a/b'' @ CHR ''/'' # portfolio_id m) (CHR ''/'') = Some (''a'', ''b/'' @ portfolio_id m)"
    by (simp add: strings_Cut_def)
  then show "ParseMandateConfigKey (MandateConfigKey (tenant_id m) (portfolio_id m)) = Some (''a'', ''b/'' @ portfolio_id m)"
    using assms(5) by (simp add: ParseMandateConfigKey_def MandateConfigKey_def CutPrefix_def)
qed



section \<open>Publishing and booting\<close>

lemma merge_version_set:
  "set (merge_version hs m) = publish_set (set hs) m"
  by (auto simp: merge_version_def publish_set_def)

lemma merge_version_distinct:
  assumes "distinct (map mandate_version hs)"
  shows "distinct (map mandate_version (merge_version hs m))"
proof -
  have "map mandate_version (merge_version hs m) =
      map mandate_version hs @ (if \<exists>v\<in>set hs. mandate_version v = mandate_version m then [] else [mandate_version m])"
    by (auto simp: merge_version_def)
  then show ?thesis using assms by auto
qed

lemma merge_ascending:
  assumes "distinct (map mandate_version hs)"
  shows "ascending (sort_key version_order (merge_version hs m))"
  using merge_version_distinct [OF assms, of m] by (simp add: ascending_def distinct_map)

lemma mergeIntoSet_kept:
  assumes "distinct (map mandate_version hs)" and "mergeIntoSet hs m now = Inr kept"
  shows "ascending kept \<and> set kept = mandate_versions.selectable (publish_set (set hs) m) now"
  using assms merge_ascending [OF assms(1), of m]
  by (auto simp: mergeIntoSet_def Let_def retain_ascending set_retain merge_version_set split: if_splits)

text \<open>A booting replica files the members of the retained set one by one.\<close>

lemma put_all_registry:
  assumes "\<forall>m\<in>set ms. tenant_id m \<noteq> [] \<and> portfolio_id m \<noteq> []"
  shows "put_all r now ms = (None, run_events (\<lambda>r e. Put r (fst e) (snd e)) r (map (\<lambda>m. (now, Some m)) ms))"
  using assms by (induction ms arbitrary: r) (auto simp: Put_def next_state_def Let_def)

lemma published_set:
  assumes "\<forall>m\<in>set ms. filed_under k (Some m)" and "distinct (map mandate_version ms)"
  shows "published k (map (\<lambda>m. (now, Some m)) ms) = set ms"
  using assms
proof (induction ms rule: rev_induct)
  case (snoc m ms)
  then have "{x \<in> set ms. mandate_version x \<noteq> mandate_version m} = set ms" by (auto simp: image_iff)
  then show ?case using snoc by (auto simp: published_def publish_event_def publish_set_def)
qed (simp add: published_def)

lemma undisturbed_distinct:
  assumes "\<forall>m\<in>set ms. filed_under k (Some m)" and "distinct (map mandate_version ms)"
  shows "undisturbed k {} (map (\<lambda>m. (now, Some m)) ms)"
  using assms
proof (induction ms rule: rev_induct)
  case (snoc m ms)
  have "\<not> withdraws (published k (map (\<lambda>m. (now, Some m)) ms)) now m"
    using snoc.prems published_set [of ms k now] by (fastforce simp: withdraws_def image_iff)
  then show ?case using snoc by (simp add: undisturbed_append published_def)
qed simp

lemma boot_versions:
  assumes "ascending ms" and "\<forall>m\<in>set ms. filed_under k (Some m)" and "boot \<le> u" and "u \<noteq> 0"
  shows "select_version (byKey (snd (put_all NewMandateRegistry boot ms)) k) u = Some v \<longleftrightarrow> in_force (set ms) u v"
proof -
  let ?es = "map (\<lambda>m. (boot, Some m)) ms"
  have d: "distinct (map mandate_version ms)" using assms(1) by (simp add: ascending_def)
  have ids: "\<forall>m\<in>set ms. tenant_id m \<noteq> [] \<and> portfolio_id m \<noteq> []" using assms(2) by (auto simp: filed_under_def)
  have "map fst ?es = replicate (length ms) boot" by (induction ms) auto
  then have "sorted (map fst ?es)" by simp
  then obtain vs t where vs: "ascending vs" "set vs = set ms" "byKey (registry_of ?es) k = retainSelectable vs t" "t \<le> boot"
    using registry_versions [of ?es k boot] undisturbed_distinct [OF assms(2) d] published_set [OF assms(2) d] by auto
  have "select_version (byKey (registry_of ?es) k) u = select_version vs u"
    using vs assms(3,4) by (simp add: select_retain)
  then show ?thesis
    using select_iff [OF vs(1) assms(4), of v] vs(2) put_all_registry [OF ids] by (simp add: registry_of_def version_set_defs)
qed

lemma still_in_force:
  assumes "in_force S now v" and "\<not> withdraws S now m" and "now \<le> u" and "finite S"
  shows "\<exists>w. in_force (publish_set S m) u w"
proof -
  obtain y where "y \<in> publish_set S m" "effective y \<le> now"
  proof (cases "mandate_version v = mandate_version m")
    case True
    then have "effective m \<le> now" using assms(1,2) by (auto simp: withdraws_def in_force_def)
    then show ?thesis by (intro that [of m]) (auto simp: publish_set_def)
  next
    case False
    then show ?thesis using assms(1) by (intro that [of v]) (auto simp: publish_set_def in_force_def)
  qed
  then show ?thesis
    using mandate_versions.rules_at_exists [of "publish_set S m" y u] assms(3,4)
    by (auto simp: version_set_defs publish_set_def)
qed

text \<open>
  What is published governs the replicas that boot from it. When the publisher merges a mandate into the set its
  subject retains, a replica that boots at or after that instant from the new set alone answers every later lookup
  with the mandate in force in the retained set with the change made; a portfolio that was governed stays governed
  unless the change re-dates the very version in force; and the merge refuses exactly when a mandate effective
  already would keep the change from ever being selected.
\<close>

theorem published_set_governs:
  assumes "distinct (map mandate_version hs)" and "\<forall>v\<in>set (m # hs). filed_under (tenant, portfolio) (Some v)"
    and "now \<le> boot" and "boot \<le> u" and "u \<noteq> 0"
  shows "case mergeIntoSet hs m now of
      Inr kept \<Rightarrow>
        (\<forall>v. select_version (byKey (snd (put_all NewMandateRegistry boot kept)) (tenant, portfolio)) u = Some v
           \<longleftrightarrow> in_force (publish_set (set hs) m) u v)
        \<and> ((\<exists>v. in_force (set hs) now v) \<and> \<not> withdraws (set hs) now m
           \<longrightarrow> (\<exists>v. select_version (byKey (snd (put_all NewMandateRegistry boot kept)) (tenant, portfolio)) u = Some v))
    | Inl e \<Rightarrow> e = Behind_in_force \<and> (\<exists>v\<in>set hs. mandate_version v \<noteq> mandate_version m \<and> effective v \<le> now
        \<and> version_order m < version_order v)"
proof (cases "mergeIntoSet hs m now")
  case (Inr kept)
  have kept: "ascending kept" "set kept = mandate_versions.selectable (publish_set (set hs) m) now"
    using mergeIntoSet_kept [OF assms(1) Inr] by auto
  have "set kept \<subseteq> publish_set (set hs) m" by (auto simp: kept(2) mandate_versions.selectable_def)
  then have filed: "\<forall>v\<in>set kept. filed_under (tenant, portfolio) (Some v)" using assms(2) by (auto simp: publish_set_def)
  have iff: "select_version (byKey (snd (put_all NewMandateRegistry boot kept)) (tenant, portfolio)) u = Some v
      \<longleftrightarrow> in_force (publish_set (set hs) m) u v" for v
    using boot_versions [OF kept(1) filed assms(4,5), of v]
      mandate_versions.rules_at_selectable [of "publish_set (set hs) m" now u v] assms(3,4)
    by (simp add: kept(2) version_set_defs publish_set_def)
  have "\<exists>v. in_force (publish_set (set hs) m) u v" if "in_force (set hs) now v" "\<not> withdraws (set hs) now m" for v
    using still_in_force [OF that, of u] assms(3,4) by simp
  then show ?thesis using Inr iff by auto
next
  case (Inl e)
  let ?S = "publish_set (set hs) m"
  have sel: "set (retainSelectable (sort_key version_order (merge_version hs m)) now) = mandate_versions.selectable ?S now"
    using set_retain [OF merge_ascending [OF assms(1)]] by (simp add: merge_version_set)
  then have "m \<notin> mandate_versions.selectable ?S now" using Inl by (auto simp: mergeIntoSet_def Let_def split: if_splits)
  then obtain y where "y \<in> ?S" "effective y \<le> now" "\<not> version_order y \<le> version_order m"
    by (auto simp: mandate_versions.selectable_def publish_set_def)
  then have "\<exists>v\<in>set hs. mandate_version v \<noteq> mandate_version m \<and> effective v \<le> now \<and> version_order m < version_order v"
    by (auto simp: publish_set_def not_le)
  moreover have "e = Behind_in_force" using Inl by (auto simp: mergeIntoSet_def Let_def split: if_splits)
  ultimately show ?thesis using Inl by simp
qed

text \<open>One mandate, then its successor scheduled: the replica booting from the set is still governed by the first.\<close>

definition sample_mandate :: "64 word \<Rightarrow> i64 \<Rightarrow> Mandate" where
  "sample_mandate v s = \<lparr>mandate_id = ''m'', tenant_id = ''acme'', portfolio_id = ''growth'', mandate_version = v, rules = [],
     effective_at = Some \<lparr>ts_seconds = s, ts_nanos = 0\<rparr>\<rparr>"

lemma sample_effective:
  "effective (sample_mandate 1 10) = 62135596810 * 1000000000"
  "effective (sample_mandate 2 200) = 62135597000 * 1000000000"
  "effective (sample_mandate 1 200) = 62135597000 * 1000000000"
  by (simp_all add: effective_def sample_mandate_def AsTime_def unixToInternal_def)

theorem published_set_governs_witness:
  "case mergeIntoSet [sample_mandate 1 10] (sample_mandate 2 200) (62135596900 * 1000000000) of
     Inr kept \<Rightarrow> \<exists>v. select_version (byKey (snd (put_all NewMandateRegistry (62135596900 * 1000000000) kept)) (''acme'', ''growth''))
        (62135596900 * 1000000000) = Some v
   | Inl e \<Rightarrow> False"
proof -
  let ?now = "62135596900 * 1000000000 :: int"
  have ver: "mandate_version (sample_mandate v s) = v" for v s by (simp add: sample_mandate_def)
  have filed: "\<forall>v\<in>set [sample_mandate 2 200, sample_mandate 1 10]. filed_under (''acme'', ''growth'') (Some v)"
    by (simp add: filed_under_def sample_mandate_def)
  have here: "in_force {sample_mandate 1 10} ?now (sample_mandate 1 10)" by (simp add: in_force_def sample_effective)
  have keep: "\<not> withdraws {sample_mandate 1 10} ?now (sample_mandate 2 200)" by (simp add: withdraws_def ver)
  have "\<not> version_order (sample_mandate 2 200) < version_order (sample_mandate 1 10)"
    by (simp add: version_order_def sample_effective less_prod_def)
  then show ?thesis
    using published_set_governs [of "[sample_mandate 1 10]" "sample_mandate 2 200" "''acme''" "''growth''" ?now ?now ?now] filed here keep
    by (auto split: sum.splits)
qed

text \<open>
  The publisher's documentation calls the published set correct by construction; republishing the version in force
  under its own number with a later date is the case it does not cover: nothing in the new set governs.
\<close>

lemma redating_publishes_ungoverned:
  "\<exists>kept. mergeIntoSet [sample_mandate 1 10] (sample_mandate 1 200) (62135596900 * 1000000000) = Inr kept
     \<and> select_version (byKey (snd (put_all NewMandateRegistry (62135596900 * 1000000000) kept)) (''acme'', ''growth''))
         (62135596900 * 1000000000) = None
     \<and> in_force {sample_mandate 1 10} (62135596900 * 1000000000) (sample_mandate 1 10)"
proof -
  let ?now = "62135596900 * 1000000000 :: int" and ?m = "sample_mandate 1 200"
  have "merge_version [sample_mandate 1 10] ?m = [?m]" by (simp add: merge_version_def sample_mandate_def)
  then have merged: "mergeIntoSet [sample_mandate 1 10] ?m ?now = Inr [?m]"
    by (simp add: mergeIntoSet_def retainSelectable_def)
  have "\<not> in_force (set [?m]) ?now v" for v by (auto simp: in_force_def sample_effective)
  then have "select_version (byKey (snd (put_all NewMandateRegistry ?now [?m])) (''acme'', ''growth'')) ?now \<noteq> Some v" for v
    using boot_versions [of "[?m]" "(''acme'', ''growth'')" ?now ?now v]
    by (simp add: ascending_def filed_under_def) (simp add: sample_mandate_def)
  then have "select_version (byKey (snd (put_all NewMandateRegistry ?now [?m])) (''acme'', ''growth'')) ?now = None"
    by (meson option.exhaust)
  then show ?thesis using merged by (auto simp: in_force_def sample_effective)
qed

end
