(* ===== verification/Compliance_Gate.thy ===== *)
theory Compliance_Gate
  imports Mandate_Registry
begin

text \<open>
  The pre-trade gate (\<open>internal/compliance/gate.go\<close>), the decision record (\<open>decisions.go\<close>), the equity join that
  prepares the book (\<open>equity.go\<close>) and the snapshot bootstrap of \<open>engine.go\<close>. The sources the gate reads, mandates,
  books, margins, marks and cash, are functions; one that is not wired is \<open>None\<close>. The observers and the log lines
  of the \<open>note\<close> functions are not modelled, what they remember in the say-once ledger is.
\<close>

section \<open>Data\<close>

record OrderDelta =
  od_TenantID :: string
  od_PortfolioID :: string
  od_InstrumentID :: string
  od_SignedQuantity :: "decimal option"
  od_Price :: "decimal option"
  od_Currency :: string
  od_Venue :: string
  od_OrderID :: string
  od_Issuer :: string
  od_AsOf :: instant
  od_WorkedSlices :: "32 word"

record Decision =
  Allowed :: bool
  Result :: "ComplianceResult option"
  Ungoverned :: bool
  Unpriced :: bool
  Unvaluable :: bool
  Unaccounted :: bool
  Unscoped :: bool
  Unreadable :: bool
  Unconstrained :: bool

definition zero_decision :: Decision where
  "zero_decision = \<lparr>Allowed = False, Result = None, Ungoverned = False, Unpriced = False, Unvaluable = False,
     Unaccounted = False, Unscoped = False, Unreadable = False, Unconstrained = False\<rparr>"

text \<open>A failed read of the mandate or of the book, to be retried.\<close>

datatype gate_error = Mandate_read mandate_error | Book_read string

type_synonym BookSource = "string \<Rightarrow> string + ComplianceBook"
type_synonym MandateSource = "string \<Rightarrow> string \<Rightarrow> instant \<Rightarrow> mandate_error + (Mandate option \<times> Governance)"
type_synonym MarginSource = "string \<Rightarrow> string \<Rightarrow> string \<Rightarrow> MarginState option"

record PreTradeGate =
  g_engine :: RuleRegistry
  g_books :: BookSource
  g_mandates :: MandateSource
  g_margins :: "MarginSource option"
  g_classifier :: "Classifier option"
  g_requireMandate :: bool
  g_warned :: sayOnce

section \<open>The domain of a decimal\<close>

definition maxDecimalExponent :: int where
  "maxDecimalExponent = 64"

definition decimalInDomain :: "decimal option \<Rightarrow> bool" where
  "decimalInDomain d =
     (case d of None \<Rightarrow> True
      | Some x \<Rightarrow> sint (exponent x) \<ge> - maxDecimalExponent \<and> sint (exponent x) \<le> maxDecimalExponent)"

definition deltaInDomain :: "OrderDelta \<Rightarrow> bool" where
  "deltaInDomain d \<longleftrightarrow> decimalInDomain (od_SignedQuantity d) \<and> decimalInDomain (od_Price d)"

definition bookInDomain :: "ComplianceBook \<Rightarrow> bool" where
  "bookInDomain b \<longleftrightarrow>
     \<not> (NAV b \<noteq> None \<and> \<not> decimalInDomain (get_amount (NAV b)))
     \<and> list_all (\<lambda>p. decimalInDomain (Quantity p)
          \<and> \<not> (MarketValue p \<noteq> None \<and> \<not> decimalInDomain (get_amount (MarketValue p)))) (Positions b)"

section \<open>The projected book\<close>

definition negateDecimal :: "decimal option \<Rightarrow> decimal option" where
  "negateDecimal d =
     (case d of None \<Rightarrow> None
      | Some x \<Rightarrow> if sint (coefficient x) = MinInt64 then Some x
                 else Some \<lparr>coefficient = - coefficient x, exponent = exponent x\<rparr>)"

definition addDecimal :: "decimal option \<Rightarrow> decimal option \<Rightarrow> decimal option" where
  "addDecimal a b = dec_Add a b"

definition mulDecimal :: "decimal option \<Rightarrow> decimal option \<Rightarrow> decimal option" where
  "mulDecimal a b = dec_Mul a b"

text \<open>The index of the first position in the instrument.\<close>

definition position_index :: "Position list \<Rightarrow> string \<Rightarrow> nat option" where
  "position_index ps i = find (\<lambda>n. InstrumentID (ps ! n) = i) [0..<length ps]"

definition project_positions :: "Position list \<Rightarrow> OrderDelta \<Rightarrow> Position list option" where
  "project_positions ps d =
     (let idx = position_index ps (od_InstrumentID d);
          existing = (case idx of None \<Rightarrow> None | Some n \<Rightarrow> Quantity (ps ! n)) in
      (case addDecimal existing (od_SignedQuantity d) of
         None \<Rightarrow> None
       | Some newQty \<Rightarrow>
           (case mulDecimal (Some newQty) (od_Price d) of
              None \<Rightarrow> None
            | Some notional \<Rightarrow>
                let pos = \<lparr>InstrumentID = od_InstrumentID d, Quantity = Some newQty,
                           MarketValue = Some \<lparr>amount = Some notional, currency_code = od_Currency d\<rparr>\<rparr>
                in Some (case idx of None \<Rightarrow> ps @ [pos] | Some n \<Rightarrow> ps[n := pos]))))"

definition project_cash :: "money \<Rightarrow> OrderDelta \<Rightarrow> money option" where
  "project_cash cash d =
     (case mulDecimal (od_SignedQuantity d) (od_Price d) of
        None \<Rightarrow> None
      | Some spend \<Rightarrow>
          (case addDecimal (amount cash) (negateDecimal (Some spend)) of
             None \<Rightarrow> None
           | Some after \<Rightarrow> Some \<lparr>amount = Some after, currency_code = currency_code cash\<rparr>))"

definition project :: "ComplianceBook \<Rightarrow> OrderDelta \<Rightarrow> ComplianceBook option" where
  "project book d =
     (case project_positions (Positions book) d of
        None \<Rightarrow> None
      | Some ps \<Rightarrow>
          (case Cash book of
             None \<Rightarrow> Some (book\<lparr>Positions := ps\<rparr>)
           | Some cash \<Rightarrow>
               (case project_cash cash d of
                  None \<Rightarrow> None
                | Some after \<Rightarrow> Some (book\<lparr>Positions := ps, Cash := Some after\<rparr>))))"

section \<open>Warnings\<close>

definition noteUngoverned :: "sayOnce \<Rightarrow> OrderDelta \<Rightarrow> Governance \<Rightarrow> sayOnce" where
  "noteUngoverned w d gov =
     snd (say_first w (''ungoverned:'' @ Governance_String gov @ '':'' @ od_TenantID d @ '':'' @ od_PortfolioID d))"

definition noteUnscoped :: "sayOnce \<Rightarrow> OrderDelta \<Rightarrow> sayOnce" where
  "noteUnscoped w d = snd (say_first w (''unscoped:'' @ od_TenantID d @ '':'' @ od_PortfolioID d))"

definition noteUnreadable :: "sayOnce \<Rightarrow> OrderDelta \<Rightarrow> sayOnce" where
  "noteUnreadable w d = snd (say_first w (''unreadable:'' @ od_TenantID d @ '':'' @ od_PortfolioID d))"

definition noteUnaccounted :: "sayOnce \<Rightarrow> OrderDelta \<Rightarrow> sayOnce" where
  "noteUnaccounted w d = snd (say_first w (''unaccounted:'' @ od_TenantID d @ '':'' @ od_PortfolioID d))"

definition noteUnpriced :: "(string \<Rightarrow> string) \<Rightarrow> sayOnce \<Rightarrow> OrderDelta \<Rightarrow> sayOnce" where
  "noteUnpriced sha256 w d =
     snd (firstAbout sha256 w (''unpriced:'' @ od_TenantID d @ '':'' @ od_PortfolioID d) (od_InstrumentID d))"

definition noteUnvaluable :: "(string \<Rightarrow> string) \<Rightarrow> sayOnce \<Rightarrow> OrderDelta \<Rightarrow> sayOnce" where
  "noteUnvaluable sha256 w d =
     snd (firstAbout sha256 w (''unvaluable:'' @ od_TenantID d @ '':'' @ od_PortfolioID d) (od_InstrumentID d))"

section \<open>The decision\<close>

definition candidate_for :: "PreTradeGate \<Rightarrow> OrderDelta \<Rightarrow> ComplianceBook \<Rightarrow> Candidate" where
  "candidate_for g d proj =
     \<lparr>c_Book = proj, c_Classifier = g_classifier g, c_AsOf = od_AsOf d, ClassifyAsOf = 0,
      c_Order = Some \<lparr>co_InstrumentID = od_InstrumentID d, co_SignedQuantity = od_SignedQuantity d, co_Venue = od_Venue d\<rparr>,
      Margin = (case g_margins g of None \<Rightarrow> None
                | Some src \<Rightarrow> Some (\<lambda>venue. src (od_TenantID d) (od_PortfolioID d) venue))\<rparr>"

definition decide :: "(string \<Rightarrow> string) \<Rightarrow> PreTradeGate \<Rightarrow> OrderDelta \<Rightarrow> (gate_error + Decision) \<times> sayOnce" where
  "decide sha256 g d =
     (let w = g_warned g in
      if \<not> deltaInDomain d then
        (Inr (zero_decision\<lparr>Unvaluable := True\<rparr>), noteUnvaluable sha256 w d)
      else case g_mandates g (od_TenantID d) (od_PortfolioID d) (od_AsOf d) of
        Inl err \<Rightarrow>
          (case err of
             ErrMandateTenantUnresolved \<Rightarrow> (Inr (zero_decision\<lparr>Unscoped := True\<rparr>), noteUnscoped w d)
           | ErrMandateUnreadable cause \<Rightarrow> (Inr (zero_decision\<lparr>Unreadable := True\<rparr>), noteUnreadable w d)
           | _ \<Rightarrow> (Inl (Mandate_read err), w))
      | Inr (mandate, gov) \<Rightarrow>
          if NoMandate gov then
            (Inr (if g_requireMandate g then zero_decision\<lparr>Ungoverned := True\<rparr>
                  else zero_decision\<lparr>Allowed := True, Ungoverned := True\<rparr>), noteUngoverned w d gov)
          else (case mandate of
             None \<Rightarrow> (Inr (zero_decision\<lparr>Allowed := True, Unconstrained := True\<rparr>), w)
           | Some m \<Rightarrow>
               if rules m = [] then (Inr (zero_decision\<lparr>Allowed := True, Unconstrained := True\<rparr>), w)
               else if \<not> IsPositive (od_Price d) then
                 (Inr (zero_decision\<lparr>Unpriced := True\<rparr>), noteUnpriced sha256 w d)
               else (case g_books g (od_PortfolioID d) of
                  Inl err \<Rightarrow> (Inl (Book_read err), w)
                | Inr book \<Rightarrow>
                    if \<not> bookInDomain book then
                      (Inr (zero_decision\<lparr>Unvaluable := True\<rparr>), noteUnvaluable sha256 w d)
                    else (case project book d of
                       None \<Rightarrow> (Inr (zero_decision\<lparr>Unvaluable := True\<rparr>), noteUnvaluable sha256 w d)
                     | Some proj \<Rightarrow>
                         let res = engine_Evaluate (g_engine g) (candidate_for g d proj) m;
                             allowed = (res_status res \<noteq> STATUS_BREACH);
                             unaccounted = (allowed \<and> \<not> Vouched (Completeness book))
                         in (Inr (zero_decision\<lparr>Allowed := allowed, Result := Some res, Unaccounted := unaccounted\<rparr>),
                             if unaccounted then noteUnaccounted w d else w)))))"

section \<open>The decision record\<close>


definition notEvaluatedCode :: "Decision \<Rightarrow> string" where
  "notEvaluatedCode dec =
     (if Unvaluable dec then ''NOTIONAL_UNREPRESENTABLE''
      else if Unscoped dec then ''MANDATE_TENANT_UNRESOLVED''
      else if Unreadable dec then ''MANDATE_UNREADABLE''
      else if Ungoverned dec then ''MANDATE_MISSING''
      else if Unpriced dec then ''PRICE_UNAVAILABLE''
      else if Unconstrained dec then ''MANDATE_HAS_NO_RULES''
      else ''UNCLASSIFIED'')"





section \<open>Equity\<close>

record PortfolioSnapshot =
  snap_portfolio_id :: string
  snap_base_currency :: string
  snap_total_market_value :: "money option"
  snap_cash_balance :: "money option"
  snap_positions :: "Position list"

definition BookFromSnapshot :: "PortfolioSnapshot \<Rightarrow> ComplianceBook" where
  "BookFromSnapshot s =
     \<lparr>PortfolioID = snap_portfolio_id s, BaseCurrency = snap_base_currency s, Risk = None,
      NAV = snap_total_market_value s, nav_basis = NAVBasisGrossPositions, NAVBasisDetail = [],
      Cash = snap_cash_balance s, Completeness = None, Positions = snap_positions s\<rparr>"

text \<open>The equity so far and the marked values so far, position by position; an error is its text.\<close>

fun mark_positions :: "(string \<Rightarrow> rat option) \<Rightarrow> string \<Rightarrow> rat \<Rightarrow> Position list \<Rightarrow> string + (rat \<times> money list)" where
  "mark_positions marks base equity [] = Inr (equity, [])"
| "mark_positions marks base equity (p # ps) =
     (let who = ''position '' @ InstrumentID p; ccy = get_currency_code (MarketValue p) in
      if Quantity p = None then Inl (who @ '' carries no quantity, so it cannot be valued'')
      else if MarketValue p \<noteq> None \<and> get_amount (MarketValue p) \<noteq> None \<and> ccy = [] then
        Inl (who @ '' carries a market value with no currency code, so it cannot be shown to be in the portfolio's ''
          @ base @ '' and must not be summed into equity'')
      else if MarketValue p \<noteq> None \<and> ccy \<noteq> [] \<and> ccy \<noteq> base then
        Inl (who @ '' is held in '' @ ccy @ '', not the portfolio's '' @ base)
      else (case marks (InstrumentID p) of
         None \<Rightarrow> Inl (''no live mark for '' @ InstrumentID p)
       | Some px \<Rightarrow>
          (case FromProtoChecked (Quantity p) of
             None \<Rightarrow> Inl (who @ '' has an out-of-domain quantity'')
           | Some qty \<Rightarrow>
              (case ToProtoScaled (Some (qty * px)) of
                 None \<Rightarrow> Inl (who @ '' is not representable at any exponent'')
               | Some amt \<Rightarrow>
                  (case mark_positions marks base (equity + qty * px) ps of
                     Inl e \<Rightarrow> Inl e
                   | Inr (tot, ms) \<Rightarrow> Inr (tot, \<lparr>amount = Some amt, currency_code = base\<rparr> # ms))))))"

definition equityFromMarks :: "(string \<Rightarrow> string) \<Rightarrow> ComplianceBook \<Rightarrow> (string \<Rightarrow> rat option) \<Rightarrow> string + (rat \<times> money list)" where
  "equityFromMarks quoted b marks =
     (if BaseCurrency b = [] then Inl ''portfolio has no base currency, so nothing can be summed into equity''
      else case Cash b of
        None \<Rightarrow> Inl ''cash is unknown, and equity without cash is a positions total''
      | Some cash \<Rightarrow>
          (case MoneyIn (Some cash) (BaseCurrency b) of
             Inl err \<Rightarrow> Inl (''cash cannot be netted into equity: '' @ currency_error quoted cash (BaseCurrency b))
           | Inr equity \<Rightarrow> mark_positions marks (BaseCurrency b) equity (Positions b)))"

definition MarkEquity :: "(string \<Rightarrow> string) \<Rightarrow> ComplianceBook \<Rightarrow> (string \<Rightarrow> rat option) option \<Rightarrow> ComplianceBook" where
  "MarkEquity quoted b marks =
     (case marks of
        None \<Rightarrow> b
      | Some mark \<Rightarrow>
          (case equityFromMarks quoted b mark of
             Inl err \<Rightarrow> b\<lparr>NAVBasisDetail := err\<rparr>
           | Inr (equity, ms) \<Rightarrow>
              (case ToProtoScaled (Some equity) of
                 None \<Rightarrow> b\<lparr>NAVBasisDetail := ''equity is not representable as a Decimal''\<rparr>
               | Some amt \<Rightarrow>
                   b\<lparr>Positions := map (\<lambda>(p, mv). p\<lparr>MarketValue := Some mv\<rparr>) (zip (Positions b) ms),
                     NAV := Some \<lparr>amount = Some amt, currency_code = BaseCurrency b\<rparr>,
                     nav_basis := NAVBasisEquity, NAVBasisDetail := []\<rparr>)))"

definition JoinEquity ::
  "(string \<Rightarrow> string) \<Rightarrow> ComplianceBook
   \<Rightarrow> (string \<Rightarrow> (decimal option \<times> string \<times> CashCompleteness option) option) option
   \<Rightarrow> (string \<Rightarrow> rat option) option \<Rightarrow> ComplianceBook" where
  "JoinEquity quoted b cash marks =
     (let b = (case cash of
                 None \<Rightarrow> b
               | Some spendable \<Rightarrow>
                   (case spendable (PortfolioID b) of
                      None \<Rightarrow> b
                    | Some (tot, currency, completeness) \<Rightarrow>
                        b\<lparr>Cash := Some \<lparr>amount = tot, currency_code = currency\<rparr>, Completeness := completeness\<rparr>))
      in MarkEquity quoted b marks)"

section \<open>Posture\<close>

record GatePosture =
  posture_Books :: bool
  posture_Mandates :: bool
  posture_Classifier :: bool
  posture_Recorder :: bool
  posture_Margin :: bool

definition posture_Complete :: "GatePosture \<Rightarrow> bool" where
  "posture_Complete p \<longleftrightarrow>
     posture_Books p \<and> posture_Mandates p \<and> posture_Classifier p \<and> posture_Recorder p \<and> posture_Margin p"

section \<open>What the gate admits\<close>

text \<open>
  C7: The gate, over the default rules, admits an order exactly when its decimals are in the supported domain, the
  mandate could be resolved, and either nothing governs the portfolio and a mandate is not required, or the mandate
  has no rules, or the order is priced, the book is in the domain, the projected book exists, and every hard rule of
  the mandate holds of it, where a limit on an issuer, a sector or an asset class fails of every holding that the gate
  has no classifier to resolve. It fails without deciding only when the mandate or the book could not be read.
\<close>

theorem gate_admits_iff:
  assumes "g_engine g = DefaultRegistry quoted"
  shows "case fst (decide sha256 g d) of
      Inr dec \<Rightarrow> Allowed dec \<longleftrightarrow> deltaInDomain d
        \<and> (case g_mandates g (od_TenantID d) (od_PortfolioID d) (od_AsOf d) of
             Inl err \<Rightarrow> False
           | Inr (mandate, gov) \<Rightarrow>
               if NoMandate gov then \<not> g_requireMandate g
               else (case mandate of None \<Rightarrow> True
                 | Some m \<Rightarrow> rules m = []
                   \<or> (IsPositive (od_Price d)
                      \<and> (case g_books g (od_PortfolioID d) of Inl err \<Rightarrow> False
                         | Inr book \<Rightarrow> bookInDomain book
                           \<and> (case project book d of None \<Rightarrow> False
                              | Some proj \<Rightarrow> (\<forall>r\<in>set (rules m).
                                  hard_rule (DefaultRegistry quoted) r \<longrightarrow> rule_ok (candidate_for g d proj) r))))))
    | Inl err \<Rightarrow>
        (\<exists>e. err = Mandate_read e \<and> g_mandates g (od_TenantID d) (od_PortfolioID d) (od_AsOf d) = Inl e)
        \<or> (\<exists>e. err = Book_read e \<and> g_books g (od_PortfolioID d) = Inl e)"
proof -
  have status: "res_status (engine_Evaluate (DefaultRegistry quoted) c m) \<noteq> STATUS_BREACH \<longleftrightarrow>
      (\<forall>r\<in>set (rules m). hard_rule (DefaultRegistry quoted) r \<longrightarrow> rule_ok c r)" for c m
    using default_rules.status_breach_iff [of quoted c m] by blast
  show ?thesis
    by (auto simp: decide_def assms Let_def zero_decision_def status split: sum.splits prod.splits option.splits mandate_error.splits if_splits)
qed
text \<open>A portfolio with 5 in cash, a floor of 0, and an order for 3 units at 2: refused, and admitted at a price of 1.\<close>

definition sample_money :: "int \<Rightarrow> money" where
  "sample_money n = \<lparr>amount = Some \<lparr>coefficient = word_of_int n, exponent = 0\<rparr>, currency_code = ''USD''\<rparr>"

definition sample_book :: ComplianceBook where
  "sample_book = \<lparr>PortfolioID = ''growth'', BaseCurrency = ''USD'', Risk = None, NAV = None, nav_basis = NAVBasisUnspecified,
     NAVBasisDetail = [], Cash = Some (sample_money 5), Completeness = None, Positions = []\<rparr>"

definition sample_rules :: Mandate where
  "sample_rules = \<lparr>mandate_id = ''m'', tenant_id = ''acme'', portfolio_id = ''growth'', mandate_version = 1,
     rules = [\<lparr>rule_id = ''floor'', rule_type = RULE_BUYING_POWER, on_violation = STATUS_UNSPECIFIED,
       rule_params = BuyingPower (Some \<lparr>coefficient = 0, exponent = 0\<rparr>)\<rparr>],
     effective_at = Some \<lparr>ts_seconds = 10, ts_nanos = 0\<rparr>\<rparr>"

definition sample_gate :: PreTradeGate where
  "sample_gate = \<lparr>g_engine = DefaultRegistry (\<lambda>s. s), g_books = (\<lambda>_. Inr sample_book),
     g_mandates = (\<lambda>_ _ _. Inr (Some sample_rules, Governed)), g_margins = None, g_classifier = None,
     g_requireMandate = True, g_warned = empty_sayOnce\<rparr>"

definition sample_delta :: "int \<Rightarrow> OrderDelta" where
  "sample_delta price = \<lparr>od_TenantID = ''acme'', od_PortfolioID = ''growth'', od_InstrumentID = ''BTC'',
     od_SignedQuantity = Some \<lparr>coefficient = 3, exponent = 0\<rparr>, od_Price = Some \<lparr>coefficient = word_of_int price, exponent = 0\<rparr>,
     od_Currency = ''USD'', od_Venue = ''OKX'', od_OrderID = ''o1'', od_Issuer = ''user:ann'', od_AsOf = 62135596900 * 1000000000,
     od_WorkedSlices = 0\<rparr>"

lemmas arithmetic_defs = addDecimal_def mulDecimal_def dec_Add_def dec_Mul_def align_def AlignExponent_def alignWindow_def
  fit.simps IsInt64_def get_coefficient_def get_exponent_def negateDecimal_def Let_def

lemma sample_project:
  "project sample_book (sample_delta 2) = Some (sample_book\<lparr>Positions := [\<lparr>InstrumentID = ''BTC'',
       Quantity = Some \<lparr>coefficient = 3, exponent = 0\<rparr>, MarketValue = Some (sample_money 6)\<rparr>],
     Cash := Some (sample_money (- 1))\<rparr>)"
  by (simp add: project_def project_positions_def project_cash_def position_index_def sample_book_def sample_delta_def
      sample_money_def arithmetic_defs)


theorem gate_admits_iff_witness:
  "case fst (decide (\<lambda>s. s) sample_gate (sample_delta 2)) of Inr dec \<Rightarrow> \<not> Allowed dec | Inl e \<Rightarrow> False"
proof -
  have "\<not> rule_ok (candidate_for sample_gate (sample_delta 2) (sample_book\<lparr>Positions := ps, Cash := Some (sample_money (- 1))\<rparr>))
      \<lparr>rule_id = ''floor'', rule_type = RULE_BUYING_POWER, on_violation = STATUS_UNSPECIFIED,
       rule_params = BuyingPower (Some \<lparr>coefficient = 0, exponent = 0\<rparr>)\<rparr>" for ps
    by (simp add: rule_ok_def candidate_for_def sample_money_def dval_def)
  then show ?thesis
    using gate_admits_iff [of sample_gate "\<lambda>s. s" "sample_delta 2" "\<lambda>s. s"] sample_project
    by (auto simp: sample_gate_def sample_rules_def hard_rule_def NoMandate_def sample_delta_def split: sum.splits)
qed

lemma admitted_under_mandate:
  assumes "g_engine g = DefaultRegistry quoted" and "fst (decide sha256 g d) = Inr dec" and "Allowed dec"
    and "g_mandates g (od_TenantID d) (od_PortfolioID d) (od_AsOf d) = Inr (Some m, Governed)"
  shows "rules m = [] \<or> (\<exists>book proj. g_books g (od_PortfolioID d) = Inr book \<and> project book d = Some proj
    \<and> (\<forall>r\<in>set (rules m). hard_rule (DefaultRegistry quoted) r \<longrightarrow> rule_ok (candidate_for g d proj) r))"
proof -
  have status: "res_status (engine_Evaluate (DefaultRegistry quoted) c m) \<noteq> STATUS_BREACH \<longleftrightarrow>
      (\<forall>r\<in>set (rules m). hard_rule (DefaultRegistry quoted) r \<longrightarrow> rule_ok c r)" for c
    using default_rules.status_breach_iff [of quoted c m] by blast
  show ?thesis using assms
    by (auto simp: decide_def Let_def zero_decision_def NoMandate_def status split: sum.splits option.splits if_splits)
qed

text \<open>
  A gate without a classifier refuses under a sector or issuer limit as soon as the projected book holds anything; the
  comments at its constructor and at its posture say that every such limit passes.
\<close>

lemma no_classifier_refuses:
  assumes "g_engine g = DefaultRegistry quoted" and "g_classifier g = None"
    and "g_mandates g (od_TenantID d) (od_PortfolioID d) (od_AsOf d) = Inr (Some m, Governed)"
    and "r \<in> set (rules m)" and "hard_rule (DefaultRegistry quoted) r"
    and "rule_params r = Concentration cl \<and> classifiedDimension (cl_dimension cl) \<or> (\<exists>xs. rule_params r = IssuerExclusion xs)"
    and "\<And>book proj. g_books g (od_PortfolioID d) = Inr book \<Longrightarrow> project book d = Some proj \<Longrightarrow> holdings proj \<noteq> []"
    and "fst (decide sha256 g d) = Inr dec"
  shows "\<not> Allowed dec"
proof -
  have "\<not> rule_ok (candidate_for g d proj) r" if "holdings proj \<noteq> []" for proj
    using assms(2,6) that bucketKey_unclassified [of "candidate_for g d proj"]
    by (auto simp: rule_ok_def concentration_ok_def dimension_resolved_def candidate_for_def classifiedDimension_def list_all_iff
        neq_Nil_conv)
  then show ?thesis
    using admitted_under_mandate [OF assms(1,8) _ assms(3)] assms(4,5,7) by fastforce
qed

section \<open>The projected book\<close>

lemma position_index_Some:
  "position_index ps i = Some n \<Longrightarrow> n < length ps \<and> InstrumentID (ps ! n) = i \<and> (\<forall>k<n. InstrumentID (ps ! k) \<noteq> i)"
  by (auto simp: position_index_def find_Some_iff)

lemma position_index_None: "position_index ps i = None \<Longrightarrow> \<forall>p\<in>set ps. InstrumentID p \<noteq> i"
  by (auto simp: position_index_def find_None_iff in_set_conv_nth)

text \<open>The quantity a book holds in an instrument: of the first position that names it.\<close>

definition quantity_held :: "ComplianceBook \<Rightarrow> string \<Rightarrow> rat" where
  "quantity_held b i = (case find (\<lambda>p. InstrumentID p = i) (Positions b) of None \<Rightarrow> 0 | Some p \<Rightarrow> dvalue (Quantity p))"

lemma find_position:
  "find (\<lambda>p. InstrumentID p = i) ps = (case position_index ps i of None \<Rightarrow> None | Some n \<Rightarrow> Some (ps ! n))"
proof (cases "position_index ps i")
  case None
  then show ?thesis using position_index_None [OF None] by (simp add: find_None_iff)
next
  case (Some n)
  then show ?thesis using position_index_Some [OF Some] by (auto simp: find_Some_iff)
qed

lemma project_positions_sound:
  assumes "project_positions ps d = Some ps'"
  shows "\<exists>q v. find (\<lambda>p. InstrumentID p = od_InstrumentID d) ps' = Some \<lparr>InstrumentID = od_InstrumentID d, Quantity = Some q,
      MarketValue = Some \<lparr>amount = Some v, currency_code = od_Currency d\<rparr>\<rparr>
    \<and> dec_Add (case find (\<lambda>p. InstrumentID p = od_InstrumentID d) ps of None \<Rightarrow> None | Some p \<Rightarrow> Quantity p) (od_SignedQuantity d) = Some q
    \<and> dec_Mul (Some q) (od_Price d) = Some v
    \<and> filter (\<lambda>p. InstrumentID p \<noteq> od_InstrumentID d) ps' = filter (\<lambda>p. InstrumentID p \<noteq> od_InstrumentID d) ps"
proof -
  let ?i = "od_InstrumentID d"
  obtain q v where q: "dec_Add (case find (\<lambda>p. InstrumentID p = ?i) ps of None \<Rightarrow> None | Some p \<Rightarrow> Quantity p) (od_SignedQuantity d) = Some q"
    and v: "dec_Mul (Some q) (od_Price d) = Some v"
    and ps': "ps' = (let pos = \<lparr>InstrumentID = ?i, Quantity = Some q, MarketValue = Some \<lparr>amount = Some v, currency_code = od_Currency d\<rparr>\<rparr>
        in case position_index ps ?i of None \<Rightarrow> ps @ [pos] | Some n \<Rightarrow> ps[n := pos])"
    using assms by (auto simp: project_positions_def find_position addDecimal_def mulDecimal_def Let_def split: option.splits)
  let ?pos = "\<lparr>InstrumentID = ?i, Quantity = Some q, MarketValue = Some \<lparr>amount = Some v, currency_code = od_Currency d\<rparr>\<rparr>"
  have "find (\<lambda>p. InstrumentID p = ?i) ps' = Some ?pos
      \<and> filter (\<lambda>p. InstrumentID p \<noteq> ?i) ps' = filter (\<lambda>p. InstrumentID p \<noteq> ?i) ps"
  proof (cases "position_index ps ?i")
    case None
    then show ?thesis using position_index_None [OF None]
      by (auto simp: ps' find_Some_iff nth_append intro!: exI [of _ "length ps"])
  next
    case (Some n)
    note n = position_index_Some [OF Some]
    have split: "ps = take n ps @ ps ! n # drop (Suc n) ps" using n by (simp add: id_take_nth_drop)
    have upd: "ps' = take n ps @ ?pos # drop (Suc n) ps" using n by (simp add: ps' Some upd_conv_take_nth_drop)
    have "filter (\<lambda>p. InstrumentID p \<noteq> ?i) ps' = filter (\<lambda>p. InstrumentID p \<noteq> ?i) (take n ps @ ps ! n # drop (Suc n) ps)"
      using n by (simp add: upd)
    moreover have "find (\<lambda>p. InstrumentID p = ?i) ps' = Some ?pos"
      unfolding find_Some_iff using n by (intro exI [of _ n]) (auto simp: ps' Some nth_list_update)
    ultimately show ?thesis using split by simp
  qed
  then show ?thesis using q v by blast
qed

lemma negateDecimal_value:
  assumes "sint (coefficient x) \<noteq> MinInt64"
  shows "dvalue (negateDecimal (Some x)) = - dval x"
proof -
  have "sint (- coefficient x) = - sint (coefficient x)"
    using assms sint_i64_ge [of "coefficient x"] sint_i64_le [of "coefficient x"]
    by (simp add: sint_word_ariths(4) signed_take_bit_int_eq_self)
  then show ?thesis using assms by (simp add: negateDecimal_def dval_def)
qed

text \<open>
  C33: The projected book is the book after the trade. The instrument's first position becomes the old quantity plus
  the signed order quantity, valued at the order price, each within one unit of its last place; every other holding,
  the net asset value and its basis are as before; and known cash moves by minus quantity times price, within one unit
  in the last place of the proceeds and of the new balance, unless the proceeds are the one \<open>int64\<close> without a negation.
\<close>

theorem project_after_trade:
  assumes "project book d = Some proj"
  shows "\<exists>q v. find (\<lambda>p. InstrumentID p = od_InstrumentID d) (Positions proj) =
        Some \<lparr>InstrumentID = od_InstrumentID d, Quantity = Some q, MarketValue = Some \<lparr>amount = Some v, currency_code = od_Currency d\<rparr>\<rparr>
      \<and> \<bar>dval q - (quantity_held book (od_InstrumentID d) + dvalue (od_SignedQuantity d))\<bar> \<le> 10 powi sint (exponent q)
      \<and> \<bar>dval v - dval q * dvalue (od_Price d)\<bar> \<le> 10 powi sint (exponent v)
      \<and> filter (\<lambda>p. InstrumentID p \<noteq> od_InstrumentID d) (Positions proj) = filter (\<lambda>p. InstrumentID p \<noteq> od_InstrumentID d) (Positions book)
      \<and> NAV proj = NAV book \<and> nav_basis proj = nav_basis book \<and> Completeness proj = Completeness book
      \<and> (case Cash book of None \<Rightarrow> Cash proj = None
         | Some cash \<Rightarrow> (\<exists>spend after. Cash proj = Some \<lparr>amount = Some after, currency_code = currency_code cash\<rparr>
             \<and> \<bar>dval spend - dvalue (od_SignedQuantity d) * dvalue (od_Price d)\<bar> \<le> 10 powi sint (exponent spend)
             \<and> (sint (coefficient spend) = MinInt64
                \<or> \<bar>dval after - (dvalue (amount cash) - dval spend)\<bar> \<le> 10 powi sint (exponent after))))"
proof -
  obtain ps where ps: "project_positions (Positions book) d = Some ps"
    and frame: "Positions proj = ps" "NAV proj = NAV book" "nav_basis proj = nav_basis book" "Completeness proj = Completeness book"
    using assms by (auto simp: project_def split: option.splits)
  obtain q v where pos: "find (\<lambda>p. InstrumentID p = od_InstrumentID d) ps = Some \<lparr>InstrumentID = od_InstrumentID d, Quantity = Some q,
      MarketValue = Some \<lparr>amount = Some v, currency_code = od_Currency d\<rparr>\<rparr>"
    and q: "dec_Add (case find (\<lambda>p. InstrumentID p = od_InstrumentID d) (Positions book) of None \<Rightarrow> None | Some p \<Rightarrow> Quantity p)
        (od_SignedQuantity d) = Some q"
    and v: "dec_Mul (Some q) (od_Price d) = Some v"
    and others: "filter (\<lambda>p. InstrumentID p \<noteq> od_InstrumentID d) ps = filter (\<lambda>p. InstrumentID p \<noteq> od_InstrumentID d) (Positions book)"
    using project_positions_sound [OF ps] by blast
  have old: "dvalue (case find (\<lambda>p. InstrumentID p = od_InstrumentID d) (Positions book) of None \<Rightarrow> None | Some p \<Rightarrow> Quantity p)
      = quantity_held book (od_InstrumentID d)"
    by (simp add: quantity_held_def split: option.split)
  have half: "5 / 9 * x \<le> (x :: rat)" if "0 \<le> x" for x using that by simp
  have ulp: "(0 :: rat) \<le> 10 powi n" for n by simp
  have vb: "\<bar>dval v - dval q * dvalue (od_Price d)\<bar> \<le> 10 powi sint (exponent v)"
    using order_trans [OF dec_Mul_sound(1) [OF v] half [OF ulp]] by simp
  have "case Cash book of None \<Rightarrow> Cash proj = None
      | Some cash \<Rightarrow> (\<exists>spend after. Cash proj = Some \<lparr>amount = Some after, currency_code = currency_code cash\<rparr>
          \<and> \<bar>dval spend - dvalue (od_SignedQuantity d) * dvalue (od_Price d)\<bar> \<le> 10 powi sint (exponent spend)
          \<and> (sint (coefficient spend) = MinInt64
             \<or> \<bar>dval after - (dvalue (amount cash) - dval spend)\<bar> \<le> 10 powi sint (exponent after)))"
  proof (cases "Cash book")
    case None
    then show ?thesis using assms by (auto simp: project_def split: option.splits)
  next
    case (Some cash)
    then obtain spend after where s: "dec_Mul (od_SignedQuantity d) (od_Price d) = Some spend"
      and a: "dec_Add (amount cash) (negateDecimal (Some spend)) = Some after"
      and c: "Cash proj = Some \<lparr>amount = Some after, currency_code = currency_code cash\<rparr>"
      using assms by (auto simp: project_def project_cash_def addDecimal_def mulDecimal_def split: option.splits)
    have "\<bar>dval spend - dvalue (od_SignedQuantity d) * dvalue (od_Price d)\<bar> \<le> 10 powi sint (exponent spend)"
      by (rule order_trans [OF dec_Mul_sound(1) [OF s] half [OF ulp]])
    moreover have "\<bar>dval after - (dvalue (amount cash) - dval spend)\<bar> \<le> 10 powi sint (exponent after)"
      if "sint (coefficient spend) \<noteq> MinInt64"
      using dec_Add_sound [OF a] negateDecimal_value [OF that] by simp
    ultimately show ?thesis using Some c by auto
  qed
  then show ?thesis using pos dec_Add_sound [OF q] vb others frame by (auto simp: old)
qed

theorem project_after_trade_witness:
  "\<exists>q. find (\<lambda>p. InstrumentID p = ''BTC'')
      (Positions (sample_book\<lparr>Positions := [\<lparr>InstrumentID = ''BTC'', Quantity = Some \<lparr>coefficient = 3, exponent = 0\<rparr>,
         MarketValue = Some (sample_money 6)\<rparr>], Cash := Some (sample_money (- 1))\<rparr>)) = Some q"
  using project_after_trade [OF sample_project] by (auto simp: sample_delta_def)

text \<open>
  The comment on \<open>negateDecimal\<close> says the smallest coefficient is refused; it is returned and used, so a sale with
  those proceeds lowers the projected cash by its proceeds.
\<close>

lemma negate_smallest_keeps_sign:
  "negateDecimal (Some \<lparr>coefficient = word_of_int MinInt64, exponent = 0\<rparr>) = Some \<lparr>coefficient = word_of_int MinInt64, exponent = 0\<rparr>
   \<and> mulDecimal (Some \<lparr>coefficient = word_of_int MinInt64, exponent = 0\<rparr>) (Some \<lparr>coefficient = 1, exponent = 0\<rparr>)
      = Some \<lparr>coefficient = word_of_int MinInt64, exponent = 0\<rparr>"
  by (simp add: arithmetic_defs)

text \<open>
  \<open>bookInDomain\<close> is documented to check every decimal of a loaded book; it does not look at the cash balance.
\<close>

lemma bookInDomain_ignores_cash:
  "bookInDomain (sample_book\<lparr>Cash := Some \<lparr>amount = Some \<lparr>coefficient = 1, exponent = 2000000000\<rparr>, currency_code = ''USD''\<rparr>\<rparr>)"
  by (simp add: bookInDomain_def sample_book_def)

section \<open>Every decision is on record\<close>

lemma engine_status:
  "res_status (engine_Evaluate registry c m) \<in> {STATUS_PASS, STATUS_WARN, STATUS_BREACH}"
proof -
  have "foldl worst s ss \<in> {STATUS_PASS, STATUS_WARN, STATUS_BREACH}" if "s \<in> {STATUS_PASS, STATUS_WARN, STATUS_BREACH}" for s ss
    using that
  proof (induction ss arbitrary: s)
    case (Cons t ss)
    have "worst s t \<in> {STATUS_PASS, STATUS_WARN, STATUS_BREACH}" using Cons.prems by (cases t) (auto simp: worst_def)
    then show ?case using Cons.IH by simp
  qed simp
  then show ?thesis using evaluate_fold [of registry c _ "rules m"] by (simp add: engine_Evaluate_def Let_def)
qed

text \<open>The decisions \<open>decide\<close> can return: a short circuit with one reason, or a verdict of the engine.\<close>

lemma decide_cases:
  assumes "fst (decide sha256 g d) = Inr dec"
  shows "dec \<in> {zero_decision\<lparr>Unvaluable := True\<rparr>, zero_decision\<lparr>Unscoped := True\<rparr>, zero_decision\<lparr>Unreadable := True\<rparr>,
        zero_decision\<lparr>Ungoverned := True\<rparr>, zero_decision\<lparr>Unpriced := True\<rparr>,
        zero_decision\<lparr>Allowed := True, Unconstrained := True\<rparr>}
    \<or> (dec = zero_decision\<lparr>Allowed := True, Ungoverned := True\<rparr> \<and> \<not> g_requireMandate g)
    \<or> (\<exists>c m u. dec = zero_decision\<lparr>Allowed := res_status (engine_Evaluate (g_engine g) c m) \<noteq> STATUS_BREACH,
        Result := Some (engine_Evaluate (g_engine g) c m), Unaccounted := u\<rparr>)"
  using assms unfolding decide_def Let_def
  by (simp split: sum.splits prod.splits option.splits mandate_error.splits if_splits) blast+

lemma decide_shape:
  assumes "fst (decide sha256 g d) = Inr dec"
  shows "(\<exists>res. Result dec = Some res \<and> res_status res \<in> {STATUS_PASS, STATUS_WARN, STATUS_BREACH}
            \<and> (Allowed dec \<longleftrightarrow> res_status res \<noteq> STATUS_BREACH))
     \<or> (Result dec = None \<and> notEvaluatedCode dec \<noteq> ''UNCLASSIFIED''
          \<and> (Allowed dec \<longrightarrow> Ungoverned dec \<and> \<not> g_requireMandate g \<or> notEvaluatedCode dec = ''MANDATE_HAS_NO_RULES''))"
  using decide_cases [OF assms]
proof (elim disjE exE)
  fix c m u
  assume "dec = zero_decision\<lparr>Allowed := res_status (engine_Evaluate (g_engine g) c m) \<noteq> STATUS_BREACH,
        Result := Some (engine_Evaluate (g_engine g) c m), Unaccounted := u\<rparr>"
  then show ?thesis using engine_status [of "g_engine g" c m] by (intro disjI1) simp
qed (auto simp: zero_decision_def notEvaluatedCode_def)




section \<open>Equity from live marks\<close>

text \<open>What marking values a position at: its exact quantity at its mark.\<close>

definition marked_value :: "(string \<Rightarrow> rat option) \<Rightarrow> Position \<Rightarrow> rat" where
  "marked_value marks p = dvalue (Quantity p) * (case marks (InstrumentID p) of None \<Rightarrow> 0 | Some px \<Rightarrow> px)"

lemma FromProtoChecked_value: "FromProtoChecked d = Some q \<Longrightarrow> q = dvalue d"
  using FromProto_dvalue [of d] InDomain_exponent [of d] by (auto simp: FromProtoChecked_def split: if_splits)

lemma list_all2_zip_map:
  "list_all2 P xs ys \<Longrightarrow> (\<And>x y. P x y \<Longrightarrow> Q x (f x y)) \<Longrightarrow> list_all2 Q xs (map (\<lambda>(x, y). f x y) (zip xs ys))"
  by (induction rule: list_all2_induct) auto

lemma mark_positions_sound:
  assumes "mark_positions marks base equity ps = Inr (tot, ms)"
  shows "length ms = length ps \<and> tot = equity + sum_list (map (marked_value marks) ps)
    \<and> list_all2 (\<lambda>p mv. Quantity p \<noteq> None \<and> marks (InstrumentID p) \<noteq> None \<and> currency_code mv = base
        \<and> (case amount mv of None \<Rightarrow> False
           | Some x \<Rightarrow> \<bar>dval x - marked_value marks p\<bar> \<le> 5 / 9 * 10 powi sint (exponent x))) ps ms"
  using assms
proof (induction marks base equity ps arbitrary: tot ms rule: mark_positions.induct)
  case (2 marks base equity p ps)
  obtain px qty amt tot' ms' where mark: "marks (InstrumentID p) = Some px" and qty: "FromProtoChecked (Quantity p) = Some qty"
    and amt: "ToProtoScaled (Some (qty * px)) = Some amt"
    and rest: "mark_positions marks base (equity + qty * px) ps = Inr (tot', ms')"
    and res: "tot = tot'" "ms = \<lparr>amount = Some amt, currency_code = base\<rparr> # ms'" and some: "Quantity p \<noteq> None"
    using 2(2) by (auto simp: Let_def split: option.splits if_splits sum.splits)
  have IH: "length ms' = length ps \<and> tot' = equity + qty * px + sum_list (map (marked_value marks) ps)
    \<and> list_all2 (\<lambda>p mv. Quantity p \<noteq> None \<and> marks (InstrumentID p) \<noteq> None \<and> currency_code mv = base
        \<and> (case amount mv of None \<Rightarrow> False
           | Some x \<Rightarrow> \<bar>dval x - marked_value marks p\<bar> \<le> 5 / 9 * 10 powi sint (exponent x))) ps ms'"
    using 2(2) mark qty amt rest some by (intro 2(1)) (auto simp: Let_def split: if_splits)
  have "qty * px = marked_value marks p" using FromProtoChecked_value [OF qty] mark by (simp add: marked_value_def)
  then show ?case using IH ToProtoScaled_sound [OF amt] mark some by (simp add: res add.assoc)
qed simp

text \<open>
  Equity is cash plus every holding at its live mark, or it is not claimed. After joining marks, either nothing of
  the book has changed but the note saying why, or the book claims equity: then the cash is known and in the base
  currency, every position has a quantity and a live mark, the positions are the same ones with market values in the
  base currency at quantity times mark, and the net asset value is their signed sum plus the cash, each rounded by
  less than one unit in its last place.
\<close>

theorem equity_is_cash_plus_marks:
  assumes "get_exponent (get_amount (Cash b)) \<noteq> MinInt32"
  shows "(\<exists>note. MarkEquity quoted b (Some marks) = b\<lparr>NAVBasisDetail := note\<rparr>)
    \<or> (let b' = MarkEquity quoted b (Some marks) in
        nav_basis b' = NAVBasisEquity \<and> Cash b' = Cash b \<and> Cash b \<noteq> None
        \<and> (dvalue (get_amount (Cash b)) = 0 \<or> get_currency_code (Cash b) = BaseCurrency b)
        \<and> (\<exists>nav. NAV b' = Some \<lparr>amount = Some nav, currency_code = BaseCurrency b\<rparr>
             \<and> \<bar>dval nav - (dvalue (get_amount (Cash b)) + sum_list (map (marked_value marks) (Positions b)))\<bar>
                 \<le> 5 / 9 * 10 powi sint (exponent nav))
        \<and> list_all2 (\<lambda>p p'. InstrumentID p' = InstrumentID p \<and> Quantity p' = Quantity p \<and> Quantity p \<noteq> None
             \<and> marks (InstrumentID p) \<noteq> None \<and> get_currency_code (MarketValue p') = BaseCurrency b
             \<and> (case get_amount (MarketValue p') of None \<Rightarrow> False
                | Some x \<Rightarrow> \<bar>dval x - marked_value marks p\<bar> \<le> 5 / 9 * 10 powi sint (exponent x)))
           (Positions b) (Positions b'))"
proof (cases "equityFromMarks quoted b marks")
  case (Inl e)
  then show ?thesis by (auto simp: MarkEquity_def)
next
  case (Inr r)
  obtain tot ms where r: "r = (tot, ms)" by (cases r)
  show ?thesis
  proof (cases "ToProtoScaled (Some tot)")
    case None
    then show ?thesis using Inr r by (auto simp: MarkEquity_def)
  next
    case (Some nav)
    obtain cash equity where cash: "Cash b = Some cash" and eq: "MoneyIn (Some cash) (BaseCurrency b) = Inr equity"
      and mp: "mark_positions marks (BaseCurrency b) equity (Positions b) = Inr (tot, ms)"
      using Inr r by (auto simp: equityFromMarks_def split: option.splits sum.splits if_splits)
    have equity: "equity = dvalue (amount cash)" and ccy: "dvalue (amount cash) = 0 \<or> currency_code cash = BaseCurrency b"
      using eq FromProto_dvalue [of "amount cash"] assms cash
      by (auto simp: MoneyIn_def Let_def get_amount_def sgn_eq_0_iff split: if_splits)
    note sound = mark_positions_sound [OF mp]
    let ?ps = "map (\<lambda>(p, mv). p\<lparr>MarketValue := Some mv\<rparr>) (zip (Positions b) ms)"
    have l2: "list_all2 (\<lambda>p p'. InstrumentID p' = InstrumentID p \<and> Quantity p' = Quantity p \<and> Quantity p \<noteq> None
        \<and> marks (InstrumentID p) \<noteq> None \<and> get_currency_code (MarketValue p') = BaseCurrency b
        \<and> (case get_amount (MarketValue p') of None \<Rightarrow> False
           | Some x \<Rightarrow> \<bar>dval x - marked_value marks p\<bar> \<le> 5 / 9 * 10 powi sint (exponent x))) (Positions b) ?ps"
      using sound [THEN conjunct2, THEN conjunct2]
      by (rule list_all2_zip_map) (simp add: get_currency_code_def get_amount_def)
    have me: "MarkEquity quoted b (Some marks) = b\<lparr>Positions := ?ps,
        NAV := Some \<lparr>amount = Some nav, currency_code = BaseCurrency b\<rparr>, nav_basis := NAVBasisEquity, NAVBasisDetail := []\<rparr>"
      using Inr r Some by (simp add: MarkEquity_def)
    have nav: "\<bar>dval nav - (dvalue (get_amount (Cash b)) + sum_list (map (marked_value marks) (Positions b)))\<bar>
        \<le> 5 / 9 * 10 powi sint (exponent nav)"
      using ToProtoScaled_sound [OF Some] sound by (simp only: equity cash get_amount_def option.case)
    have "Cash b \<noteq> None" "dvalue (get_amount (Cash b)) = 0 \<or> get_currency_code (Cash b) = BaseCurrency b"
      using ccy by (simp_all add: cash get_amount_def get_currency_code_def)
    moreover have fields: "nav_basis (MarkEquity quoted b (Some marks)) = NAVBasisEquity" "Cash (MarkEquity quoted b (Some marks)) = Cash b"
      "NAV (MarkEquity quoted b (Some marks)) = Some \<lparr>amount = Some nav, currency_code = BaseCurrency b\<rparr>"
      "Positions (MarkEquity quoted b (Some marks)) = ?ps"
      by (simp_all add: me)
    ultimately show ?thesis unfolding Let_def fields using l2 nav by - (rule disjI2, intro conjI exI [of _ nav] refl)
  qed
qed

theorem equity_is_cash_plus_marks_witness:
  "let b' = MarkEquity (\<lambda>s. s) sample_book (Some (\<lambda>_. None)) in
     nav_basis b' = NAVBasisEquity \<or> b' = sample_book\<lparr>NAVBasisDetail := NAVBasisDetail b'\<rparr>"
proof -
  have "get_exponent (get_amount (Cash sample_book)) \<noteq> MinInt32"
    by (simp add: sample_book_def sample_money_def get_amount_def get_exponent_def)
  from equity_is_cash_plus_marks [OF this, of "\<lambda>s. s" "\<lambda>_. None"] show ?thesis by (auto simp: Let_def)
qed

section \<open>The gate over the registry\<close>

lemma refused_without_mandate:
  assumes "g_mandates g (od_TenantID d) (od_PortfolioID d) (od_AsOf d) = Inr (mo, gov)" and "NoMandate gov"
    and "g_requireMandate g" and "fst (decide sha256 g d) = Inr dec"
  shows "\<not> Allowed dec"
  using assms by (auto simp: decide_def Let_def zero_decision_def split: if_splits)

text \<open>
  C1: Admission under the mandate in force, end to end. Take a registry filled by a history of publications, filed
  with a clock that does not run backwards, in which no republication of a version re-dates the mandate then in force
  for the order's portfolio out of force or behind its place, and an order of a customer tenant at or after the last publication.
  If the gate admits the order, then either some published mandate of exactly that tenant and portfolio is in force at
  the order's instant by the whole history, and it has no rules or all its hard rules hold of the book projected
  through the order; or none is in force, and the gate does not require a mandate.
\<close>

theorem admitted_order_obeys_mandate_in_force:
  assumes "sorted (map fst es)" and "undisturbed (od_TenantID d, od_PortfolioID d) {} es"
    and "\<forall>e\<in>set es. fst e \<le> od_AsOf d" and "od_AsOf d \<noteq> 0" and "od_TenantID d \<noteq> []" and "od_TenantID d \<noteq> SystemTenant"
    and "g_mandates g = (\<lambda>tenant portfolio t. fst (registry_Mandate (registry_of es) tenant portfolio t))"
    and "g_engine g = DefaultRegistry quoted"
    and "fst (decide sha256 g d) = Inr dec" and "Allowed dec"
  shows "(\<exists>m. in_force (published (od_TenantID d, od_PortfolioID d) es) (od_AsOf d) m
      \<and> (rules m = [] \<or> (\<exists>book proj. g_books g (od_PortfolioID d) = Inr book \<and> project book d = Some proj
          \<and> (\<forall>r\<in>set (rules m). hard_rule (DefaultRegistry quoted) r \<longrightarrow> rule_ok (candidate_for g d proj) r))))
    \<or> (\<forall>m. \<not> in_force (published (od_TenantID d, od_PortfolioID d) es) (od_AsOf d) m) \<and> \<not> g_requireMandate g"
  using assms(1-6)
proof (cases rule: registry_lookup)
  case (governed m)
  then show ?thesis
    using admitted_under_mandate [OF assms(8,9,10), of m] assms(7) by auto
next
  case lapsed
  then show ?thesis
    using refused_without_mandate [of g d None MandateLapsed sha256 dec] assms by (auto simp: NoMandate_def)
next
  case never
  then show ?thesis
    using refused_without_mandate [of g d None NeverMandated sha256 dec] assms by (auto simp: NoMandate_def in_force_def)
qed

definition registry_gate :: PreTradeGate where
  "registry_gate = sample_gate\<lparr>g_mandates := (\<lambda>tenant portfolio t.
     fst (registry_Mandate (registry_of [(62135596900 * 1000000000, Some sample_rules)]) tenant portfolio t))\<rparr>"

lemma registry_gate_lookup:
  "fst (registry_Mandate (registry_of [(62135596900000000000, Some sample_rules)]) ''acme'' ''growth'' 62135596900000000000)
     = Inr (Some sample_rules, Governed)"
  by (simp add: registry_of_def next_state_def Put_def NewMandateRegistry_def put_version_def retainSelectable_def
      registry_Mandate_def resolve_versions_def TenantsGoverning_def sortedTenants_def SystemTenant_def select_version_def
      effective_def AsTime_def unixToInternal_def sample_rules_def Let_def)

lemma registry_gate_admits:
  "case fst (decide (\<lambda>s. s) registry_gate (sample_delta 1)) of Inr dec \<Rightarrow> Allowed dec | Inl e \<Rightarrow> False"
  by (simp add: decide_def deltaInDomain_def decimalInDomain_def bookInDomain_def registry_gate_def sample_gate_def NoMandate_def
      IsPositive_def sign_def engine_Evaluate_def evaluate_step_def evaluate_rule_def DefaultRegistry_cases BuyingPowerRule_def
      candidate_for_def sample_money_def dval_def zero_decision_def sample_delta_def sample_book_def registry_gate_lookup
      project_def project_positions_def project_cash_def position_index_def arithmetic_defs)
    (simp add: sample_rules_def BuyingPowerRule_def dval_def maxDecimalExponent_def evaluate_step_def evaluate_rule_def DefaultRegistry_cases sign_def)

theorem admitted_order_obeys_mandate_in_force_witness:
  "\<exists>m. in_force (published (''acme'', ''growth'') [(62135596900 * 1000000000, Some sample_rules)]) (62135596900 * 1000000000) m"
proof -
  obtain dec where dec: "fst (decide (\<lambda>s. s) registry_gate (sample_delta 1)) = Inr dec" "Allowed dec"
    using registry_gate_admits by (auto split: sum.splits)
  have d: "od_TenantID (sample_delta 1) = ''acme''" "od_PortfolioID (sample_delta 1) = ''growth''"
    "od_AsOf (sample_delta 1) = 62135596900 * 1000000000" by (simp_all add: sample_delta_def)
  let ?es = "[(62135596900 * 1000000000, Some sample_rules)] :: put_event list"
  have g: "g_mandates registry_gate = (\<lambda>tenant portfolio t. fst (registry_Mandate (registry_of ?es) tenant portfolio t))"
    "g_engine registry_gate = DefaultRegistry (\<lambda>s. s)" by (simp_all add: registry_gate_def sample_gate_def)
  have req: "g_requireMandate registry_gate" by (simp add: registry_gate_def sample_gate_def)
  have "undisturbed (''acme'', ''growth'') {} ?es" by (simp add: withdraws_def)
  from admitted_order_obeys_mandate_in_force [of ?es "sample_delta 1", OF _ _ _ _ _ _ g dec]
  show ?thesis using req \<open>undisturbed (''acme'', ''growth'') {} ?es\<close> unfolding d by (auto simp: SystemTenant_def)
qed

end
