(* ===== verification/Execution_Algo.thy ===== *)
theory Execution_Algo
  imports Go_Lib
begin

text \<open>
  The execution algorithms \<open>internal/execution/algo\<close>: a parent order as a schedule of child orders
  (\<open>twap.go\<close>, \<open>vwap.go\<close>, \<open>pov.go\<close>, \<open>volume.go\<close>) and the registry that selects one (\<open>algo.go\<close>).

  \<^item> The slice count is Go's 64-bit \<open>int\<close>; \<open>time.Time.Sub\<close> saturates at the range of a \<open>Duration\<close>, and a slice
    boundary is computed by \<open>bits.Mul64\<close> and \<open>bits.Div64\<close>, whose panic is the error \<open>Div64_panics\<close>.
  \<^item> \<open>*big.Rat\<close> quantities are rationals and nil is \<^const>\<open>None\<close>. An answer of a market view is \<^const>\<open>None\<close> when
    it is not known; a known answer may still be a nil quantity.
  \<^item> An error carries the values its text shows.
\<close>

section \<open>Plans\<close>

record Plan =
  Algo :: string
  plan_InstrumentID :: string
  Total :: "rat option"
  Start :: instant
  End :: instant
  Slices :: i64
  MaxSlice :: "rat option"
  MaxParticipation :: "rat option"

record Slice =
  sl_Index :: int
  sl_Due :: instant
  sl_Quantity :: rat

datatype algo_error =
    ErrEmptyQuantity
  | ErrEmptyWindow instant instant
  | ErrNoSlices
  | ErrCapUnsatisfiable_even i64 rat rat int
  | ErrCapUnsatisfiable_slice int i64 rat rat rat rat
  | ErrUnknownAlgo string "string list"
  | ErrNoInstrument
  | ErrVolumeUnknown string instant instant int i64
  | ErrNoVolumeInBucket string instant instant int i64
  | ErrNoParticipationCap "rat option"
  | ErrParticipationCapExceeded_window rat rat rat rat rat
  | ErrParticipationCapExceeded_slice int rat rat rat rat
  | Div64_panics

definition MaxDuration :: int where
  "MaxDuration = 9223372036854775807"

definition time_Sub :: "instant \<Rightarrow> instant \<Rightarrow> duration" where
  "time_Sub t u = max (- MaxDuration - 1) (min MaxDuration (t - u))"

definition Mul64 :: "64 word \<Rightarrow> 64 word \<Rightarrow> 64 word \<times> 64 word" where
  "Mul64 x y = (word_of_int (uint x * uint y div 2 ^ 64), x * y)"

definition Div64 :: "64 word \<Rightarrow> 64 word \<Rightarrow> 64 word \<Rightarrow> (64 word \<times> 64 word) option" where
  "Div64 hi lo y =
     (if y = 0 \<or> y \<le> hi then None
      else let n = uint hi * 2 ^ 64 + uint lo
           in Some (word_of_int (n div uint y), word_of_int (n mod uint y)))"

definition plan_validate :: "Plan \<Rightarrow> algo_error option" where
  "plan_validate p =
     (if case Total p of None \<Rightarrow> True | Some q \<Rightarrow> q \<le> 0 then Some ErrEmptyQuantity
      else if sint (Slices p) \<le> 0 then Some ErrNoSlices
      else if \<not> End p > Start p then Some (ErrEmptyWindow (Start p) (End p))
      else None)"

text \<open>The instant slice \<open>i\<close> starts; \<^const>\<open>None\<close> is the panic of \<open>Div64\<close>.\<close>

definition boundary :: "Plan \<Rightarrow> int \<Rightarrow> instant option" where
  "boundary p i =
     (let span = time_Sub (End p) (Start p);
          (hi, lo) = Mul64 (word_of_int span) (word_of_int i)
      in case Div64 hi lo (Slices p) of
           None \<Rightarrow> None
         | Some (q, _) \<Rightarrow> Some (Start p + sint q))"

definition Interval :: "Plan \<Rightarrow> int \<Rightarrow> (instant \<times> instant) option" where
  "Interval p i =
     (if sint (Slices p) \<le> 0 \<or> i < 0 \<or> i \<ge> sint (Slices p) \<or> \<not> End p > Start p then None
      else case (boundary p i, boundary p (i + 1)) of
        (Some from, Some to) \<Rightarrow> Some (from, to)
      | _ \<Rightarrow> None)"

text \<open>\<open>range p.Slices\<close>.\<close>

definition slice_range :: "Plan \<Rightarrow> int list" where
  "slice_range p = map int [0..<nat (sint (Slices p))]"

definition ceilRat :: "rat \<Rightarrow> int" where
  "ceilRat r =
     (let (n, d) = quotient_of r; q = n sdiv d
      in sint (word_of_int (if q * d \<noteq> n then q + 1 else q) :: i64))"

definition exceeds_cap :: "Plan \<Rightarrow> rat \<Rightarrow> bool" where
  "exceeds_cap p q \<longleftrightarrow> (case MaxSlice p of None \<Rightarrow> False | Some cap \<Rightarrow> cap > 0 \<and> q > cap)"

text \<open>One slice per index of the plan, sized by a function of the index; the first panic ends it.\<close>

fun place_slices :: "Plan \<Rightarrow> (int \<Rightarrow> algo_error + rat) \<Rightarrow> int list \<Rightarrow> algo_error + Slice list" where
  "place_slices p qty_of [] = Inr []"
| "place_slices p qty_of (i # is) =
     (case qty_of i of
        Inl e \<Rightarrow> Inl e
      | Inr q \<Rightarrow>
          (case boundary p i of
             None \<Rightarrow> Inl Div64_panics
           | Some due \<Rightarrow>
               (case place_slices p qty_of is of
                  Inl e \<Rightarrow> Inl e
                | Inr ss \<Rightarrow> Inr (\<lparr>sl_Index = i, sl_Due = due, sl_Quantity = q\<rparr> # ss))))"

section \<open>TWAP\<close>

definition TWAP :: "Plan \<Rightarrow> algo_error + Slice list" where
  "TWAP p =
     (case plan_validate p of
        Some e \<Rightarrow> Inl e
      | None \<Rightarrow>
          let parent = the (Total p); each = parent / of_int (sint (Slices p)) in
          if exceeds_cap p each then
            Inl (ErrCapUnsatisfiable_even (Slices p) each (the (MaxSlice p)) (ceilRat (parent / the (MaxSlice p))))
          else place_slices p (\<lambda>i. Inr each) (slice_range p))"

definition algo_Due :: "Slice list \<Rightarrow> instant \<Rightarrow> Slice list" where
  "algo_Due ss now = filter (\<lambda>s. \<not> sl_Due s > now) ss"

definition algo_Sum :: "Slice list \<Rightarrow> rat" where
  "algo_Sum ss = foldl (\<lambda>t s. t + sl_Quantity s) 0 ss"

section \<open>Volume-driven algorithms\<close>

record MarketView =
  TopOfBook :: "string \<Rightarrow> (rat \<times> rat) option"
  ExpectedVolume :: "string \<Rightarrow> instant \<Rightarrow> instant \<Rightarrow> rat option option"

definition UnknownMarket :: MarketView where
  "UnknownMarket = \<lparr>TopOfBook = (\<lambda>_. None), ExpectedVolume = (\<lambda>_ _ _. None)\<rparr>"

fun ask_volumes :: "Plan \<Rightarrow> MarketView \<Rightarrow> int list \<Rightarrow> algo_error + rat list" where
  "ask_volumes p mkt [] = Inr []"
| "ask_volumes p mkt (i # is) =
     (case (boundary p i, boundary p (i + 1)) of
        (Some from, Some to) \<Rightarrow>
          (case ExpectedVolume mkt (plan_InstrumentID p) from to of
             None \<Rightarrow> Inl (ErrVolumeUnknown (plan_InstrumentID p) from to i (Slices p))
           | Some None \<Rightarrow> Inl (ErrNoVolumeInBucket (plan_InstrumentID p) from to i (Slices p))
           | Some (Some v) \<Rightarrow>
               if v \<le> 0 then Inl (ErrNoVolumeInBucket (plan_InstrumentID p) from to i (Slices p))
               else (case ask_volumes p mkt is of Inl e \<Rightarrow> Inl e | Inr vs \<Rightarrow> Inr (v # vs)))
      | _ \<Rightarrow> Inl Div64_panics)"

definition expectedVolumes :: "Plan \<Rightarrow> MarketView option \<Rightarrow> algo_error + (rat list \<times> rat)" where
  "expectedVolumes p mkt =
     (if plan_InstrumentID p = [] then Inl ErrNoInstrument
      else case ask_volumes p (case mkt of None \<Rightarrow> UnknownMarket | Some m \<Rightarrow> m) (slice_range p) of
        Inl e \<Rightarrow> Inl e
      | Inr vs \<Rightarrow> Inr (vs, foldl (+) 0 vs))"

definition allocateProportional :: "Plan \<Rightarrow> rat list \<Rightarrow> rat \<Rightarrow> algo_error + Slice list" where
  "allocateProportional p vols tot =
     place_slices p (\<lambda>i.
       let v = vols ! nat i; q = the (Total p) * v / tot in
       if exceeds_cap p q then Inl (ErrCapUnsatisfiable_slice i (Slices p) q (the (MaxSlice p)) v tot)
       else Inr q) (slice_range p)"

definition vwap :: "Plan \<Rightarrow> MarketView option \<Rightarrow> algo_error + Slice list" where
  "vwap p mkt =
     (case plan_validate p of
        Some e \<Rightarrow> Inl e
      | None \<Rightarrow>
          (case expectedVolumes p mkt of
             Inl e \<Rightarrow> Inl e
           | Inr (vols, tot) \<Rightarrow> allocateProportional p vols tot))"

definition pov :: "Plan \<Rightarrow> MarketView option \<Rightarrow> algo_error + Slice list" where
  "pov p mkt =
     (case plan_validate p of
        Some e \<Rightarrow> Inl e
      | None \<Rightarrow>
          (case MaxParticipation p of
             None \<Rightarrow> Inl (ErrNoParticipationCap None)
           | Some capRate \<Rightarrow>
               if capRate \<le> 0 \<or> capRate > 1 then Inl (ErrNoParticipationCap (Some capRate))
               else (case expectedVolumes p mkt of
                  Inl e \<Rightarrow> Inl e
                | Inr (vols, tot) \<Rightarrow>
                    let parent = the (Total p); workable = capRate * tot in
                    if parent > workable then
                      Inl (ErrParticipationCapExceeded_window parent (parent / tot) tot capRate workable)
                    else (case allocateProportional p vols tot of
                       Inl e \<Rightarrow> Inl e
                     | Inr out \<Rightarrow>
                         (case find (\<lambda>s. sl_Quantity s > capRate * vols ! nat (sl_Index s)) out of
                            Some s \<Rightarrow> Inl (ErrParticipationCapExceeded_slice (sl_Index s) (sl_Quantity s)
                              (vols ! nat (sl_Index s)) capRate (capRate * vols ! nat (sl_Index s)))
                          | None \<Rightarrow> Inr out)))))"

section \<open>The registry\<close>

record ParentState =
  ps_OrderID :: string
  Sent :: "(int \<Rightarrow> bool) option"

datatype AlgoImpl = twapAlgo | vwapAlgo | povAlgo

fun algo_Name :: "AlgoImpl \<Rightarrow> string" where
  "algo_Name twapAlgo = ''TWAP''"
| "algo_Name vwapAlgo = ''VWAP''"
| "algo_Name povAlgo = ''POV''"

fun algo_Schedule :: "AlgoImpl \<Rightarrow> Plan \<Rightarrow> ParentState \<Rightarrow> MarketView option \<Rightarrow> algo_error + Slice list" where
  "algo_Schedule twapAlgo p st mkt = TWAP p"
| "algo_Schedule vwapAlgo p st mkt = vwap p mkt"
| "algo_Schedule povAlgo p st mkt = pov p mkt"

definition Registered :: "AlgoImpl list" where
  "Registered = [twapAlgo, vwapAlgo, povAlgo]"

definition Names :: "string list" where
  "Names = map algo_Name Registered"

definition algo_Lookup :: "string \<Rightarrow> algo_error + AlgoImpl" where
  "algo_Lookup n =
     (case find (\<lambda>a. algo_Name a = n) Registered of
        Some a \<Rightarrow> Inr a
      | None \<Rightarrow> Inl (ErrUnknownAlgo n Names))"

definition algo_Run :: "Plan \<Rightarrow> ParentState \<Rightarrow> MarketView option \<Rightarrow> algo_error + Slice list" where
  "algo_Run p st mkt =
     (case algo_Lookup (Algo p) of
        Inl e \<Rightarrow> Inl e
      | Inr a \<Rightarrow> algo_Schedule a p st (case mkt of None \<Rightarrow> Some UnknownMarket | Some m \<Rightarrow> Some m))"

section \<open>Slice boundaries\<close>

definition plan_span :: "Plan \<Rightarrow> int" where
  "plan_span p = time_Sub (End p) (Start p)"

lemma Mul64_Div64:
  fixes x i y :: "64 word"
  assumes "uint x * uint i < uint y * 2 ^ 64"
  shows "Div64 (fst (Mul64 x i)) (snd (Mul64 x i)) y
    = Some (word_of_int (uint x * uint i div uint y), word_of_int (uint x * uint i mod uint y))"
proof -
  have "a div 18446744073709551616 < b" if "a < b * 18446744073709551616" for a b :: int
    using that by arith
  then have hi: "uint x * uint i div 2 ^ 64 < uint y" using assms by simp
  have nonneg: "0 \<le> uint x * uint i div 2 ^ 64" by (simp add: pos_imp_zdiv_nonneg_iff)
  have uhi: "uint (word_of_int (uint x * uint i div 18446744073709551616) :: 64 word) = uint x * uint i div 18446744073709551616"
    using hi nonneg uint_lt2p [of y] by (simp add: uint_word_of_int)
  have ulo: "uint (x * i) = uint x * uint i mod 18446744073709551616" by (simp add: uint_word_ariths)
  have y: "y \<noteq> 0" using hi nonneg by auto
  show ?thesis
    using hi y unfolding Mul64_def Div64_def
    by (simp add: uhi ulo word_le_def Let_def div_mult_mod_eq flip: not_less)
qed

lemma time_Sub_pos:
  assumes "u < t"
  shows "0 < time_Sub t u" and "time_Sub t u \<le> t - u" and "time_Sub t u \<le> MaxDuration"
  using assms by (auto simp: time_Sub_def MaxDuration_def)

lemma uint_nonneg_sint: "0 \<le> sint (x :: i64) \<Longrightarrow> uint x = sint x"
  using sint_i64_le [of x] by (simp add: uint_sint take_bit_int_eq_self)

lemma boundary_exact:
  assumes "0 < sint (Slices p)" and "Start p < End p" and "0 \<le> i" and "i \<le> sint (Slices p)"
  shows "boundary p i = Some (Start p + plan_span p * i div sint (Slices p))"
proof -
  define n where "n = sint (Slices p)"
  define sp where "sp = plan_span p"
  have sp: "0 < sp" "sp \<le> MaxDuration" using time_Sub_pos [OF assms(2)] by (simp_all add: sp_def plan_span_def)
  have n: "uint (Slices p) = n" "n \<le> MaxDuration" "0 < n" "i \<le> n"
    using assms uint_nonneg_sint [of "Slices p"] sint_i64_le [of "Slices p"] by (simp_all add: n_def MaxDuration_def)
  have us: "uint (word_of_int sp :: 64 word) = sp" and ui: "uint (word_of_int i :: 64 word) = i"
    using sp n assms(3) by (simp_all add: uint_word_of_int MaxDuration_def)
  have le: "sp * i div n \<le> sp"
  proof -
    have "sp * i div n \<le> sp * n div n" using n sp by (intro zdiv_mono1) simp_all
    then show ?thesis using n by simp
  qed
  have "sp * i \<le> sp * n" using n sp by simp
  also have "\<dots> < n * 2 ^ 64" using sp n by (simp add: MaxDuration_def mult.commute)
  finally have "uint (word_of_int sp :: 64 word) * uint (word_of_int i :: 64 word) < uint (Slices p) * 2 ^ 64"
    by (simp add: us ui n)
  from Mul64_Div64 [OF this]
  have "Div64 (fst (Mul64 (word_of_int sp) (word_of_int i))) (snd (Mul64 (word_of_int sp) (word_of_int i))) (Slices p)
      = Some (word_of_int (sp * i div n), word_of_int (sp * i mod n))" by (simp add: us ui n)
  moreover have "sint (word_of_int (sp * i div n) :: 64 word) = sp * i div n"
    using le sp n assms(3) by (intro sint_of_i64) (auto simp: MaxDuration_def pos_imp_zdiv_nonneg_iff intro: order_trans [of _ 0])
  ultimately show ?thesis by (simp add: boundary_def Let_def case_prod_beta flip: sp_def n_def plan_span_def)
qed

lemma boundary_ends:
  assumes "0 < sint (Slices p)" and "Start p < End p"
  shows "boundary p 0 = Some (Start p)" and "boundary p (sint (Slices p)) = Some (Start p + plan_span p)"
  using assms by (simp_all add: boundary_exact)

section \<open>What a schedule looks like\<close>

lemma place_slices_Inr:
  "place_slices p f is = Inr ss \<longleftrightarrow>
     list_all2 (\<lambda>i s. sl_Index s = i \<and> boundary p i = Some (sl_Due s) \<and> f i = Inr (sl_Quantity s)) is ss"
proof (induction "is" arbitrary: ss)
  case (Cons i "is")
  show ?case
  proof (cases ss)
    case Nil
    then show ?thesis by (simp split: sum.splits option.splits)
  next
    case (Cons s ss')
    show ?thesis unfolding Cons list_all2_Cons Cons.IH [symmetric]
      by (cases s) (auto split: sum.splits option.splits)
  qed
qed auto

lemma ask_volumes_Inr:
  "ask_volumes p mkt is = Inr vs \<longleftrightarrow>
     list_all2 (\<lambda>i v. 0 < v \<and> (\<exists>from to. boundary p i = Some from \<and> boundary p (i + 1) = Some to
       \<and> ExpectedVolume mkt (plan_InstrumentID p) from to = Some (Some v))) is vs"
proof (induction "is" arbitrary: vs)
  case (Cons i "is")
  note IH = Cons.IH
  show ?case
  proof (cases vs)
    case Nil
    then show ?thesis by (simp split: sum.splits option.splits)
  next
    case (Cons v vs')
    show ?thesis unfolding Cons list_all2_Cons IH [symmetric]
      by (auto split: sum.splits option.splits)
  qed
qed auto

lemma foldl_plus_sum_list: "foldl (+) (a :: 'a :: comm_monoid_add) xs = a + sum_list xs"
  by (induction xs arbitrary: a) (simp_all add: add.assoc)

lemma algo_Sum_sum_list: "algo_Sum ss = sum_list (map sl_Quantity ss)"
proof -
  have "foldl (\<lambda>t s. t + sl_Quantity s) a ss = a + sum_list (map sl_Quantity ss)" for a
    by (induction ss arbitrary: a) (simp_all add: add.assoc)
  then show ?thesis by (simp add: algo_Sum_def)
qed

lemma plan_validate_None:
  "plan_validate p = None \<longleftrightarrow> (\<exists>q. Total p = Some q \<and> 0 < q) \<and> 0 < sint (Slices p) \<and> Start p < End p"
  by (auto simp: plan_validate_def split: option.splits)

lemma expectedVolumes_Inr:
  assumes "expectedVolumes p mkt = Inr (vs, tot)"
  shows "length vs = nat (sint (Slices p))" and "\<forall>v\<in>set vs. 0 < v" and "tot = sum_list vs"
proof -
  have l: "list_all2 (\<lambda>i v. 0 < v \<and> (\<exists>from to. boundary p i = Some from \<and> boundary p (i + 1) = Some to
       \<and> ExpectedVolume (case mkt of None \<Rightarrow> UnknownMarket | Some m \<Rightarrow> m) (plan_InstrumentID p) from to = Some (Some v)))
     (slice_range p) vs" and tot: "tot = sum_list vs"
    using assms by (auto simp: expectedVolumes_def ask_volumes_Inr foldl_plus_sum_list split: if_splits sum.splits)
  show "length vs = nat (sint (Slices p))" using list_all2_lengthD [OF l] by (simp add: slice_range_def)
  show "\<forall>v\<in>set vs. 0 < v" using l by (auto simp: list_all2_conv_all_nth in_set_conv_nth)
  show "tot = sum_list vs" by (rule tot)
qed

abbreviation slices_of :: "Plan \<Rightarrow> nat" where
  "slices_of p \<equiv> nat (sint (Slices p))"

lemma list_all2_slice_range:
  "list_all2 P (slice_range p) xs \<longleftrightarrow> length xs = slices_of p \<and> (\<forall>i < slices_of p. P (int i) (xs ! i))"
  by (auto simp: slice_range_def list_all2_conv_all_nth)

text \<open>A schedule that splits the parent in proportion to positive weights, one per slice.\<close>

definition weighted :: "Plan \<Rightarrow> rat list \<Rightarrow> Slice list \<Rightarrow> bool" where
  "weighted p ws ss \<longleftrightarrow> length ws = slices_of p \<and> length ss = slices_of p \<and> (\<forall>w\<in>set ws. 0 < w)
     \<and> (\<forall>i < slices_of p. sl_Index (ss ! i) = int i \<and> boundary p (int i) = Some (sl_Due (ss ! i))
          \<and> sl_Quantity (ss ! i) = the (Total p) * ws ! i / sum_list ws \<and> \<not> exceeds_cap p (sl_Quantity (ss ! i)))"

lemma TWAP_weighted:
  "TWAP p = Inr ss \<longleftrightarrow> plan_validate p = None \<and> weighted p (replicate (slices_of p) 1) ss"
proof (cases "plan_validate p = None")
  case True
  then have n: "0 < sint (Slices p)" by (simp add: plan_validate_None)
  define each where "each = the (Total p) / of_int (sint (Slices p))"
  have sum: "sum_list (replicate (slices_of p) (1 :: rat)) = of_int (sint (Slices p))"
    using n by (simp add: sum_list_replicate)
  have "TWAP p = Inr ss \<longleftrightarrow> \<not> exceeds_cap p each
      \<and> list_all2 (\<lambda>i s. sl_Index s = i \<and> boundary p i = Some (sl_Due s) \<and> each = sl_Quantity s) (slice_range p) ss"
    using True by (simp add: TWAP_def Let_def place_slices_Inr each_def)
  also have "\<dots> \<longleftrightarrow> weighted p (replicate (slices_of p) 1) ss"
  proof -
    have "(\<forall>i < slices_of p. A i \<and> B i \<and> Q i = each \<and> \<not> exceeds_cap p (Q i)) \<longleftrightarrow>
        \<not> exceeds_cap p each \<and> (\<forall>i < slices_of p. A i \<and> B i \<and> each = Q i)" for A B Q
      using n by (auto dest: spec [of _ 0])
    from this [of "\<lambda>i. sl_Index (ss ! i) = int i" "\<lambda>i. boundary p (int i) = Some (sl_Due (ss ! i))" "\<lambda>i. sl_Quantity (ss ! i)"]
    show ?thesis unfolding weighted_def list_all2_slice_range sum by (auto simp: each_def)
  qed
  finally show ?thesis using True by simp
next
  case False
  then show ?thesis by (auto simp: TWAP_def)
qed

lemma allocateProportional_weighted:
  assumes "expectedVolumes p mkt = Inr (vs, tot)"
  shows "allocateProportional p vs tot = Inr ss \<longleftrightarrow> weighted p vs ss"
proof -
  have "(if c then Inl e else Inr q) = Inr x \<longleftrightarrow> x = q \<and> \<not> c" for c and e :: algo_error and q x :: rat by auto
  then show ?thesis
    unfolding allocateProportional_def place_slices_Inr weighted_def Let_def list_all2_slice_range
    using expectedVolumes_Inr [OF assms] by auto
qed

lemma vwap_weighted:
  "vwap p mkt = Inr ss \<longleftrightarrow>
     plan_validate p = None \<and> (\<exists>vs tot. expectedVolumes p mkt = Inr (vs, tot) \<and> weighted p vs ss)"
  by (auto simp: vwap_def allocateProportional_weighted split: option.splits sum.splits)

text \<open>The check after the allocation of \<open>pov\<close> never fires: the feasibility test already implies it.\<close>

lemma participation_uniform:
  assumes "weighted p vs ss" and "the (Total p) \<le> cap * sum_list vs" and "0 < sum_list vs" and "s \<in> set ss"
  shows "sl_Quantity s \<le> cap * vs ! nat (sl_Index s)"
proof -
  obtain i where i: "i < slices_of p" "s = ss ! i"
    using assms(1,4) by (auto simp: weighted_def in_set_conv_nth)
  have v: "0 < vs ! i" using assms(1) i(1) by (auto simp: weighted_def)
  have idx: "nat (sl_Index s) = i" using assms(1) i by (auto simp: weighted_def)
  have "sl_Quantity s = the (Total p) * (vs ! i / sum_list vs)" using assms(1) i by (auto simp: weighted_def)
  also have "\<dots> \<le> (cap * sum_list vs) * (vs ! i / sum_list vs)"
    using assms(2,3) v by (intro mult_right_mono) simp_all
  finally show ?thesis using assms(3) idx by simp
qed

lemma sum_list_pos: "xs \<noteq> [] \<Longrightarrow> \<forall>x\<in>set xs. 0 < x \<Longrightarrow> 0 < sum_list (xs :: rat list)"
  by (induction xs rule: list_nonempty_induct) (auto intro: add_pos_pos)

lemma pov_weighted:
  "pov p mkt = Inr ss \<longleftrightarrow> plan_validate p = None
     \<and> (\<exists>cap vs tot. MaxParticipation p = Some cap \<and> 0 < cap \<and> cap \<le> 1
          \<and> expectedVolumes p mkt = Inr (vs, tot) \<and> the (Total p) \<le> cap * tot \<and> weighted p vs ss)"
proof -
  have none: "find (\<lambda>s. sl_Quantity s > cap * vs ! nat (sl_Index s)) out = None"
    if "expectedVolumes p mkt = Inr (vs, tot)" "the (Total p) \<le> cap * tot" "weighted p vs out" "plan_validate p = None"
    for cap vs tot out
  proof -
    have "vs \<noteq> []" using expectedVolumes_Inr(1) [OF that(1)] that(4) by (auto simp: plan_validate_None)
    then have "0 < sum_list vs" using expectedVolumes_Inr(2) [OF that(1)] by (rule sum_list_pos)
    then show ?thesis
      using participation_uniform [OF that(3), of cap] that(2) expectedVolumes_Inr(3) [OF that(1)]
      by (auto simp: find_None_iff not_less)
  qed
  show ?thesis
  proof (cases "plan_validate p = None")
    case valid: True
    show ?thesis
    proof (cases "expectedVolumes p mkt")
      case (Inl e)
      then show ?thesis using valid by (simp add: pov_def split: option.splits)
    next
      case (Inr r)
      obtain vs tot where r: "r = (vs, tot)" by (cases r)
      show ?thesis
      proof (cases "allocateProportional p vs tot")
        case (Inl e)
        then show ?thesis
          using valid Inr allocateProportional_weighted [of p mkt vs tot ss]
          by (auto simp: r pov_def Let_def split: option.splits)
      next
        case out: (Inr out)
        then have w: "weighted p vs s \<longleftrightarrow> s = out" for s
          using allocateProportional_weighted [of p mkt vs tot s] Inr r by auto
        show ?thesis
          using valid none [of vs tot _ out] Inr w [of out] by (auto simp: w r out pov_def Let_def split: option.splits)
      qed
    qed
  next
    case False
    then show ?thesis by (auto simp: pov_def)
  qed
qed

lemma algo_Run_weighted:
  assumes "algo_Run p st mkt = Inr ss"
  obtains ws where "plan_validate p = None" and "weighted p ws ss"
proof -
  obtain a where "algo_Schedule a p st (case mkt of None \<Rightarrow> Some UnknownMarket | Some m \<Rightarrow> Some m) = Inr ss"
    using assms by (auto simp: algo_Run_def split: sum.splits)
  then show ?thesis
    by (cases a) (auto simp: TWAP_weighted vwap_weighted pov_weighted intro: that)
qed

lemma weighted_Sum:
  assumes "weighted p ws ss" and "0 < sint (Slices p)"
  shows "algo_Sum ss = the (Total p)"
proof -
  have "ws \<noteq> []" using assms by (auto simp: weighted_def)
  then have pos: "0 < sum_list ws" using assms(1) by (auto simp: weighted_def intro: sum_list_pos)
  have "map sl_Quantity ss = map (\<lambda>w. w * (the (Total p) / sum_list ws)) ws"
    using assms(1) by (intro nth_equalityI) (auto simp: weighted_def)
  then have "algo_Sum ss = (\<Sum>w\<leftarrow>ws. w * (the (Total p) / sum_list ws))" by (simp only: algo_Sum_sum_list)
  also have "\<dots> = sum_list ws * (the (Total p) / sum_list ws)" using sum_list_mult_const [of "\<lambda>w. w" "the (Total p) / sum_list ws" ws] by (simp only: list.map_ident)
  finally have "algo_Sum ss = sum_list ws * (the (Total p) / sum_list ws)" .
  then show ?thesis using pos by simp
qed

lemma weighted_slice:
  assumes "weighted p ws ss" and "plan_validate p = None" and "i < slices_of p"
  shows "sl_Due (ss ! i) = Start p + plan_span p * int i div sint (Slices p)" and "0 < sl_Quantity (ss ! i)"
proof -
  have v: "0 < sint (Slices p)" "Start p < End p" "0 < the (Total p)" using assms(2) by (auto simp: plan_validate_None)
  show "sl_Due (ss ! i) = Start p + plan_span p * int i div sint (Slices p)"
    using boundary_exact [of p "int i"] v assms(1,3) by (auto simp: weighted_def)
  have "ws \<noteq> []" using assms(1,3) by (auto simp: weighted_def)
  then have "0 < sum_list ws" using assms(1) by (auto simp: weighted_def intro: sum_list_pos)
  then show "0 < sl_Quantity (ss ! i)" using assms(1,3) v by (auto simp: weighted_def)
qed

lemma offset_bounds:
  fixes n sp i :: int
  assumes "0 < sp" and "0 \<le> i" and "i < n"
  shows "0 \<le> sp * i div n" and "sp * i div n < sp"
proof -
  show "0 \<le> sp * i div n" using assms by (simp add: pos_imp_zdiv_nonneg_iff)
  have "n * (sp * i div n) \<le> sp * i"
    using assms mult_div_mod_eq [of n "sp * i"] pos_mod_sign [of n "sp * i"] by linarith
  also have "\<dots> < n * sp" using assms by (simp add: mult.commute)
  finally show "sp * i div n < sp" using assms by simp
qed
lemma weighted_schedule:
  assumes v: "plan_validate p = None" and w: "weighted p ws ss"
  shows "map sl_Index ss = slice_range p" and "sorted (map sl_Due ss)" and "sl_Due (hd ss) = Start p"
    and "s \<in> set ss \<Longrightarrow> Start p \<le> sl_Due s \<and> sl_Due s < End p \<and> 0 < sl_Quantity s \<and> \<not> exceeds_cap p (sl_Quantity s)"
proof -
  have n: "0 < sint (Slices p)" and win: "Start p < End p" using v by (auto simp: plan_validate_None)
  have len: "length ss = slices_of p" using w by (simp add: weighted_def)
  have sp: "0 < plan_span p" "plan_span p \<le> End p - Start p" using time_Sub_pos [OF win] by (simp_all add: plan_span_def)
  note due = weighted_slice(1) [OF w v]
  show "map sl_Index ss = slice_range p"
    using w len by (auto simp: slice_range_def weighted_def intro: nth_equalityI)
  show "sorted (map sl_Due ss)"
    using n sp by (auto simp: sorted_iff_nth_mono len due intro!: zdiv_mono1 mult_left_mono)
  show "sl_Due (hd ss) = Start p"
    using n len due [of 0] by (cases ss) simp_all
  assume "s \<in> set ss"
  then obtain i where i: "i < slices_of p" "s = ss ! i" using len by (auto simp: in_set_conv_nth)
  then have "int i < sint (Slices p)" by linarith
  then have "Start p \<le> sl_Due s \<and> sl_Due s < End p"
    using due [OF i(1)] offset_bounds [OF sp(1), of "int i" "sint (Slices p)"] sp(2) i(2) by simp
  moreover have "\<not> exceeds_cap p (sl_Quantity s)" using w i unfolding weighted_def by blast
  ultimately show "Start p \<le> sl_Due s \<and> sl_Due s < End p \<and> 0 < sl_Quantity s \<and> \<not> exceeds_cap p (sl_Quantity s)"
    using weighted_slice(2) [OF w v i(1)] i by blast
qed

text \<open>
  C15: A schedule works exactly its parent. Whatever algorithm the plan names, a schedule that is returned has one slice
  per index in order, its quantities sum to the parent's quantity with no remainder, every slice is positive and within
  the size cap, the first is due when the window opens and all fall in order inside the window, before its end.
\<close>

theorem schedule_conserves:
  assumes "algo_Run p st mkt = Inr ss"
  shows "algo_Sum ss = the (Total p) \<and> map sl_Index ss = slice_range p
    \<and> sorted (map sl_Due ss) \<and> sl_Due (hd ss) = Start p
    \<and> (\<forall>s\<in>set ss. Start p \<le> sl_Due s \<and> sl_Due s < End p \<and> 0 < sl_Quantity s \<and> \<not> exceeds_cap p (sl_Quantity s))"
proof -
  obtain ws where v: "plan_validate p = None" and w: "weighted p ws ss" by (rule algo_Run_weighted [OF assms])
  have n: "0 < sint (Slices p)" using v by (simp add: plan_validate_None)
  show ?thesis using weighted_Sum [OF w n] weighted_schedule [OF v w] by blast
qed

definition sample_plan :: "string \<Rightarrow> Plan" where
  "sample_plan name = \<lparr>Algo = name, plan_InstrumentID = ''BTC'', Total = Some 10, Start = 0, End = 3000, Slices = 3,
     MaxSlice = None, MaxParticipation = Some (1 / 2)\<rparr>"

lemma sample_boundary:
  "boundary (sample_plan name) 0 = Some 0" "boundary (sample_plan name) 1 = Some 1000"
  "boundary (sample_plan name) 2 = Some 2000" "boundary (sample_plan name) 3 = Some 3000"
  by (simp_all add: boundary_exact sample_plan_def plan_span_def time_Sub_def MaxDuration_def)

lemma sample_range: "slice_range (sample_plan name) = [0, 1, 2]"
  by (simp add: slice_range_def sample_plan_def upt_rec)

lemma sample_plan_fields:
  "Algo (sample_plan name) = name" "Total (sample_plan name) = Some 10" "sint (Slices (sample_plan name)) = 3"
  "Start (sample_plan name) = 0" "End (sample_plan name) = 3000" "MaxSlice (sample_plan name) = None"
  by (simp_all add: sample_plan_def)

lemma sample_TWAP:
  "algo_Run (sample_plan ''TWAP'') st None = Inr [\<lparr>sl_Index = 0, sl_Due = 0, sl_Quantity = 10 / 3\<rparr>,
     \<lparr>sl_Index = 1, sl_Due = 1000, sl_Quantity = 10 / 3\<rparr>, \<lparr>sl_Index = 2, sl_Due = 2000, sl_Quantity = 10 / 3\<rparr>]"
  by (simp add: algo_Run_def algo_Lookup_def Registered_def TWAP_def sample_range sample_boundary exceeds_cap_def plan_validate_def
      sample_plan_fields Let_def)

theorem schedule_conserves_witness:
  "algo_Sum [\<lparr>sl_Index = 0, sl_Due = 0, sl_Quantity = 10 / 3\<rparr>, \<lparr>sl_Index = 1, sl_Due = 1000, sl_Quantity = 10 / 3\<rparr>,
     \<lparr>sl_Index = 2, sl_Due = 2000, sl_Quantity = 10 / 3\<rparr>] = 10"
  using schedule_conserves [OF sample_TWAP] by (simp add: sample_plan_def)

section \<open>Refusals\<close>

lemma no_panic_place:
  assumes "0 < sint (Slices p)" and "Start p < End p" and "\<forall>i\<in>set is. 0 \<le> i \<and> i < sint (Slices p) \<and> f i \<noteq> Inl Div64_panics"
  shows "place_slices p f is \<noteq> Inl Div64_panics"
  using assms(3) by (induction "is") (auto simp: boundary_exact [OF assms(1,2)] split: sum.splits)

lemma no_panic_ask:
  assumes "0 < sint (Slices p)" and "Start p < End p" and "\<forall>i\<in>set is. 0 \<le> i \<and> i < sint (Slices p)"
  shows "ask_volumes p mkt is \<noteq> Inl Div64_panics"
  using assms(3) by (induction "is") (auto simp: boundary_exact [OF assms(1,2)] split: sum.splits option.splits)

lemma slice_range_bounds: "i \<in> set (slice_range p) \<Longrightarrow> 0 \<le> i \<and> i < sint (Slices p)"
  by (auto simp: slice_range_def)

lemma no_panic_allocate:
  assumes "plan_validate p = None"
  shows "allocateProportional p vs tot \<noteq> Inl Div64_panics" and "expectedVolumes p mkt \<noteq> Inl Div64_panics"
    and "TWAP p \<noteq> Inl Div64_panics"
proof -
  have v: "0 < sint (Slices p)" "Start p < End p" using assms by (auto simp: plan_validate_None)
  show "allocateProportional p vs tot \<noteq> Inl Div64_panics"
    unfolding allocateProportional_def by (rule no_panic_place [OF v]) (auto simp: Let_def dest: slice_range_bounds)
  have "ask_volumes p m (slice_range p) \<noteq> Inl Div64_panics" for m
    by (rule no_panic_ask [OF v]) (auto dest: slice_range_bounds)
  then show "expectedVolumes p mkt \<noteq> Inl Div64_panics"
    by (auto simp: expectedVolumes_def split: sum.splits)
  have "place_slices p (\<lambda>i. Inr each) (slice_range p) \<noteq> Inl Div64_panics" for each
    by (rule no_panic_place [OF v]) (auto dest: slice_range_bounds)
  then show "TWAP p \<noteq> Inl Div64_panics" by (simp add: TWAP_def assms Let_def)
qed

lemma participation_within:
  assumes "plan_validate p = None" and "expectedVolumes p mkt = Inr (vs, tot)" and "the (Total p) \<le> cap * tot"
    and "weighted p vs ss" and "i < length ss"
  shows "sl_Quantity (ss ! i) \<le> cap * vs ! i"
proof -
  note vol = expectedVolumes_Inr [OF assms(2)]
  have "vs \<noteq> []" using vol(1) assms(1) by (auto simp: plan_validate_None)
  then have "0 < sum_list vs" using vol(2) by (rule sum_list_pos)
  then show ?thesis
    using participation_uniform [OF assms(4), of cap "ss ! i"] assms(3-5) vol(3) by (simp add: weighted_def)
qed

lemma place_slices_errors:
  "place_slices p f is = Inl e \<Longrightarrow> e = Div64_panics \<or> (\<exists>i. f i = Inl e)"
  by (induction "is") (auto split: sum.splits option.splits)

lemma ask_volumes_errors:
  "ask_volumes p mkt is = Inl e \<Longrightarrow> e = Div64_panics \<or> (\<exists>ins from to i n. e \<in> {ErrVolumeUnknown ins from to i n, ErrNoVolumeInBucket ins from to i n})"
  by (induction "is") (auto split: sum.splits option.splits if_splits)

lemma allocate_errors:
  "allocateProportional p vs tot = Inl e \<Longrightarrow> e = Div64_panics \<or> (\<exists>i n q cap v t. e = ErrCapUnsatisfiable_slice i n q cap v t)"
  unfolding allocateProportional_def by (drule place_slices_errors) (auto simp: Let_def split: if_splits)

lemma expectedVolumes_errors:
  "expectedVolumes p mkt = Inl e \<Longrightarrow> e \<noteq> ErrParticipationCapExceeded_slice i q v c l"
  by (auto simp: expectedVolumes_def dest!: ask_volumes_errors split: if_splits sum.splits)

lemma pov_postcondition: "pov p mkt \<noteq> Inl (ErrParticipationCapExceeded_slice i q v c l)"
proof (cases "plan_validate p")
  case valid: None
  show ?thesis
  proof (cases "expectedVolumes p mkt")
    case (Inl e)
    then show ?thesis using valid expectedVolumes_errors [OF Inl] by (auto simp: pov_def split: option.splits)
  next
    case (Inr r)
    obtain vs tot where r: "r = (vs, tot)" by (cases r)
    show ?thesis
    proof (cases "allocateProportional p vs tot")
      case (Inl e)
      then show ?thesis
        using valid Inr allocate_errors [OF Inl] by (auto simp: r pov_def Let_def split: option.splits)
    next
      case out: (Inr out)
      then have w: "weighted p vs out" using allocateProportional_weighted [of p mkt vs tot] Inr r by simp
      have "find (\<lambda>s. sl_Quantity s > cap * vs ! nat (sl_Index s)) out = None" if "the (Total p) \<le> cap * tot" for cap
        using participation_within [OF valid _ that w] Inr r w
        by (auto simp: find_None_iff in_set_conv_nth not_less weighted_def)
      then show ?thesis using valid Inr out by (auto simp: r pov_def Let_def not_less split: option.splits)
    qed
  qed
next
  case (Some e)
  then show ?thesis by (auto simp: pov_def plan_validate_def split: if_splits)
qed

lemma algo_Run_no_panic: "algo_Run p st mkt \<noteq> Inl Div64_panics"
proof -
  have "algo_Schedule a p st m \<noteq> Inl Div64_panics" for a m
  proof (cases "plan_validate p")
    case None
    note np = no_panic_allocate [OF None]
    show ?thesis
      using np by (cases a) (auto simp: vwap_def pov_def None Let_def split: sum.splits option.splits if_splits)
  next
    case (Some e)
    then show ?thesis
      by (cases a) (auto simp: TWAP_def vwap_def pov_def plan_validate_def split: if_splits)
  qed
  then show ?thesis by (auto simp: algo_Run_def algo_Lookup_def split: sum.splits option.splits)
qed

text \<open>
  C35: The participation control. A POV schedule is exactly a VWAP schedule of a plan whose cap lies in (0, 1] and whose
  quantity is at most that fraction of the volume expected over the window; then no slice exceeds the cap of its own
  interval. The check the code repeats after allocating never fires, and no plan makes the 128-bit division panic.
\<close>

theorem pov_is_capped_vwap:
  "(pov p mkt = Inr ss \<longleftrightarrow> vwap p mkt = Inr ss
      \<and> (\<exists>cap vs tot. MaxParticipation p = Some cap \<and> 0 < cap \<and> cap \<le> 1 \<and> expectedVolumes p mkt = Inr (vs, tot)
           \<and> the (Total p) \<le> cap * tot \<and> list_all2 (\<lambda>s v. sl_Quantity s \<le> cap * v) ss vs))
   \<and> pov p mkt \<noteq> Inl (ErrParticipationCapExceeded_slice i q v c l)
   \<and> algo_Run p st mkt \<noteq> Inl Div64_panics"
proof (intro conjI)
  have capped: "list_all2 (\<lambda>s v. sl_Quantity s \<le> cap * v) ss vs"
    if "plan_validate p = None" "expectedVolumes p mkt = Inr (vs, tot)" "the (Total p) \<le> cap * tot" "weighted p vs ss" for cap vs tot
    using participation_within [OF that] that(4) by (auto simp: list_all2_conv_all_nth weighted_def)
  show "pov p mkt = Inr ss \<longleftrightarrow> vwap p mkt = Inr ss
      \<and> (\<exists>cap vs tot. MaxParticipation p = Some cap \<and> 0 < cap \<and> cap \<le> 1 \<and> expectedVolumes p mkt = Inr (vs, tot)
           \<and> the (Total p) \<le> cap * tot \<and> list_all2 (\<lambda>s v. sl_Quantity s \<le> cap * v) ss vs)"
    unfolding pov_weighted vwap_weighted using capped by (auto 4 4)
  show "pov p mkt \<noteq> Inl (ErrParticipationCapExceeded_slice i q v c l)" by (rule pov_postcondition)
  show "algo_Run p st mkt \<noteq> Inl Div64_panics" by (rule algo_Run_no_panic)
qed

text \<open>
  A flat curve is TWAP: against a market that expects the same volume in every interval, VWAP and TWAP derive the
  same schedules. This is why the code refuses an unknown curve instead of substituting a flat one.
\<close>

lemma flat_curve_is_TWAP:
  assumes "\<And>i from to. ExpectedVolume m i from to = Some (Some v)" and "0 < v" and "plan_InstrumentID p \<noteq> []"
  shows "vwap p (Some m) = Inr ss \<longleftrightarrow> TWAP p = Inr ss"
proof (cases "plan_validate p = None")
  case True
  then have n: "0 < sint (Slices p)" "Start p < End p" by (auto simp: plan_validate_None)
  have "ask_volumes p m is = Inr (replicate (length is) v)" if "\<forall>i\<in>set is. 0 \<le> i \<and> i < sint (Slices p)" for "is"
    using that assms(2) by (induction "is") (auto simp: boundary_exact [OF n] assms(1))
  then have "expectedVolumes p (Some m) = Inr (replicate (slices_of p) v, sum_list (replicate (slices_of p) v))"
    using assms(3) slice_range_bounds [of _ p] by (simp add: expectedVolumes_def foldl_plus_sum_list slice_range_def)
  moreover have "weighted p (replicate (slices_of p) v) ss \<longleftrightarrow> weighted p (replicate (slices_of p) 1) ss"
    using assms(2) n by (auto simp: weighted_def sum_list_replicate)
  ultimately show ?thesis using True by (simp add: vwap_weighted TWAP_weighted)
next
  case False
  then show ?thesis unfolding vwap_weighted TWAP_weighted by blast
qed

text \<open>
  The comment on \<open>boundary\<close> says the last boundary is the end of the window exactly. \<open>Sub\<close> saturates, so a window
  longer than about 292 years, which two valid timestamps can span, ends its schedule early.
\<close>

lemma last_boundary:
  assumes "0 < sint (Slices p)" and "Start p < End p"
  shows "boundary p (sint (Slices p)) = Some (End p) \<longleftrightarrow> End p - Start p \<le> MaxDuration"
  using boundary_ends(2) [OF assms] assms by (auto simp: plan_span_def time_Sub_def MaxDuration_def)

end
