(* ===== verification/Market_View.thy ===== *)
theory Market_View
  imports Execution_Algo
begin

text \<open>
  The market views \<open>internal/execution/marketview\<close>: a measured intraday volume curve (\<open>shape.go\<close>) and the pinned
  view of one published curve (\<open>pinned.go\<close>) that the order path schedules against, with the session length of
  \<open>internal/marketedge/volprofile\<close>. The entries of a curve as it arrives may be nil, those of a validated one are
  not: the curve is a type parameter. Durations are the integers Go's 64-bit nanosecond counts hold.
\<close>

section \<open>Curves\<close>

definition Session :: duration where
  "Session = 86400000000000"

definition BucketsPerSession :: "duration \<Rightarrow> int" where
  "BucketsPerSession bucket = (if bucket \<le> 0 \<or> Session smod bucket \<noteq> 0 then 0 else Session sdiv bucket)"

record 'q Shape =
  sh_InstrumentID :: string
  Bucket :: duration
  Horizon :: duration
  Expected :: "'q list"

datatype shape_error =
    No_instrument | Bucket_not_positive duration | Bucket_does_not_divide duration
  | Wrong_bucket_count nat int | Negative_horizon duration | Nil_bucket nat | Negative_bucket nat rat | No_version

fun check_buckets :: "nat \<Rightarrow> rat option list \<Rightarrow> shape_error option" where
  "check_buckets i [] = None"
| "check_buckets i (None # es) = Some (Nil_bucket i)"
| "check_buckets i (Some e # es) = (if e < 0 then Some (Negative_bucket i e) else check_buckets (i + 1) es)"

definition shape_validate :: "rat option Shape \<Rightarrow> shape_error option" where
  "shape_validate s =
     (if sh_InstrumentID s = [] then Some No_instrument
      else if Bucket s \<le> 0 then Some (Bucket_not_positive (Bucket s))
      else if Session smod Bucket s \<noteq> 0 then Some (Bucket_does_not_divide (Bucket s))
      else if int (length (Expected s)) \<noteq> BucketsPerSession (Bucket s) then
        Some (Wrong_bucket_count (length (Expected s)) (BucketsPerSession (Bucket s)))
      else if Horizon s < 0 then Some (Negative_horizon (Horizon s))
      else check_buckets 0 (Expected s))"

text \<open>\<open>time.Time.Truncate\<close>: down to a multiple of the duration since the zero time.\<close>

definition Truncate :: "instant \<Rightarrow> duration \<Rightarrow> instant" where
  "Truncate t d = (if d \<le> 0 then t else t - t mod d)"

definition prefixExpected :: "rat Shape \<Rightarrow> instant \<Rightarrow> rat" where
  "prefixExpected s t =
     (let off = time_Sub t (Truncate t Session) in
      if off < 0 then 0
      else
        let full = nat (off sdiv Bucket s);
            out = foldl (+) 0 (take full (Expected s))
        in if full \<ge> length (Expected s) then out
           else let rem = off - int full * Bucket s in
             if rem \<le> 0 then out
             else out + of_int rem / of_int (Bucket s) * Expected s ! full)"

definition expectedOver :: "rat Shape \<Rightarrow> instant \<Rightarrow> instant \<Rightarrow> rat option" where
  "expectedOver s from to =
     (if to < from then None
      else if Horizon s > 0 \<and> time_Sub to from > Horizon s then None
      else if Expected s = [] \<or> Bucket s \<le> 0 then None
      else
        let sessions = time_Sub (Truncate to Session) (Truncate from Session) sdiv Session;
            whole = (if sessions \<noteq> 0 then foldl (+) 0 (Expected s) * of_int sessions else 0);
            out = whole + prefixExpected s to - prefixExpected s from
        in if out < 0 then None else Some out)"

section \<open>The pinned view\<close>

record Pinned =
  pin_shape :: "rat Shape"
  pin_version :: string

definition NewPinned :: "rat option Shape \<Rightarrow> string \<Rightarrow> shape_error + Pinned" where
  "NewPinned sh version =
     (case shape_validate sh of
        Some e \<Rightarrow> Inl e
      | None \<Rightarrow>
          if version = [] then Inl No_version
          else Inr \<lparr>pin_shape = \<lparr>sh_InstrumentID = sh_InstrumentID sh, Bucket = Bucket sh, Horizon = Horizon sh,
                      Expected = map the (Expected sh)\<rparr>, pin_version = version\<rparr>)"

definition pinned_ExpectedVolume :: "Pinned \<Rightarrow> string \<Rightarrow> instant \<Rightarrow> instant \<Rightarrow> rat option" where
  "pinned_ExpectedVolume pin instrumentID from to =
     (if instrumentID = [] \<or> instrumentID \<noteq> sh_InstrumentID (pin_shape pin) then None
      else expectedOver (pin_shape pin) from to)"

definition pinned_view :: "Pinned \<Rightarrow> MarketView" where
  "pinned_view pin = \<lparr>TopOfBook = (\<lambda>_. None),
     ExpectedVolume = (\<lambda>instrument from to. map_option Some (pinned_ExpectedVolume pin instrument from to))\<rparr>"

section \<open>The curve as a density\<close>

text \<open>A curve that passes validation, and the volume it expects in one nanosecond.\<close>

definition shape_ok :: "rat Shape \<Rightarrow> bool" where
  "shape_ok s \<longleftrightarrow> 0 < Bucket s \<and> Session mod Bucket s = 0 \<and> int (length (Expected s)) * Bucket s = Session
     \<and> (\<forall>e\<in>set (Expected s). 0 \<le> e)"

definition density :: "rat Shape \<Rightarrow> instant \<Rightarrow> rat" where
  "density s u = Expected s ! nat (u mod Session div Bucket s) / of_int (Bucket s)"

definition expected_volume :: "rat Shape \<Rightarrow> instant \<Rightarrow> instant \<Rightarrow> rat" where
  "expected_volume s from to = (\<Sum>u\<in>{from..<to}. density s u)"

lemma check_buckets_None: "check_buckets i es = None \<longleftrightarrow> (\<forall>e\<in>set es. \<exists>q. e = Some q \<and> 0 \<le> q)"
  by (induction i es rule: check_buckets.induct) auto

lemma NewPinned_ok:
  assumes "NewPinned sh version = Inr pin"
  shows "shape_ok (pin_shape pin)"
proof -
  have v: "shape_validate sh = None" and pin: "pin_shape pin = \<lparr>sh_InstrumentID = sh_InstrumentID sh, Bucket = Bucket sh,
      Horizon = Horizon sh, Expected = map the (Expected sh)\<rparr>"
    using assms by (auto simp: NewPinned_def split: option.splits if_splits)
  have b: "0 < Bucket sh" and m: "Session mod Bucket sh = 0" and l: "int (length (Expected sh)) = Session div Bucket sh"
    using v sdiv_nonneg [of "Bucket sh" Session]
    by (auto simp: shape_validate_def BucketsPerSession_def Session_def split: if_splits)
  have "int (length (Expected sh)) * Bucket sh = Session" using m l by (simp add: mod_0_imp_dvd)
  moreover have "\<forall>e\<in>set (Expected sh). 0 \<le> the e"
    using v by (auto simp: shape_validate_def check_buckets_None split: if_splits)
  ultimately show ?thesis using b m by (simp add: shape_ok_def pin)
qed

text \<open>The volume from the start of a session to an offset in it.\<close>

definition cumulative :: "rat Shape \<Rightarrow> int \<Rightarrow> rat" where
  "cumulative s off = sum_list (take (nat (off div Bucket s)) (Expected s))
     + of_int (off mod Bucket s) / of_int (Bucket s)
       * (if nat (off div Bucket s) < length (Expected s) then Expected s ! nat (off div Bucket s) else 0)"

lemma prefixExpected_cumulative:
  assumes "shape_ok s"
  shows "prefixExpected s t = cumulative s (t mod Session)"
proof -
  have ok: "0 < Bucket s" using assms by (simp add: shape_ok_def)
  have S: "0 < Session" by (simp add: Session_def)
  have off: "time_Sub t (Truncate t Session) = t mod Session" "0 \<le> t mod Session"
    using S pos_mod_bound [of Session t] by (auto simp: Truncate_def time_Sub_def MaxDuration_def Session_def)
  have full: "nat (t mod Session sdiv Bucket s) = nat (t mod Session div Bucket s)"
    using sdiv_nonneg(1) [OF ok off(2)] by simp
  have "0 \<le> t mod Session div Bucket s" using ok off(2) by (simp add: pos_imp_zdiv_nonneg_iff)
  then have rem: "t mod Session - int (nat (t mod Session div Bucket s)) * Bucket s = t mod Session mod Bucket s"
    by (simp add: minus_div_mult_eq_mod)
  have "0 \<le> t mod Session mod Bucket s" using ok by simp
  then show ?thesis
    using off(2) unfolding prefixExpected_def Let_def off(1) full rem
    by (auto simp: cumulative_def foldl_plus_sum_list not_less)
qed

lemma cumulative_step:
  assumes "shape_ok s" and "0 \<le> off" and "off < Session"
  shows "cumulative s (off + 1) = cumulative s off + density s off"
proof -
  define B where "B = Bucket s"
  define k where "k = nat (off div B)"
  have B: "0 < B" using assms(1) by (simp add: shape_ok_def B_def)
  have klt: "k < length (Expected s)"
  proof -
    have "off < int (length (Expected s)) * B" using assms by (simp add: shape_ok_def B_def)
    then have "off div B < int (length (Expected s))"
      using B mult_div_mod_eq [of B off] pos_mod_sign [of B off] by (smt (verit) mult.commute mult_le_cancel_left_pos)
    then show ?thesis using assms(2) B by (simp add: k_def nat_less_iff pos_imp_zdiv_nonneg_iff)
  qed
  have dens: "density s off = Expected s ! k / of_int B"
    using assms(2,3) by (simp add: density_def k_def B_def)
  have q: "0 \<le> off div B" using assms(2) B by (simp add: pos_imp_zdiv_nonneg_iff)
  define r where "r = off mod B"
  have split: "off = B * (off div B) + r" "0 \<le> r" "r < B" using B by (simp_all add: r_def)
  show ?thesis
  proof (cases "r + 1 < B")
    case True
    have "(off + 1) div B = off div B" "(off + 1) mod B = r + 1"
      using True split by (auto intro!: int_div_pos_eq [of _ _ _ "r + 1"] int_mod_pos_eq [of _ _ "off div B"])
    moreover from this have "nat ((off + 1) div B) = k" by (simp add: k_def)
    ultimately show ?thesis
      using klt B unfolding cumulative_def dens B_def [symmetric] k_def [symmetric] r_def [symmetric] by (simp add: field_simps)
  next
    case False
    then have last: "r = B - 1" using split by simp
    have "(off + 1) div B = off div B + 1" "(off + 1) mod B = 0"
      using last split by (auto intro!: int_div_pos_eq [of _ _ _ 0] int_mod_pos_eq [of _ _ "off div B + 1"] simp: algebra_simps)
    moreover have "nat (off div B + 1) = Suc k" using q by (simp add: k_def)
    moreover have "rat_of_int r / of_int B = 1 - 1 / of_int B" using last B by (simp add: diff_divide_distrib)
    ultimately show ?thesis
      using klt B unfolding cumulative_def dens B_def [symmetric] k_def [symmetric] r_def [symmetric]
      by (simp add: take_Suc_conv_app_nth left_diff_distrib)
  qed
qed

lemma cumulative_ends:
  assumes "shape_ok s"
  shows "cumulative s 0 = 0" and "cumulative s Session = sum_list (Expected s)"
proof -
  have ok: "0 < Bucket s" "int (length (Expected s)) * Bucket s = Session" using assms by (simp_all add: shape_ok_def)
  have "Session div Bucket s = int (length (Expected s))" "Session mod Bucket s = 0" using ok by (auto simp flip: ok(2))
  then show "cumulative s Session = sum_list (Expected s)" by (simp add: cumulative_def)
qed (simp add: cumulative_def)

text \<open>The volume since the zero time: whole sessions and the part of the last.\<close>

definition since_zero :: "rat Shape \<Rightarrow> instant \<Rightarrow> rat" where
  "since_zero s t = sum_list (Expected s) * of_int (t div Session) + cumulative s (t mod Session)"

lemma since_zero_step:
  assumes "shape_ok s"
  shows "since_zero s (t + 1) = since_zero s t + density s t"
proof -
  have S: "0 < Session" by (simp add: Session_def)
  define q where "q = t div Session"
  define r where "r = t mod Session"
  have split: "t = Session * q + r" "0 \<le> r" "r < Session" using S by (simp_all add: r_def q_def)
  have dens: "density s t = density s r" by (simp add: density_def r_def)
  show ?thesis
  proof (cases "r + 1 < Session")
    case True
    have "(t + 1) div Session = q" "(t + 1) mod Session = r + 1"
      using True split by (auto intro!: int_div_pos_eq [of _ _ _ "r + 1"] int_mod_pos_eq [of _ _ q])
    then show ?thesis
      using cumulative_step [OF assms split(2,3)] dens by (simp add: since_zero_def flip: q_def r_def)
  next
    case False
    then have last: "r + 1 = Session" using split by simp
    have "(t + 1) div Session = q + 1" "(t + 1) mod Session = 0"
      using last split by (auto intro!: int_div_pos_eq [of _ _ _ 0] int_mod_pos_eq [of _ _ "q + 1"] simp: algebra_simps)
    then show ?thesis
      using cumulative_step [OF assms split(2,3)] dens last cumulative_ends [OF assms]
      by (simp add: since_zero_def algebra_simps flip: q_def r_def)
  qed
qed

lemma expected_volume_since_zero:
  assumes "shape_ok s" and "from \<le> to"
  shows "expected_volume s from to = since_zero s to - since_zero s from"
  using assms(2)
proof (induction to rule: int_ge_induct)
  case (step t)
  have "{from..<t + 1} = insert t {from..<t}" using step.hyps by auto
  then show ?case using step since_zero_step [OF assms(1), of t] by (simp add: expected_volume_def)
qed (simp add: expected_volume_def)

lemma density_nonneg:
  assumes "shape_ok s"
  shows "0 \<le> density s t"
proof -
  have S: "0 < Session" by (simp add: Session_def)
  have ok: "0 < Bucket s" "int (length (Expected s)) * Bucket s = Session" "\<forall>e\<in>set (Expected s). 0 \<le> e"
    using assms by (simp_all add: shape_ok_def)
  define off where "off = t mod Session"
  have off: "0 \<le> off" "off < int (length (Expected s)) * Bucket s" using S ok by (simp_all add: off_def)
  then have "off div Bucket s < int (length (Expected s))"
    using ok mult_div_mod_eq [of "Bucket s" off] pos_mod_sign [of "Bucket s" off]
    by (smt (verit) mult.commute mult_le_cancel_left_pos)
  then have "nat (off div Bucket s) < length (Expected s)"
    using off ok by (simp add: nat_less_iff pos_imp_zdiv_nonneg_iff)
  then show ?thesis using ok by (simp add: density_def off_def)
qed

lemma expectedOver_value:
  assumes ok: "shape_ok s" and le: "from \<le> to" and range: "to - from + Session \<le> MaxDuration"
    and horizon: "\<not> (Horizon s > 0 \<and> time_Sub to from > Horizon s)"
  shows "expectedOver s from to = Some (expected_volume s from to)"
proof -
  have S: "0 < Session" by (simp add: Session_def)
  have trunc: "Truncate t Session = Session * (t div Session)" for t
    using S by (simp add: Truncate_def minus_mod_eq_mult_div)
  have mono: "from div Session \<le> to div Session" using le S by (rule zdiv_mono1)
  have bound: "Session * (to div Session) - Session * (from div Session) \<le> MaxDuration"
  proof -
    have "Session * (to div Session) \<le> to" "from - Session \<le> Session * (from div Session)"
      using S mult_div_mod_eq [of Session to] mult_div_mod_eq [of Session "from"] pos_mod_sign [of Session to]
        pos_mod_bound [of Session "from"] by linarith+
    then show ?thesis using range by linarith
  qed
  have diff: "Session * (to div Session) - Session * (from div Session) = Session * (to div Session - from div Session)"
    by (simp add: right_diff_distrib)
  have "0 \<le> Session * (to div Session - from div Session)" using mono S by simp
  then have "time_Sub (Truncate to Session) (Truncate from Session) sdiv Session = to div Session - from div Session"
    using bound S sdiv_nonneg(1) [OF S] unfolding trunc time_Sub_def diff MaxDuration_def by simp
  moreover have "expected_volume s from to = sum_list (Expected s) * of_int (to div Session - from div Session)
      + prefixExpected s to - prefixExpected s from"
    by (simp add: expected_volume_since_zero [OF ok le] since_zero_def prefixExpected_cumulative [OF ok] algebra_simps)
  moreover have "0 \<le> expected_volume s from to" by (simp add: expected_volume_def sum_nonneg density_nonneg [OF ok])
  moreover have "Expected s \<noteq> []" "0 < Bucket s" using ok S by (auto simp: shape_ok_def)
  ultimately show ?thesis
    using le horizon unfolding expectedOver_def Let_def by (auto simp: foldl_plus_sum_list)
qed

text \<open>
  The view integrates the curve. Over any interval that moves forward, within the horizon and within the range of
  a duration, a validated curve answers, and the answer is the sum over every nanosecond of the interval of the
  density of its bucket. In particular answers for adjacent intervals add up, whatever boundaries they straddle.
\<close>

theorem expectedOver_integrates:
  assumes "NewPinned sh version = Inr pin" and "from \<le> to" and "to - from + Session \<le> MaxDuration"
    and "Horizon (pin_shape pin) = 0 \<or> to - from \<le> Horizon (pin_shape pin)"
  shows "expectedOver (pin_shape pin) from to = Some (expected_volume (pin_shape pin) from to)"
  using assms by (intro expectedOver_value NewPinned_ok) (auto simp: time_Sub_def MaxDuration_def)

definition sample_shape :: "rat option Shape" where
  "sample_shape = \<lparr>sh_InstrumentID = ''BTC'', Bucket = 43200000000000, Horizon = 0, Expected = [Some 2, Some 3]\<rparr>"

definition sample_pin :: Pinned where
  "sample_pin = \<lparr>pin_shape = \<lparr>sh_InstrumentID = ''BTC'', Bucket = 43200000000000, Horizon = 0, Expected = [2, 3]\<rparr>,
     pin_version = ''v1''\<rparr>"

lemma sample_pinned: "NewPinned sample_shape ''v1'' = Inr sample_pin"
  by (simp add: NewPinned_def sample_shape_def sample_pin_def shape_validate_def BucketsPerSession_def Session_def
      sdiv_nonneg)

text \<open>From noon to noon of the next day: one afternoon of 3 and one morning of 2.\<close>

theorem expectedOver_integrates_witness:
  "expected_volume (pin_shape sample_pin) 43200000000000 129600000000000 = 5"
proof -
  have "expectedOver (pin_shape sample_pin) 43200000000000 129600000000000 = Some 5"
    by (simp add: expectedOver_def sample_pin_def prefixExpected_def time_Sub_def MaxDuration_def Truncate_def Session_def
        sdiv_nonneg)
  then show ?thesis
    using expectedOver_integrates [OF sample_pinned, of 43200000000000 129600000000000]
    by (simp add: Session_def MaxDuration_def sample_pin_def)
qed

section \<open>Volume-weighted schedules follow the curve\<close>

lemma expected_volume_split:
  assumes "shape_ok s" and "a \<le> b" and "b \<le> c"
  shows "expected_volume s a c = expected_volume s a b + expected_volume s b c"
  using assms by (simp add: expected_volume_since_zero)

lemma plan_span_le: "Start p < End p \<Longrightarrow> 0 < plan_span p \<and> plan_span p \<le> End p - Start p"
  using time_Sub_pos by (simp add: plan_span_def)

lemma boundary_mono:
  assumes "0 < sint (Slices p)" and "Start p < End p" and "0 \<le> i" and "i < sint (Slices p)"
    and "boundary p i = Some a" and "boundary p (i + 1) = Some b"
  shows "a \<le> b" and "Start p \<le> a" and "b \<le> Start p + plan_span p"
proof -
  note sp = plan_span_le [OF assms(2)]
  have a: "a = Start p + plan_span p * i div sint (Slices p)" and b: "b = Start p + plan_span p * (i + 1) div sint (Slices p)"
    using boundary_exact [OF assms(1,2), of i] boundary_exact [OF assms(1,2), of "i + 1"] assms(3-6) by simp_all
  show "a \<le> b" unfolding a b using sp assms(1) by (intro add_left_mono zdiv_mono1 mult_left_mono) simp_all
  show "Start p \<le> a" unfolding a using offset_bounds(1) [of "plan_span p" i "sint (Slices p)"] sp assms by simp
  have "plan_span p * (i + 1) div sint (Slices p) \<le> plan_span p * sint (Slices p) div sint (Slices p)"
    using sp assms by (intro zdiv_mono1 mult_left_mono) simp_all
  then show "b \<le> Start p + plan_span p" unfolding b using assms(1) by simp
qed

lemma slice_volumes:
  assumes ok: "shape_ok s" and n: "0 < sint (Slices p)" "Start p < End p"
    and vs: "\<forall>i < k. \<exists>a b. boundary p (int i) = Some a \<and> boundary p (int i + 1) = Some b \<and> vs ! i = expected_volume s a b"
    and k: "int k \<le> sint (Slices p)" "k \<le> length vs" and bk: "boundary p (int k) = Some e"
  shows "sum_list (take k vs) = expected_volume s (Start p) e"
  using vs k bk
proof (induction k arbitrary: e)
  case 0
  then show ?case using boundary_ends(1) [OF n] by (simp add: expected_volume_def)
next
  case (Suc k)
  obtain a b where ab: "boundary p (int k) = Some a" "boundary p (int k + 1) = Some b" "vs ! k = expected_volume s a b"
    using Suc.prems(1) by blast
  have e: "e = b" using ab(2) Suc.prems(4) by (simp add: add.commute)
  have "sum_list (take k vs) = expected_volume s (Start p) a" using Suc.prems ab by (intro Suc.IH) auto
  moreover have "Start p \<le> a" "a \<le> b" using boundary_mono [OF n _ _ ab(1,2)] Suc.prems by simp_all
  ultimately show ?case
    using Suc.prems ab expected_volume_split [OF ok, of "Start p" a b] by (simp add: take_Suc_conv_app_nth e)
qed

text \<open>
  C16: A VWAP schedule against a pinned curve gives every slice the share of the parent that the curve's volume in that
  slice's own interval is of its volume over the whole window, exactly: the intervals the slices are sized against
  tile the window.
\<close>

theorem vwap_follows_curve:
  assumes "NewPinned sh version = Inr pin" and "vwap p (Some (pinned_view pin)) = Inr ss"
    and "End p - Start p + Session \<le> MaxDuration" and "i < length ss"
  shows "\<exists>from to. Interval p (int i) = Some (from, to) \<and> sl_Due (ss ! i) = from
    \<and> 0 < expected_volume (pin_shape pin) (Start p) (End p)
    \<and> sl_Quantity (ss ! i) = the (Total p) * expected_volume (pin_shape pin) from to
        / expected_volume (pin_shape pin) (Start p) (End p)"
proof -
  define s where "s = pin_shape pin"
  have ok: "shape_ok s" using NewPinned_ok [OF assms(1)] by (simp add: s_def)
  obtain vs tot where v: "plan_validate p = None" and ev: "expectedVolumes p (Some (pinned_view pin)) = Inr (vs, tot)"
    and w: "weighted p vs ss" using assms(2) by (auto simp: vwap_weighted)
  have n: "0 < sint (Slices p)" "Start p < End p" using v by (auto simp: plan_validate_None)
  note vol = expectedVolumes_Inr [OF ev]
  have sp: "plan_span p = End p - Start p"
    using n(2) assms(3) by (simp add: plan_span_def time_Sub_def MaxDuration_def Session_def)
  have each: "\<exists>a b. boundary p (int j) = Some a \<and> boundary p (int j + 1) = Some b \<and> vs ! j = expected_volume s a b"
    if jn: "j < slices_of p" for j
  proof -
    obtain a b where ab: "boundary p (int j) = Some a" "boundary p (int j + 1) = Some b"
      and q: "pinned_ExpectedVolume pin (plan_InstrumentID p) a b = Some (vs ! j)"
      using ev jn by (auto simp: expectedVolumes_def ask_volumes_Inr list_all2_slice_range pinned_view_def
          split: if_splits sum.splits)
    have j: "int j < sint (Slices p)" using jn n by linarith
    have le: "a \<le> b" and inside: "Start p \<le> a" "b \<le> End p" using boundary_mono [OF n _ j ab] sp by simp_all
    have "expectedOver s a b = Some (vs ! j)" using q by (simp add: pinned_ExpectedVolume_def s_def split: if_splits)
    moreover have "expectedOver s a b = Some (expected_volume s a b)"
      using calculation le inside assms(3) by (intro expectedOver_value [OF ok]) (auto simp: expectedOver_def split: if_splits)
    ultimately show ?thesis using ab by simp
  qed
  have "sum_list (take (slices_of p) vs) = expected_volume s (Start p) (End p)"
    using each n vol(1) boundary_ends(2) [OF n] sp by (intro slice_volumes [OF ok n]) auto
  then have total: "sum_list vs = expected_volume s (Start p) (End p)" using vol(1) by simp
  have "vs \<noteq> []" using vol(1) n by auto
  then have pos: "0 < expected_volume s (Start p) (End p)" using sum_list_pos [of vs] vol(2) total by simp
  have i: "i < slices_of p" using assms(4) w by (simp add: weighted_def)
  obtain a b where ab: "boundary p (int i) = Some a" "boundary p (int i + 1) = Some b" "vs ! i = expected_volume s a b"
    using each [OF i] by blast
  then have "Interval p (int i) = Some (a, b)" using i n by (simp add: Interval_def)
  moreover have "sl_Due (ss ! i) = a" "sl_Quantity (ss ! i) = the (Total p) * vs ! i / sum_list vs"
    using w i ab by (auto simp: weighted_def)
  ultimately show ?thesis using pos total ab by (auto simp: s_def)
qed

definition noon_plan :: Plan where
  "noon_plan = \<lparr>Algo = ''VWAP'', plan_InstrumentID = ''BTC'', Total = Some 10, Start = 43200000000000,
     End = 129600000000000, Slices = 2, MaxSlice = None, MaxParticipation = None\<rparr>"

lemma noon_plan_fields:
  "plan_InstrumentID noon_plan = ''BTC''" "Total noon_plan = Some 10" "sint (Slices noon_plan) = 2" "MaxSlice noon_plan = None"
  "Start noon_plan = 43200000000000" "End noon_plan = 129600000000000"
  by (simp_all add: noon_plan_def)

lemma noon_boundary:
  "boundary noon_plan 0 = Some 43200000000000" "boundary noon_plan 1 = Some 86400000000000"
  "boundary noon_plan 2 = Some 129600000000000" "slice_range noon_plan = [0, 1]"
  by (simp_all add: boundary_exact noon_plan_fields plan_span_def time_Sub_def MaxDuration_def slice_range_def upt_rec)

lemma noon_volumes:
  "ExpectedVolume (pinned_view sample_pin) ''BTC'' 43200000000000 86400000000000 = Some (Some 3)"
  "ExpectedVolume (pinned_view sample_pin) ''BTC'' 86400000000000 129600000000000 = Some (Some 2)"
  by (simp_all add: pinned_view_def pinned_ExpectedVolume_def expectedOver_def sample_pin_def prefixExpected_def time_Sub_def
      MaxDuration_def Truncate_def Session_def sdiv_nonneg)

lemma noon_schedule:
  "vwap noon_plan (Some (pinned_view sample_pin)) = Inr [\<lparr>sl_Index = 0, sl_Due = 43200000000000, sl_Quantity = 6\<rparr>,
     \<lparr>sl_Index = 1, sl_Due = 86400000000000, sl_Quantity = 4\<rparr>]"
  by (simp add: vwap_def plan_validate_def expectedVolumes_def allocateProportional_def noon_plan_fields noon_boundary
      noon_volumes exceeds_cap_def Let_def)

theorem vwap_follows_curve_witness:
  "6 = 10 * expected_volume (pin_shape sample_pin) 43200000000000 86400000000000
      / expected_volume (pin_shape sample_pin) 43200000000000 129600000000000"
  using vwap_follows_curve [OF sample_pinned noon_schedule, of 0]
  by (simp add: noon_plan_fields MaxDuration_def Session_def Interval_def noon_boundary)

end
