(* ===== verification/Pit_Store.thy ===== *)
theory Pit_Store
  imports Kanz_Prelude
begin

text \<open>
  The point-in-time version list \<open>internal/pit/pit.go\<close>: values published at instants, kept to a horizon behind the
  newest and resolved at or before a given instant. \<open>sort.Search\<close> is Go's binary search. Lists are values here: that
  \<open>DropOldest\<close> clears what it releases affects only what the garbage collector may reclaim.
\<close>

record 'v Version =
  v_AsOf :: instant
  v_V :: 'v

section \<open>Operations\<close>

function search_loop :: "(nat \<Rightarrow> bool) \<Rightarrow> nat \<Rightarrow> nat \<Rightarrow> nat" where
  "search_loop f i j =
     (if i < j then let h = (i + j) div 2 in if \<not> f h then search_loop f (h + 1) j else search_loop f i h else i)"
  by auto
termination
  by (relation "measure (\<lambda>(f, i, j). j - i)") auto

declare search_loop.simps [simp del]

definition sort_Search :: "nat \<Rightarrow> (nat \<Rightarrow> bool) \<Rightarrow> nat" where
  "sort_Search n f = search_loop f 0 n"

definition DropOldest :: "'v list \<Rightarrow> nat \<Rightarrow> 'v list" where
  "DropOldest xs n = drop n xs"

definition insert_version :: "'v Version list \<Rightarrow> instant \<Rightarrow> 'v \<Rightarrow> 'v Version list" where
  "insert_version vs asOf v =
     (let i = sort_Search (length vs) (\<lambda>i. \<not> v_AsOf (vs ! i) < asOf) in
      if i < length vs \<and> v_AsOf (vs ! i) = asOf then vs[i := (vs ! i)\<lparr>v_V := v\<rparr>]
      else take i vs @ \<lparr>v_AsOf = asOf, v_V = v\<rparr> # drop i vs)"

definition pit_Put :: "'v Version list \<Rightarrow> instant \<Rightarrow> 'v \<Rightarrow> duration \<Rightarrow> 'v Version list \<times> nat" where
  "pit_Put vs asOf v horizon =
     (let vs = insert_version vs asOf v in
      if horizon \<le> 0 \<or> vs = [] then (vs, 0)
      else
        let cutoff = v_AsOf (vs ! (length vs - 1)) - horizon;
            n = sort_Search (length vs) (\<lambda>i. \<not> v_AsOf (vs ! i) < cutoff)
        in if n = 0 then (vs, 0) else (DropOldest vs n, n))"

definition pit_At :: "'v Version list \<Rightarrow> instant \<Rightarrow> 'v option" where
  "pit_At vs asOf =
     (let i = sort_Search (length vs) (\<lambda>i. v_AsOf (vs ! i) > asOf) in
      if i = 0 then None else Some (v_V (vs ! (i - 1))))"

definition DefaultHorizon :: duration where
  "DefaultHorizon = 7 * 24 * 3600000000000"

definition pit_Horizon :: "duration \<Rightarrow> duration" where
  "pit_Horizon d = (if d \<le> 0 then DefaultHorizon else d)"

section \<open>Binary search\<close>

lemma search_loop_boundary:
  assumes "i \<le> j" and "\<And>a b. i \<le> a \<Longrightarrow> a \<le> b \<Longrightarrow> b < j \<Longrightarrow> f a \<Longrightarrow> f b"
  shows "i \<le> search_loop f i j \<and> search_loop f i j \<le> j
    \<and> (\<forall>k. i \<le> k \<and> k < search_loop f i j \<longrightarrow> \<not> f k) \<and> (\<forall>k. search_loop f i j \<le> k \<and> k < j \<longrightarrow> f k)"
  using assms
proof (induction f i j rule: search_loop.induct)
  case (1 f i j)
  show ?case
  proof (cases "i < j")
    case True
    define h where "h = (i + j) div 2"
    have h: "i \<le> h" "h < j" using True by (auto simp: h_def)
    show ?thesis
    proof (cases "f h")
      case fh: True
      have "i \<le> search_loop f i h \<and> search_loop f i h \<le> h
          \<and> (\<forall>k. i \<le> k \<and> k < search_loop f i h \<longrightarrow> \<not> f k) \<and> (\<forall>k. search_loop f i h \<le> k \<and> k < h \<longrightarrow> f k)"
      proof (rule 1(2) [OF True h_def])
        show "f b" if "i \<le> a" "a \<le> b" "b < h" "f a" for a b using 1(4) [OF that(1,2) _ that(4)] that(3) h by linarith
      qed (use fh h in simp_all)
      moreover have "f k" if "h \<le> k" "k < j" for k using 1(4) [OF h(1) that] fh by blast
      moreover have "search_loop f i j = search_loop f i h"
        using True fh by (simp add: search_loop.simps [of f i j] Let_def flip: h_def)
      ultimately show ?thesis using h by (metis less_imp_le_nat linorder_not_le order_trans)
    next
      case fh: False
      have "h + 1 \<le> search_loop f (h + 1) j \<and> search_loop f (h + 1) j \<le> j
          \<and> (\<forall>k. h + 1 \<le> k \<and> k < search_loop f (h + 1) j \<longrightarrow> \<not> f k) \<and> (\<forall>k. search_loop f (h + 1) j \<le> k \<and> k < j \<longrightarrow> f k)"
      proof (rule 1(1) [OF True h_def])
        show "f b" if "h + 1 \<le> a" "a \<le> b" "b < j" "f a" for a b using 1(4) [OF _ that(2,3,4)] that(1) h by linarith
      qed (use fh h in simp_all)
      moreover have "\<not> f k" if "i \<le> k" "k \<le> h" for k using 1(4) [OF that h(2)] fh by blast
      moreover have "search_loop f i j = search_loop f (h + 1) j"
        using True fh by (simp add: search_loop.simps [of f i j] Let_def flip: h_def)
      ultimately show ?thesis using h by (metis Suc_eq_plus1 not_less_eq_eq Suc_leD order_trans)
    qed
  next
    case False
    then show ?thesis using 1(3) by (auto simp: search_loop.simps)
  qed
qed

lemma sort_Search_prefix:
  assumes "\<And>a b. a \<le> b \<Longrightarrow> b < length vs \<Longrightarrow> Q (vs ! b) \<Longrightarrow> Q (vs ! a)"
  shows "sort_Search (length vs) (\<lambda>i. \<not> Q (vs ! i)) = length (takeWhile Q vs)"
proof -
  define r where "r = sort_Search (length vs) (\<lambda>i. \<not> Q (vs ! i))"
  have "0 \<le> r \<and> r \<le> length vs \<and> (\<forall>k. 0 \<le> k \<and> k < r \<longrightarrow> \<not> \<not> Q (vs ! k))
      \<and> (\<forall>k. r \<le> k \<and> k < length vs \<longrightarrow> \<not> Q (vs ! k))"
    unfolding r_def sort_Search_def by (rule search_loop_boundary) (use assms in blast)+
  then have "r \<le> length vs" and below: "\<And>k. k < r \<Longrightarrow> Q (vs ! k)" and "\<And>k. r \<le> k \<Longrightarrow> k < length vs \<Longrightarrow> \<not> Q (vs ! k)"
    by blast+
  moreover from this have "takeWhile Q vs = take r vs" by (intro takeWhile_eq_take_P_nth) blast+
  ultimately show ?thesis by (simp flip: r_def)
qed

section \<open>Version lists as timelines\<close>

definition in_order :: "'v Version list \<Rightarrow> bool" where
  "in_order vs \<longleftrightarrow> sorted_wrt (<) (map v_AsOf vs)"

definition timeline :: "'v Version list \<Rightarrow> instant \<rightharpoonup> 'v" where
  "timeline vs = map_of (map (\<lambda>x. (v_AsOf x, v_V x)) vs)"

lemma in_order_nth: "in_order vs \<Longrightarrow> a \<le> b \<Longrightarrow> b < length vs \<Longrightarrow> v_AsOf (vs ! a) \<le> v_AsOf (vs ! b)"
  by (cases "a = b") (auto simp: in_order_def sorted_wrt_iff_nth_less less_imp_le)

lemma search_before:
  assumes "in_order vs"
  shows "sort_Search (length vs) (\<lambda>i. \<not> v_AsOf (vs ! i) < t) = length (takeWhile (\<lambda>x. v_AsOf x < t) vs)"
    and "sort_Search (length vs) (\<lambda>i. v_AsOf (vs ! i) > t) = length (takeWhile (\<lambda>x. v_AsOf x \<le> t) vs)"
  using sort_Search_prefix [of vs "\<lambda>x. v_AsOf x < t"] sort_Search_prefix [of vs "\<lambda>x. v_AsOf x \<le> t"] in_order_nth [OF assms]
  by (auto simp: not_le intro: le_less_trans order_trans)

lemma in_order_append: "in_order (xs @ ys) \<longleftrightarrow> in_order xs \<and> in_order ys \<and> (\<forall>x\<in>set xs. \<forall>y\<in>set ys. v_AsOf x < v_AsOf y)"
  by (auto simp: in_order_def sorted_wrt_append)

lemma in_order_Cons: "in_order (x # ys) \<longleftrightarrow> in_order ys \<and> (\<forall>y\<in>set ys. v_AsOf x < v_AsOf y)"
  by (auto simp: in_order_def)

text \<open>In an ordered list the versions before an instant are a prefix, so both scans are filters.\<close>

lemma takeWhile_filter:
  assumes "in_order vs"
  shows "takeWhile (\<lambda>x. v_AsOf x < t) vs = filter (\<lambda>x. v_AsOf x < t) vs" (is ?A)
    and "dropWhile (\<lambda>x. v_AsOf x < t) vs = filter (\<lambda>x. \<not> v_AsOf x < t) vs" (is ?B)
    and "takeWhile (\<lambda>x. v_AsOf x \<le> t) vs = filter (\<lambda>x. v_AsOf x \<le> t) vs" (is ?C)
proof -
  have none: "filter P xs = []" if "\<forall>x\<in>set xs. \<not> P x" for P and xs :: "'a Version list"
    using that by (simp add: filter_empty_conv)
  have all: "filter P xs = xs" if "\<forall>x\<in>set xs. P x" for P and xs :: "'a Version list"
    using that by (simp add: filter_id_conv)
  have "?A \<and> ?B \<and> ?C" using assms
    by (induction vs) (force simp: in_order_Cons intro!: none [symmetric] all [symmetric])+
  then show ?A ?B ?C by blast+
qed

definition version_at :: "instant \<Rightarrow> 'v \<Rightarrow> 'v Version" where
  "version_at t v = \<lparr>v_AsOf = t, v_V = v\<rparr>"

lemma insert_version_ordered:
  assumes "in_order vs"
  shows "insert_version vs asOf v = filter (\<lambda>x. v_AsOf x < asOf) vs @ version_at asOf v # filter (\<lambda>x. asOf < v_AsOf x) vs"
proof -
  define xs where "xs = filter (\<lambda>x. v_AsOf x < asOf) vs"
  define ys where "ys = filter (\<lambda>x. \<not> v_AsOf x < asOf) vs"
  have vs: "vs = xs @ ys"
    using takeWhile_dropWhile_id [of "\<lambda>x. v_AsOf x < asOf" vs] takeWhile_filter [OF assms] by (simp add: xs_def ys_def)
  have ord: "in_order ys" using assms vs by (simp add: in_order_append)
  have i: "sort_Search (length vs) (\<lambda>i. \<not> v_AsOf (vs ! i) < asOf) = length xs"
    using search_before(1) [OF assms] takeWhile_filter(1) [OF assms] by (simp add: xs_def)
  have later: "filter (\<lambda>x. asOf < v_AsOf x) vs = filter (\<lambda>x. v_AsOf x \<noteq> asOf) ys"
    by (auto simp: ys_def filter_filter intro: filter_cong)
  show ?thesis
  proof (cases ys)
    case Nil
    then show ?thesis unfolding insert_version_def i Let_def xs_def [symmetric] later by (simp add: vs version_at_def)
  next
    case (Cons y zs)
    have zs: "\<forall>z\<in>set zs. v_AsOf z \<noteq> asOf"
      using ord Cons filter_is_subset [of "\<lambda>x. \<not> v_AsOf x < asOf" vs] by (fastforce simp: in_order_Cons ys_def dest: filter_eq_ConsD)
    then have fz: "filter (\<lambda>x. v_AsOf x \<noteq> asOf) zs = zs" by (simp add: filter_id_conv)
    show ?thesis
    proof (cases "v_AsOf y = asOf")
      case True
      have "y\<lparr>v_V := v\<rparr> = version_at asOf v" using True by (simp add: version_at_def Version.equality)
      then show ?thesis
        using True Cons fz unfolding insert_version_def i Let_def xs_def [symmetric] later
        by (simp add: vs list_update_append)
    next
      case False
      then show ?thesis
        using Cons fz unfolding insert_version_def i Let_def xs_def [symmetric] later
        by (simp add: vs version_at_def)
    qed
  qed
qed

lemma insert_version_props:
  assumes "in_order vs"
  shows "in_order (insert_version vs asOf v)" and "insert_version vs asOf v \<noteq> []"
    and "x \<in> set (insert_version vs asOf v) \<longleftrightarrow> x = version_at asOf v \<or> (x \<in> set vs \<and> v_AsOf x \<noteq> asOf)"
proof -
  have "in_order (filter P vs)" for P
    using assms by (simp add: in_order_def sorted_wrt_map sorted_wrt_filter)
  then show "in_order (insert_version vs asOf v)"
    by (simp add: insert_version_ordered [OF assms] in_order_append in_order_Cons version_at_def)
qed (auto simp: insert_version_ordered [OF assms])

lemma pit_Put_ordered:
  assumes "in_order vs" and "0 < horizon"
  shows "fst (pit_Put vs asOf v horizon) =
    (let ws = insert_version vs asOf v in filter (\<lambda>x. v_AsOf (last ws) - horizon \<le> v_AsOf x) ws)"
proof -
  define ws where "ws = insert_version vs asOf v"
  have ws: "in_order ws" "ws \<noteq> []" using insert_version_props [OF assms(1)] by (simp_all add: ws_def)
  define c where "c = v_AsOf (ws ! (length ws - 1)) - horizon"
  have n: "sort_Search (length ws) (\<lambda>i. \<not> v_AsOf (ws ! i) < c) = length (takeWhile (\<lambda>x. v_AsOf x < c) ws)"
    by (rule search_before(1) [OF ws(1)])
  have "drop (length (takeWhile (\<lambda>x. v_AsOf x < c) ws)) ws = filter (\<lambda>x. c \<le> v_AsOf x) ws"
    using takeWhile_filter(2) [OF ws(1), of c] by (simp add: dropWhile_eq_drop not_less)
  then show ?thesis
    using assms(2) ws(2) n unfolding pit_Put_def ws_def [symmetric] Let_def last_conv_nth [OF ws(2)] c_def [symmetric]
    by (auto simp: DropOldest_def)
qed

lemma pit_At_ordered:
  assumes "in_order vs"
  shows "pit_At vs t = (let us = filter (\<lambda>x. v_AsOf x \<le> t) vs in if us = [] then None else Some (v_V (last us)))"
proof -
  have tw: "takeWhile (\<lambda>x. v_AsOf x \<le> t) vs = filter (\<lambda>x. v_AsOf x \<le> t) vs" by (rule takeWhile_filter(3) [OF assms])
  have "vs ! (length (takeWhile P vs) - 1) = last (takeWhile P vs)" if "takeWhile P vs \<noteq> []" for P
    using that takeWhile_nth [of "length (takeWhile P vs) - 1" P vs] by (simp add: last_conv_nth)
  from this [of "\<lambda>x. v_AsOf x \<le> t"] show ?thesis
    unfolding pit_At_def search_before(2) [OF assms] tw Let_def by (simp add: tw)
qed

lemma last_in_order:
  assumes "in_order us" and "us \<noteq> []"
  shows "v_AsOf (last us) = Max (v_AsOf ` set us)"
  using assms
proof (induction us rule: rev_induct)
  case (snoc x us)
  then show ?case by (intro Max_eqI [symmetric]) (auto simp: in_order_append intro: less_imp_le)
qed simp

text \<open>A history of publications, each at its instant, and what the list is after it.\<close>

definition publications :: "duration \<Rightarrow> (instant \<times> 'v) list \<Rightarrow> 'v Version list" where
  "publications h es = foldl (\<lambda>vs (t, v). fst (pit_Put vs t v h)) [] es"

definition retained_instants :: "duration \<Rightarrow> (instant \<times> 'v) list \<Rightarrow> instant set" where
  "retained_instants h es = {u \<in> fst ` set es. Max (fst ` set es) - h \<le> u}"

lemma publications_invariant:
  assumes "0 < h"
  shows "in_order (publications h es)"
    and "x \<in> set (publications h es) \<longleftrightarrow> v_AsOf x \<in> retained_instants h es \<and> x = version_at (v_AsOf x) (the (map_of (rev es) (v_AsOf x)))"
proof -
  have "in_order (publications h es) \<and> (\<forall>x. x \<in> set (publications h es) \<longleftrightarrow>
      v_AsOf x \<in> retained_instants h es \<and> x = version_at (v_AsOf x) (the (map_of (rev es) (v_AsOf x))))"
  proof (induction es rule: rev_induct)
    case Nil
    then show ?case by (simp add: publications_def in_order_def retained_instants_def)
  next
    case (snoc e es)
    obtain t v where e: "e = (t, v)" by (cases e)
    define vs where "vs = publications h es"
    define ws where "ws = insert_version vs t v"
    have ord: "in_order vs" and mem: "\<And>x. x \<in> set vs \<longleftrightarrow>
        v_AsOf x \<in> retained_instants h es \<and> x = version_at (v_AsOf x) (the (map_of (rev es) (v_AsOf x)))"
      using snoc by (auto simp: vs_def)
    have ws: "in_order ws" "ws \<noteq> []" and mw: "\<And>x. x \<in> set ws \<longleftrightarrow> x = version_at t v \<or> (x \<in> set vs \<and> v_AsOf x \<noteq> t)"
      using insert_version_props [OF ord] by (simp_all add: ws_def)
    have step: "publications h (es @ [e]) = filter (\<lambda>x. v_AsOf (last ws) - h \<le> v_AsOf x) ws"
    proof -
      have "publications h (es @ [e]) = fst (pit_Put vs t v h)" by (simp add: publications_def e vs_def)
      then show ?thesis using pit_Put_ordered [OF ord assms, of t v] by (simp add: Let_def flip: ws_def)
    qed
    have newest: "v_AsOf (last ws) = Max (fst ` set (es @ [e]))"
    proof -
      have fin: "finite (fst ` set es)" by simp
      have "v_AsOf (last ws) = Max (v_AsOf ` set ws)" by (rule last_in_order [OF ws])
      also have "v_AsOf ` set ws = insert t (retained_instants h es)"
      proof -
        have "u \<in> v_AsOf ` set vs" if "u \<in> retained_instants h es" for u
          using mem [of "version_at u (the (map_of (rev es) u))"] that by (force simp: version_at_def)
        then have img: "v_AsOf ` set vs = retained_instants h es" using mem by blast
        have "set ws = insert (version_at t v) {x \<in> set vs. v_AsOf x \<noteq> t}" using mw by blast
        then show ?thesis by (auto simp: version_at_def simp flip: img)
      qed
      also have "Max \<dots> = Max (insert t (fst ` set es))"
      proof (cases "es = []")
        case False
        then have "Max (fst ` set es) \<in> retained_instants h es" using assms by (simp add: retained_instants_def)
        moreover have "finite (retained_instants h es)" by (simp add: retained_instants_def)
        moreover have "u \<le> Max (fst ` set es)" if "u \<in> retained_instants h es" for u
          using that Max_ge [OF fin] by (simp add: retained_instants_def)
        ultimately have "Max (retained_instants h es) = Max (fst ` set es)" "retained_instants h es \<noteq> {}"
          by (auto intro: Max_eqI)
        then show ?thesis using False \<open>finite (retained_instants h es)\<close> by simp
      qed (simp add: retained_instants_def)
      finally show ?thesis by (simp add: e)
    qed
    have "in_order (filter P ws)" for P using ws(1) by (simp add: in_order_def sorted_wrt_map sorted_wrt_filter)
    moreover have "x \<in> set (publications h (es @ [e])) \<longleftrightarrow> v_AsOf x \<in> retained_instants h (es @ [e])
        \<and> x = version_at (v_AsOf x) (the (map_of (rev (es @ [e])) (v_AsOf x)))" for x
    proof -
      have grow: "Max (fst ` set es) - h \<le> u" if "(u, b) \<in> set es" "Max (insert t (fst ` set es)) - h \<le> u" for u b
      proof -
        have "Max (fst ` set es) \<le> Max (insert t (fst ` set es))" using that(1) by (intro Max_mono) auto
        then show ?thesis using that(2) by linarith
      qed
      show ?thesis
        using grow mem [of x] unfolding step newest
        by (cases "v_AsOf x = t") (auto simp: mw e retained_instants_def version_at_def split: if_splits)
    qed
    ultimately show ?case by (simp add: step)
  qed
  then show "in_order (publications h es)"
    and "x \<in> set (publications h es) \<longleftrightarrow> v_AsOf x \<in> retained_instants h es \<and> x = version_at (v_AsOf x) (the (map_of (rev es) (v_AsOf x)))"
    by blast+
qed

text \<open>
  C18: A version list answers as the whole timeline of publications, restricted to the horizon behind the newest. After
  any history of publications, in any order of instants and with republications, a read returns the last value
  published for the greatest retained instant not after the one asked, and nothing when there is none; and the list
  is never empty once something was published, however old.
\<close>

theorem pit_answers_timeline:
  assumes "0 < h"
  shows "pit_At (publications h es) t =
      (let us = {u \<in> retained_instants h es. u \<le> t} in if us = {} then None else map_of (rev es) (Max us))
    \<and> (publications h es = [] \<longleftrightarrow> es = [])"
proof
  define vs where "vs = publications h es"
  define us where "us = filter (\<lambda>x. v_AsOf x \<le> t) vs"
  note inv = publications_invariant [OF assms, where es = es, folded vs_def]
  have dom: "u \<in> retained_instants h es \<Longrightarrow> \<exists>v. map_of (rev es) u = Some v" for u
    by (auto simp: retained_instants_def map_of_eq_None_iff simp flip: not_None_eq)
  have mem: "u \<in> v_AsOf ` set vs" if "u \<in> retained_instants h es" for u
    using inv(2) [of "version_at u (the (map_of (rev es) u))"] that by (force simp: version_at_def)
  have img: "v_AsOf ` set us = {u \<in> retained_instants h es. u \<le> t}"
    using inv(2) mem by (force simp: us_def)
  have ord: "in_order us" using inv(1) by (simp add: us_def in_order_def sorted_wrt_map sorted_wrt_filter)
  show "pit_At (publications h es) t =
      (let us = {u \<in> retained_instants h es. u \<le> t} in if us = {} then None else map_of (rev es) (Max us))"
  proof (cases "us = []")
    case True
    then have "{u \<in> retained_instants h es. u \<le> t} = {}" using img by simp
    then show ?thesis using True pit_At_ordered [OF inv(1), of t] by (simp flip: vs_def us_def)
  next
    case False
    then have l: "last us \<in> set vs" and m: "v_AsOf (last us) = Max {u \<in> retained_instants h es. u \<le> t}"
      using last_in_order [OF ord False] img last_in_set [OF False] by (auto simp: us_def)
    then have "last us = version_at (v_AsOf (last us)) (the (map_of (rev es) (v_AsOf (last us))))"
      and r: "v_AsOf (last us) \<in> retained_instants h es" using inv(2) by blast+
    then have "Some (v_V (last us)) = map_of (rev es) (v_AsOf (last us))"
      using dom [OF r] by (metis Version.select_convs(2) option.sel version_at_def)
    moreover have "{u \<in> retained_instants h es. u \<le> t} \<noteq> {}" using img False by (metis image_is_empty set_empty)
    ultimately show ?thesis using False m pit_At_ordered [OF inv(1), of t] by (auto simp: Let_def simp flip: vs_def us_def)
  qed
  show "publications h es = [] \<longleftrightarrow> es = []"
  proof
    assume "publications h es = []"
    then have "retained_instants h es = {}" using mem by (auto simp: vs_def)
    moreover have "Max (fst ` set es) \<in> retained_instants h es" if "es \<noteq> []"
      using that assms by (simp add: retained_instants_def)
    ultimately show "es = []" by blast
  qed (simp add: publications_def)
qed

theorem pit_answers_timeline_witness:
  "pit_At (publications 10 [(5, ''a''), (100, ''b''), (95, ''c''), (100, ''d'')]) 99 = Some ''c''"
proof -
  have "{u \<in> retained_instants 10 [(5, ''a''), (100, ''b''), (95, ''c''), (100, ''d'')]. u \<le> 99} = {95}"
    by (auto simp: retained_instants_def)
  then show ?thesis using pit_answers_timeline [of 10 "[(5, ''a''), (100, ''b''), (95, ''c''), (100, ''d'')]" 99] by (simp add: Let_def)
qed

end
