(* ===== verification/Volume_Feed.thy ===== *)
theory Volume_Feed
  imports Order_Aggregate Market_View Pit_Store
begin

text \<open>
  Published intraday volume curves \<open>internal/volprofilefeed\<close>: the wire form of a curve and its content-derived
  version (\<open>volprofilefeed.go\<close>) and the registry that folds the published curves and resolves a pinned version
  (\<open>registry.go\<close>).

  \<^item> SHA-256 is an argument. \<open>durationpb.Duration.AsDuration\<close> gives the closest duration, and \<open>UnixNano\<close> wraps.
  \<^item> \<open>InDomainDeep\<close> visits every decimal below a message; in this message these are the buckets.
  \<^item> The registry's critical sections are its operations; clones and copies are the values themselves.
\<close>

section \<open>The wire form\<close>

datatype Verdict = VerdictAbsent | VerdictStale | VerdictTooFewSessions | VerdictKnown

record Series =
  ser_InstrumentID :: string
  ser_Venue :: string

record Answer =
  an_Series :: Series
  an_Bucket :: duration
  an_AsOf :: instant
  an_Verdict :: Verdict
  an_Sessions :: int
  an_Oldest :: instant
  an_Newest :: instant
  an_WindowBuckets :: int
  an_WindowObserved :: int
  an_Shares :: "rat option list"
  an_SessionVolume :: "rat option"

record Profile =
  pf_Series :: Series
  pf_Version :: string
  pf_AsOf :: instant
  pf_Bucket :: duration
  pf_Horizon :: duration
  pf_Verdict :: Verdict
  pf_Sessions :: int
  pf_Oldest :: instant
  pf_Newest :: instant
  pf_WindowBuckets :: int
  pf_WindowObserved :: int
  pf_Expected :: "rat list"
  pf_Wire :: "VolumeProfile option"

definition profile_Known :: "Profile \<Rightarrow> bool" where
  "profile_Known p \<longleftrightarrow> pf_Verdict p = VerdictKnown \<and> pf_Expected p \<noteq> []"

text \<open>The numbers of the wire enum: 1 absent, 2 stale, 3 too few sessions, 4 known.\<close>

fun verdictToWire :: "Verdict \<Rightarrow> i32" where
  "verdictToWire VerdictAbsent = 1"
| "verdictToWire VerdictStale = 2"
| "verdictToWire VerdictTooFewSessions = 3"
| "verdictToWire VerdictKnown = 4"

definition verdictFromWire :: "i32 \<Rightarrow> Verdict" where
  "verdictFromWire v =
     (if v = 2 then VerdictStale else if v = 3 then VerdictTooFewSessions else if v = 4 then VerdictKnown else VerdictAbsent)"

definition AsDuration :: "Duration option \<Rightarrow> duration" where
  "AsDuration d =
     (case d of
        None \<Rightarrow> 0
      | Some x \<Rightarrow> max (- MaxDuration - 1) (min MaxDuration (sint (du_seconds x) * 1000000000 + sint (du_nanos x))))"

definition durOf :: "duration \<Rightarrow> Duration" where
  "durOf d = \<lparr>du_seconds = word_of_int (d sdiv 1000000000), du_nanos = word_of_int (d smod 1000000000)\<rparr>"

definition tsOf :: "instant \<Rightarrow> Timestamp option" where
  "tsOf t = (if t = 0 then None else Some (timestamppb_New t))"

definition UnixNano :: "instant \<Rightarrow> int" where
  "UnixNano t = sint (word_of_int (t - unixToInternal * 1000000000) :: i64)"

text \<open>What \<open>versionOf\<close> writes to the hash, in its order; every part ends with a unit separator.\<close>

definition version_parts :: "VolumeProfile \<Rightarrow> string list" where
  "version_parts pb =
     [''volprofile.v1'', vp_instrument_id pb, vp_mic pb, Itoa (AsDuration (vp_session pb)), Itoa (AsDuration (vp_bucket pb)),
      Itoa (AsDuration (vp_horizon pb)), Itoa (sint (vp_verdict pb)), Itoa (uint (vp_sessions pb)),
      Itoa (UnixNano (AsTime (vp_oldest_session pb))), Itoa (UnixNano (AsTime (vp_newest_session pb))),
      Itoa (uint (vp_window_buckets pb)), Itoa (uint (vp_window_observed pb)), Itoa (int (length (vp_expected_volume pb)))]
     @ concat (map (\<lambda>d. [Itoa (sint (coefficient d)), Itoa (sint (exponent d))]) (vp_expected_volume pb))"

definition terminated :: "string list \<Rightarrow> string" where
  "terminated parts = concat (map (\<lambda>p. p @ [CHR 0x1F]) parts)"

definition versionOf :: "(string \<Rightarrow> string) \<Rightarrow> VolumeProfile \<Rightarrow> string" where
  "versionOf sha256 pb = hex_encode (take 16 (sha256 (terminated (version_parts pb))))"

datatype profile_error =
    Unkeyed | No_as_of | Bucket_uneven duration | No_horizon | Known_without_shape nat int | Bad_share nat
  | Inexpressible_bucket nat | Nil_profile | Out_of_domain | Version_mismatch string string | Other_session duration
  | Curve_without_verdict | Wrong_bucket_total nat int | Negative_expected nat rat

fun encode_buckets :: "nat \<Rightarrow> rat \<Rightarrow> rat option list \<Rightarrow> profile_error + decimal list" where
  "encode_buckets i level [] = Inr []"
| "encode_buckets i level (None # ss) = Inl (Bad_share i)"
| "encode_buckets i level (Some sh # ss) =
     (if sh < 0 then Inl (Bad_share i)
      else case ToProtoScaled (Some (sh * level)) of
        None \<Rightarrow> Inl (Inexpressible_bucket i)
      | Some d \<Rightarrow> (case encode_buckets (i + 1) level ss of Inl e \<Rightarrow> Inl e | Inr ds \<Rightarrow> Inr (d # ds)))"

definition encode_curve :: "Answer \<Rightarrow> profile_error + decimal list" where
  "encode_curve a =
     (if an_Verdict a \<noteq> VerdictKnown then Inr []
      else
        let want = BucketsPerSession (an_Bucket a) in
        case an_SessionVolume a of
          None \<Rightarrow> Inl (Known_without_shape (length (an_Shares a)) want)
        | Some level \<Rightarrow>
            if int (length (an_Shares a)) \<noteq> want \<or> level \<le> 0 then Inl (Known_without_shape (length (an_Shares a)) want)
            else encode_buckets 0 level (an_Shares a))"

definition Encode :: "(string \<Rightarrow> string) \<Rightarrow> Answer \<Rightarrow> duration \<Rightarrow> profile_error + VolumeProfile" where
  "Encode sha256 a horizon =
     (if ser_InstrumentID (an_Series a) = [] \<or> ser_Venue (an_Series a) = [] then Inl Unkeyed
      else if an_AsOf a = 0 then Inl No_as_of
      else if an_Bucket a \<le> 0 \<or> Session smod an_Bucket a \<noteq> 0 then Inl (Bucket_uneven (an_Bucket a))
      else if horizon \<le> 0 then Inl No_horizon
      else case encode_curve a of
        Inl e \<Rightarrow> Inl e
      | Inr curve \<Rightarrow>
          let pb = \<lparr>vp_instrument_id = ser_InstrumentID (an_Series a), vp_mic = ser_Venue (an_Series a), vp_version = [],
                vp_as_of = tsOf (an_AsOf a), vp_session = Some (durOf Session), vp_bucket = Some (durOf (an_Bucket a)),
                vp_horizon = Some (durOf horizon), vp_verdict = verdictToWire (an_Verdict a),
                vp_sessions = word_of_int (max (an_Sessions a) 0), vp_oldest_session = tsOf (an_Oldest a),
                vp_newest_session = tsOf (an_Newest a), vp_window_buckets = word_of_int (max (an_WindowBuckets a) 0),
                vp_window_observed = word_of_int (max (an_WindowObserved a) 0), vp_expected_volume = curve\<rparr>
          in Inr (pb\<lparr>vp_version := versionOf sha256 pb\<rparr>))"

fun decode_buckets :: "nat \<Rightarrow> decimal list \<Rightarrow> profile_error + rat list" where
  "decode_buckets i [] = Inr []"
| "decode_buckets i (d # ds) =
     (let r = FromProto (Some d) in
      if r < 0 then Inl (Negative_expected i r)
      else case decode_buckets (i + 1) ds of Inl e \<Rightarrow> Inl e | Inr rs \<Rightarrow> Inr (r # rs))"

definition Decode :: "(string \<Rightarrow> string) \<Rightarrow> VolumeProfile option \<Rightarrow> profile_error + Profile" where
  "Decode sha256 message =
     (case message of
        None \<Rightarrow> Inl Nil_profile
      | Some pb \<Rightarrow>
          if \<not> list_all (\<lambda>d. InDomain (Some d)) (vp_expected_volume pb) then Inl Out_of_domain
          else if vp_instrument_id pb = [] \<or> vp_mic pb = [] then Inl Unkeyed
          else if vp_version pb \<noteq> versionOf sha256 pb then Inl (Version_mismatch (vp_version pb) (versionOf sha256 pb))
          else
            let bucket = AsDuration (vp_bucket pb); horizon = AsDuration (vp_horizon pb); curve = vp_expected_volume pb in
            if bucket \<le> 0 \<or> Session smod bucket \<noteq> 0 then Inl (Bucket_uneven bucket)
            else if AsDuration (vp_session pb) \<noteq> Session then Inl (Other_session (AsDuration (vp_session pb)))
            else if horizon \<le> 0 then Inl No_horizon
            else
              let out = \<lparr>pf_Series = \<lparr>ser_InstrumentID = vp_instrument_id pb, ser_Venue = vp_mic pb\<rparr>,
                    pf_Version = vp_version pb, pf_AsOf = AsTime (vp_as_of pb), pf_Bucket = bucket, pf_Horizon = horizon,
                    pf_Verdict = verdictFromWire (vp_verdict pb), pf_Sessions = uint (vp_sessions pb),
                    pf_Oldest = (if vp_oldest_session pb = None then 0 else AsTime (vp_oldest_session pb)),
                    pf_Newest = (if vp_newest_session pb = None then 0 else AsTime (vp_newest_session pb)),
                    pf_WindowBuckets = uint (vp_window_buckets pb), pf_WindowObserved = uint (vp_window_observed pb),
                    pf_Expected = [], pf_Wire = Some pb\<rparr>
              in if pf_Verdict out \<noteq> VerdictKnown then
                   if curve \<noteq> [] then Inl Curve_without_verdict else Inr out
                 else if int (length curve) \<noteq> BucketsPerSession bucket then
                   Inl (Wrong_bucket_total (length curve) (BucketsPerSession bucket))
                 else (case decode_buckets 0 curve of Inl e \<Rightarrow> Inl e | Inr rs \<Rightarrow> Inr (out\<lparr>pf_Expected := rs\<rparr>)))"

section \<open>The registry\<close>

definition DefaultRetention :: duration where
  "DefaultRetention = 7 * 24 * 3600000000000"

record Registry =
  series :: "Series \<Rightarrow> Profile Version list"
  retention :: duration
  rg_tenant :: string
  folded :: nat
  refused :: nat
  evicted :: nat

definition NewProfileRegistry :: "duration \<Rightarrow> Registry" where
  "NewProfileRegistry keep =
     \<lparr>series = (\<lambda>_. []), retention = (if keep \<le> 0 then DefaultRetention else keep), rg_tenant = [], folded = 0, refused = 0,
      evicted = 0\<rparr>"

text \<open>\<open>gcLocked\<close> deletes the keys whose list is empty: an absent key reads as the empty list, so nothing changes.\<close>

definition registry_Fold :: "Registry \<Rightarrow> Profile \<Rightarrow> Registry" where
  "registry_Fold r p =
     (if ser_InstrumentID (pf_Series p) = [] \<or> ser_Venue (pf_Series p) = [] \<or> pf_Version p = [] \<or> pf_AsOf p = 0
        \<or> pf_Wire p = None then r\<lparr>refused := refused r + 1\<rparr>
      else
        let (vs, n) = pit_Put (series r (pf_Series p)) (pf_AsOf p) p (retention r)
        in r\<lparr>series := (series r)(pf_Series p := vs), folded := folded r + 1, evicted := evicted r + n\<rparr>)"

definition profile_Handle :: "(string \<Rightarrow> string) \<Rightarrow> (string \<Rightarrow> VolumeProfile option) \<Rightarrow> Registry \<Rightarrow> string \<Rightarrow> string \<Rightarrow> Registry" where
  "profile_Handle sha256 unmarshal r envTenant payload =
     (case unmarshal payload of
        None \<Rightarrow> r\<lparr>refused := refused r + 1\<rparr>
      | Some pb \<Rightarrow>
          (case Decode sha256 (Some pb) of
             Inl e \<Rightarrow> r\<lparr>refused := refused r + 1\<rparr>
           | Inr p \<Rightarrow> registry_Fold (if rg_tenant r = [] then r\<lparr>rg_tenant := envTenant\<rparr> else r) p))"

definition Current :: "Registry \<Rightarrow> Series \<Rightarrow> Profile option" where
  "Current r s = (let vs = series r s in if vs = [] then None else Some (v_V (vs ! (length vs - 1))))"

definition Resolve :: "Registry \<Rightarrow> Series \<Rightarrow> string \<Rightarrow> Profile option" where
  "Resolve r s version =
     (if version = [] then None else map_option v_V (find (\<lambda>v. pf_Version (v_V v) = version) (series r s)))"

section \<open>A version names one curve\<close>

lemma terminated_inject:
  assumes "\<forall>p\<in>set ps. CHR 0x1F \<notin> set p" and "\<forall>q\<in>set qs. CHR 0x1F \<notin> set q" and "terminated ps = terminated qs"
  shows "ps = qs"
  using assms
proof (induction ps arbitrary: qs)
  case Nil
  then show ?case by (cases qs) (auto simp: terminated_def)
next
  case (Cons p ps)
  then obtain q qs' where qs: "qs = q # qs'" by (cases qs) (auto simp: terminated_def)
  have eq: "p @ CHR 0x1F # terminated ps = q @ CHR 0x1F # terminated qs'" using Cons.prems(3) by (simp add: terminated_def qs)
  have cut: "takeWhile (\<lambda>c. c \<noteq> CHR 0x1F) (s @ CHR 0x1F # t) = s" if "CHR 0x1F \<notin> set s" for s t :: string
    using that by (induction s) auto
  have "takeWhile (\<lambda>c. c \<noteq> CHR 0x1F) (p @ CHR 0x1F # terminated ps) = p" by (rule cut) (use Cons.prems(1) in simp)
  moreover have "takeWhile (\<lambda>c. c \<noteq> CHR 0x1F) (q @ CHR 0x1F # terminated qs') = q" by (rule cut) (use Cons.prems(2) qs in simp)
  ultimately have pq: "p = q" using eq by metis
  then have "terminated ps = terminated qs'" using eq by simp
  then have "ps = qs'" using Cons.prems(1,2) qs by (intro Cons.IH) simp_all
  then show ?case using pq qs by simp
qed

definition ids_plain :: "VolumeProfile \<Rightarrow> bool" where
  "ids_plain pb \<longleftrightarrow> CHR 0x1F \<notin> set (vp_instrument_id pb) \<and> CHR 0x1F \<notin> set (vp_mic pb)"

lemma concat_pairs_inject:
  "concat (map (\<lambda>d. [f d, g d]) xs) = concat (map (\<lambda>d. [f d, g d]) ys) \<Longrightarrow> map f xs = map f ys \<and> map g xs = map g ys"
proof (induction xs arbitrary: ys)
  case Nil
  then show ?case by (cases ys) simp_all
next
  case (Cons x xs)
  then obtain y ys' where ys: "ys = y # ys'" by (cases ys) simp_all
  then have "concat (map (\<lambda>d. [f d, g d]) xs) = concat (map (\<lambda>d. [f d, g d]) ys')" "f x = f y" "g x = g y"
    using Cons.prems by simp_all
  then show ?case using Cons.IH [of ys'] ys by simp
qed

lemma version_parts_plain: "ids_plain pb \<Longrightarrow> \<forall>p\<in>set (version_parts pb). CHR 0x1F \<notin> set p"
  by (auto simp: version_parts_def ids_plain_def Itoa_no_separator)

lemma version_parts_inject:
  assumes "version_parts a = version_parts b"
  shows "vp_instrument_id a = vp_instrument_id b" "vp_mic a = vp_mic b" "AsDuration (vp_bucket a) = AsDuration (vp_bucket b)"
    "AsDuration (vp_horizon a) = AsDuration (vp_horizon b)" "vp_verdict a = vp_verdict b"
    "vp_expected_volume a = vp_expected_volume b"
proof -
  note eq = assms [unfolded version_parts_def, simplified]
  show "vp_instrument_id a = vp_instrument_id b" "vp_mic a = vp_mic b" "AsDuration (vp_bucket a) = AsDuration (vp_bucket b)"
    "AsDuration (vp_horizon a) = AsDuration (vp_horizon b)" "vp_verdict a = vp_verdict b"
    using eq by (blast dest: Itoa_inject signed_word_eqI)+
  have both: "map (\<lambda>d. Itoa (sint (coefficient d))) (vp_expected_volume a) = map (\<lambda>d. Itoa (sint (coefficient d))) (vp_expected_volume b)
      \<and> map (\<lambda>d. Itoa (sint (exponent d))) (vp_expected_volume a) = map (\<lambda>d. Itoa (sint (exponent d))) (vp_expected_volume b)"
    by (rule concat_pairs_inject) (use eq in blast)
  have c: "map coefficient (vp_expected_volume a) = map coefficient (vp_expected_volume b)"
    and e: "map exponent (vp_expected_volume a) = map exponent (vp_expected_volume b)"
  proof -
    have inj: "inj (\<lambda>w :: i64. Itoa (sint w))" "inj (\<lambda>w :: i32. Itoa (sint w))"
      by (auto intro!: injI signed_word_eqI dest: Itoa_inject)
    show "map coefficient (vp_expected_volume a) = map coefficient (vp_expected_volume b)"
      using both by (intro injD [OF inj_mapI [OF inj(1)]]) (simp add: comp_def)
    show "map exponent (vp_expected_volume a) = map exponent (vp_expected_volume b)"
      using both by (intro injD [OF inj_mapI [OF inj(2)]]) (simp add: comp_def)
  qed
  show "vp_expected_volume a = vp_expected_volume b"
  proof (rule nth_equalityI)
    show len: "length (vp_expected_volume a) = length (vp_expected_volume b)" using c by (rule map_eq_imp_length_eq)
    show "vp_expected_volume a ! i = vp_expected_volume b ! i" if "i < length (vp_expected_volume a)" for i
      using that c e len by (intro decimal.equality) (simp_all add: list_eq_iff_nth_eq)
  qed
qed

lemma Decode_Inr:
  assumes "Decode sha256 (Some pb) = Inr p"
  shows "vp_version pb = versionOf sha256 pb" "pf_Version p = vp_version pb" "pf_Wire p = Some pb"
    "pf_Series p = \<lparr>ser_InstrumentID = vp_instrument_id pb, ser_Venue = vp_mic pb\<rparr>"
    "pf_Bucket p = AsDuration (vp_bucket pb)" "pf_Horizon p = AsDuration (vp_horizon pb)"
    "pf_Verdict p = verdictFromWire (vp_verdict pb)"
    "pf_Expected p = (if verdictFromWire (vp_verdict pb) = VerdictKnown then map (\<lambda>d. FromProto (Some d)) (vp_expected_volume pb) else [])"
    "vp_instrument_id pb \<noteq> []" "vp_mic pb \<noteq> []"
proof -
  have buckets: "decode_buckets i ds = Inr rs \<Longrightarrow> rs = map (\<lambda>d. FromProto (Some d)) ds" for i ds rs
    by (induction i ds arbitrary: rs rule: decode_buckets.induct) (auto simp: Let_def split: if_splits sum.splits)
  show "vp_version pb = versionOf sha256 pb" "pf_Version p = vp_version pb" "pf_Wire p = Some pb"
    "pf_Series p = \<lparr>ser_InstrumentID = vp_instrument_id pb, ser_Venue = vp_mic pb\<rparr>"
    "pf_Bucket p = AsDuration (vp_bucket pb)" "pf_Horizon p = AsDuration (vp_horizon pb)"
    "pf_Verdict p = verdictFromWire (vp_verdict pb)"
    "pf_Expected p = (if verdictFromWire (vp_verdict pb) = VerdictKnown then map (\<lambda>d. FromProto (Some d)) (vp_expected_volume pb) else [])"
    "vp_instrument_id pb \<noteq> []" "vp_mic pb \<noteq> []"
    using assms by (auto simp: Decode_def Let_def split: if_splits sum.splits dest: buckets)
qed

text \<open>Two messages whose content does not collide under the truncated hash.\<close>

definition no_collision :: "(string \<Rightarrow> string) \<Rightarrow> VolumeProfile \<Rightarrow> VolumeProfile \<Rightarrow> bool" where
  "no_collision sha256 a b \<longleftrightarrow>
     (take 16 (sha256 (terminated (version_parts a))) = take 16 (sha256 (terminated (version_parts b)))
        \<longrightarrow> terminated (version_parts a) = terminated (version_parts b))"

definition same_curve :: "Profile \<Rightarrow> Profile \<Rightarrow> bool" where
  "same_curve p q \<longleftrightarrow> pf_Series p = pf_Series q \<and> pf_Bucket p = pf_Bucket q \<and> pf_Horizon p = pf_Horizon q
     \<and> pf_Verdict p = pf_Verdict q \<and> pf_Expected p = pf_Expected q"

lemma version_names_curve:
  assumes a: "Decode sha256 (Some a) = Inr p" and b: "Decode sha256 (Some b) = Inr q" and "pf_Version p = pf_Version q"
    and "ids_plain a" "ids_plain b" and "no_collision sha256 a b"
  shows "same_curve p q"
proof -
  have "versionOf sha256 a = versionOf sha256 b" using Decode_Inr(1,2) [OF a] Decode_Inr(1,2) [OF b] assms(3) by simp
  then have "terminated (version_parts a) = terminated (version_parts b)"
    using assms(6) hex_encode_inject by (auto simp: versionOf_def no_collision_def)
  then have "version_parts a = version_parts b"
    using version_parts_plain assms(4,5) by (blast intro: terminated_inject)
  from version_parts_inject [OF this] show ?thesis
    using Decode_Inr(4-8) [OF a] Decode_Inr(4-8) [OF b] by (simp add: same_curve_def)
qed

text \<open>
  The ids are written unescaped between the separators, and the feed does not refuse a separator in them: two series
  can share a version although the code relies on the version to tell them apart.
\<close>

lemma separator_not_escaped:
  assumes "vp_instrument_id a = ''A'' @ [CHR 0x1F] @ ''B''" and "vp_mic a = ''C''"
  shows "versionOf sha256 (a\<lparr>vp_instrument_id := ''A'', vp_mic := ''B'' @ [CHR 0x1F] @ ''C''\<rparr>) = versionOf sha256 a"
  using assms by (simp add: versionOf_def version_parts_def terminated_def)

section \<open>Every registry resolves a version alike\<close>

lemma pit_Put_values: "v_V ` set (fst (pit_Put vs t v h)) \<subseteq> insert v (v_V ` set vs)"
proof -
  have ins: "v_V ` set (insert_version vs t v) \<subseteq> insert v (v_V ` set vs)"
    by (auto simp: insert_version_def Let_def dest!: set_update_subset_insert [THEN subsetD] in_set_takeD in_set_dropD split: if_splits)
  have "set (fst (pit_Put vs t v h)) \<subseteq> set (insert_version vs t v)"
    by (auto simp: pit_Put_def DropOldest_def Let_def dest: in_set_dropD)
  then show ?thesis using ins by blast
qed

inductive registry_built :: "(string \<Rightarrow> string) \<Rightarrow> (string \<Rightarrow> VolumeProfile option) \<Rightarrow> Registry \<Rightarrow> bool"
  for sha256 unmarshal where
  new: "registry_built sha256 unmarshal (NewProfileRegistry keep)"
| handle: "registry_built sha256 unmarshal r \<Longrightarrow> registry_built sha256 unmarshal (profile_Handle sha256 unmarshal r tenant payload)"

definition registry_holds :: "(string \<Rightarrow> string) \<Rightarrow> Registry \<Rightarrow> bool" where
  "registry_holds sha256 r \<longleftrightarrow>
     (\<forall>s. \<forall>p \<in> v_V ` set (series r s). pf_Series p = s \<and> (\<exists>pb. pf_Wire p = Some pb \<and> Decode sha256 (Some pb) = Inr p))"

lemma registry_Fold_holds:
  assumes "registry_holds sha256 r" and "Decode sha256 (Some pb) = Inr p"
  shows "registry_holds sha256 (registry_Fold r p)"
proof -
  have p: "pf_Wire p = Some pb" using Decode_Inr(3) [OF assms(2)] .
  have "series (registry_Fold r p) = series r \<or>
      series (registry_Fold r p) = (series r)(pf_Series p := fst (pit_Put (series r (pf_Series p)) (pf_AsOf p) p (retention r)))"
    by (auto simp: registry_Fold_def Let_def split: prod.splits)
  then show ?thesis
  proof
    assume "series (registry_Fold r p) = series r"
    then show ?thesis using assms(1) by (simp add: registry_holds_def)
  next
    assume upd: "series (registry_Fold r p) = (series r)(pf_Series p := fst (pit_Put (series r (pf_Series p)) (pf_AsOf p) p (retention r)))"
    show ?thesis unfolding registry_holds_def upd
    proof (intro allI ballI)
      fix s x assume x: "x \<in> v_V ` set (((series r)(pf_Series p := fst (pit_Put (series r (pf_Series p)) (pf_AsOf p) p (retention r)))) s)"
      then have "x = p \<and> s = pf_Series p \<or> x \<in> v_V ` set (series r s)"
        using pit_Put_values [of "series r (pf_Series p)" "pf_AsOf p" p "retention r"] by (auto split: if_splits)
      then show "pf_Series x = s \<and> (\<exists>pb. pf_Wire x = Some pb \<and> Decode sha256 (Some pb) = Inr x)"
        using assms p unfolding registry_holds_def by blast
    qed
  qed
qed

lemma registry_built_holds: "registry_built sha256 unmarshal r \<Longrightarrow> registry_holds sha256 r"
proof (induction rule: registry_built.induct)
  case (new keep)
  then show ?case by (simp add: registry_holds_def NewProfileRegistry_def)
next
  case (handle r tenant payload)
  have "registry_holds sha256 (r\<lparr>refused := n\<rparr>)" "registry_holds sha256 (r\<lparr>rg_tenant := t\<rparr>)" for n t
    using handle.IH by (simp_all add: registry_holds_def)
  then show ?case
    using handle.IH by (auto simp: profile_Handle_def intro: registry_Fold_holds split: option.splits sum.splits)
qed

text \<open>
  C20: A pinned version names the same curve on every pod. Two registries that consumed the published curves in any
  order, with any duplicates, losses and retention, that both resolve a version of a series resolve it to the same
  curve: the same series, buckets, horizon, verdict and expected volumes, provided the two messages do not collide
  under the truncated hash and the ids of the series do not contain the separator byte.
\<close>

theorem pinned_version_agrees:
  assumes "registry_built sha256 unmarshal r" and "registry_built sha256 unmarshal' r'"
    and "Resolve r s version = Some p" and "Resolve r' s version = Some q"
    and "CHR 0x1F \<notin> set (ser_InstrumentID s)" and "CHR 0x1F \<notin> set (ser_Venue s)"
    and "\<And>a b. pf_Wire p = Some a \<Longrightarrow> pf_Wire q = Some b \<Longrightarrow> no_collision sha256 a b"
  shows "same_curve p q \<and> pf_Series p = s \<and> pf_Version p = version"
proof -
  have found: "x \<in> v_V ` set (series reg s) \<and> pf_Version x = version" if "Resolve reg s version = Some x" for reg x
    using that by (auto simp: Resolve_def find_Some_iff split: if_splits)
  obtain a b where a: "pf_Series p = s" "pf_Wire p = Some a" "Decode sha256 (Some a) = Inr p"
    and b: "pf_Series q = s" "pf_Wire q = Some b" "Decode sha256 (Some b) = Inr q"
    using found [OF assms(3)] found [OF assms(4)] registry_built_holds [OF assms(1)] registry_built_holds [OF assms(2)]
    unfolding registry_holds_def by blast
  have "ids_plain a" "ids_plain b"
    using Decode_Inr(4) [OF a(3)] Decode_Inr(4) [OF b(3)] a(1) b(1) assms(5,6) by (auto simp: ids_plain_def)
  then show ?thesis
    using version_names_curve [OF a(3) b(3)] found [OF assms(3)] found [OF assms(4)] assms(7) [OF a(2) b(2)] a(1) by simp
qed

definition sample_message :: VolumeProfile where
  "sample_message = \<lparr>vp_instrument_id = ''BTC'', vp_mic = ''OKX'', vp_version = [], vp_as_of = Some \<lparr>ts_seconds = 100, ts_nanos = 0\<rparr>,
     vp_session = Some \<lparr>du_seconds = 86400, du_nanos = 0\<rparr>, vp_bucket = Some \<lparr>du_seconds = 43200, du_nanos = 0\<rparr>,
     vp_horizon = Some \<lparr>du_seconds = 604800, du_nanos = 0\<rparr>, vp_verdict = 4, vp_sessions = 5, vp_oldest_session = None,
     vp_newest_session = None, vp_window_buckets = 10, vp_window_observed = 10,
     vp_expected_volume = [\<lparr>coefficient = 2, exponent = 0\<rparr>, \<lparr>coefficient = 3, exponent = 0\<rparr>]\<rparr>"

definition sample_version :: string where
  "sample_version = versionOf (\<lambda>s. s) sample_message"

definition sample_published :: VolumeProfile where
  "sample_published = sample_message\<lparr>vp_version := sample_version\<rparr>"

definition sample_profile :: Profile where
  "sample_profile = \<lparr>pf_Series = \<lparr>ser_InstrumentID = ''BTC'', ser_Venue = ''OKX''\<rparr>, pf_Version = sample_version,
     pf_AsOf = 62135596900000000000, pf_Bucket = 43200000000000, pf_Horizon = 604800000000000, pf_Verdict = VerdictKnown,
     pf_Sessions = 5, pf_Oldest = 0, pf_Newest = 0, pf_WindowBuckets = 10, pf_WindowObserved = 10, pf_Expected = [2, 3],
     pf_Wire = Some sample_published\<rparr>"

lemma sample_version_set: "versionOf (\<lambda>s. s) sample_published = sample_version" "sample_version \<noteq> []"
proof -
  show "versionOf (\<lambda>s. s) sample_published = sample_version"
    by (simp add: sample_version_def sample_published_def versionOf_def version_parts_def)
  have "length sample_version > 0" by (simp add: sample_version_def versionOf_def version_parts_def terminated_def)
  then show "sample_version \<noteq> []" by simp
qed

lemma sample_Decode: "Decode (\<lambda>s. s) (Some sample_published) = Inr sample_profile"
proof -
  have d: "AsDuration (vp_bucket sample_published) = 43200000000000" "AsDuration (vp_horizon sample_published) = 604800000000000"
    "AsDuration (vp_session sample_published) = Session"
    by (simp_all add: sample_published_def sample_message_def AsDuration_def MaxDuration_def Session_def)
  have s: "Session smod 43200000000000 = 0" "Session sdiv 43200000000000 = 2" by (simp_all add: Session_def sdiv_nonneg)
  have f: "vp_expected_volume sample_published = [\<lparr>coefficient = 2, exponent = 0\<rparr>, \<lparr>coefficient = 3, exponent = 0\<rparr>]"
    "vp_version sample_published = sample_version" "vp_instrument_id sample_published = ''BTC''" "vp_mic sample_published = ''OKX''"
    "vp_verdict sample_published = 4" "vp_sessions sample_published = 5" "vp_oldest_session sample_published = None"
    "vp_newest_session sample_published = None" "vp_window_buckets sample_published = 10"
    "vp_window_observed sample_published = 10" "AsTime (vp_as_of sample_published) = 62135596900000000000"
    by (simp_all add: sample_published_def sample_message_def AsTime_def unixToInternal_def)
  show ?thesis
    by (simp add: Decode_def d f s sample_version_set InDomain_def maxSafeExponent_def BucketsPerSession_def FromProto_def
        verdictFromWire_def sample_profile_def)
qed

definition sample_registry :: Registry where
  "sample_registry = profile_Handle (\<lambda>s. s) (\<lambda>_. Some sample_published) (NewProfileRegistry 0) ''t'' ''payload''"

lemma sample_Resolve: "Resolve sample_registry \<lparr>ser_InstrumentID = ''BTC'', ser_Venue = ''OKX''\<rparr> sample_version = Some sample_profile"
proof -
  have "series sample_registry \<lparr>ser_InstrumentID = ''BTC'', ser_Venue = ''OKX''\<rparr> = [\<lparr>v_AsOf = 62135596900000000000, v_V = sample_profile\<rparr>]"
    using sample_version_set(2)
    by (simp add: sample_registry_def profile_Handle_def sample_Decode registry_Fold_def NewProfileRegistry_def)
      (simp add: sample_profile_def pit_Put_def insert_version_def sort_Search_def search_loop.simps DefaultRetention_def DropOldest_def)
  then show ?thesis using sample_version_set(2) by (simp add: Resolve_def) (simp add: sample_profile_def)
qed

theorem pinned_version_agrees_witness:
  "same_curve sample_profile sample_profile \<and> pf_Version sample_profile = sample_version"
proof -
  have built: "registry_built (\<lambda>s. s) (\<lambda>_. Some sample_published) sample_registry"
    unfolding sample_registry_def by (intro registry_built.intros)
  show ?thesis
    using pinned_version_agrees [OF built built sample_Resolve sample_Resolve] by (auto simp: no_collision_def)
qed

end
