(* ===== verification/Order_Schedule.thy ===== *)
theory Order_Schedule
  imports Volume_Feed
begin

text \<open>
  Working a parent order as a schedule: order ids (\<open>internal/orderid\<close>), the decision which children should exist
  (\<open>services/oms/internal/schedule\<close>), the admission of parents and children (\<open>services/oms/internal/order/schedule.go\<close>),
  the market a schedule is derived against (\<open>schedule_market.go\<close>) and the driver (\<open>schedule_drive.go\<close>).

  \<^item> SHA-256 and the order store are arguments. Of the service only the two fields that these files read are kept.
  \<^item> A refusal keeps its code and the arguments of its text.
  \<^item> \<open>consultedView\<close> observes whether a schedule asked for a volume: it did exactly when the same derivation fails for
    want of a volume in a market that answers nothing.
\<close>

section \<open>Order ids\<close>

definition MaxLen :: nat where
  "MaxLen = 32"

datatype id_error = Id_empty | Id_too_long string nat nat | Id_character string nat

definition id_character :: "char \<Rightarrow> bool" where
  "id_character c \<longleftrightarrow> c \<in> set ''0123456789abcdefghijklmnopqrstuvwxyzABCDEFGHIJKLMNOPQRSTUVWXYZ''"

definition orderid_Valid :: "string \<Rightarrow> id_error option" where
  "orderid_Valid oid =
     (if oid = [] then Some Id_empty
      else if length oid > MaxLen then Some (Id_too_long oid (length oid) MaxLen)
      else case find (\<lambda>i. \<not> id_character (oid ! i)) [0..<length oid] of
        Some i \<Rightarrow> Some (Id_character oid i)
      | None \<Rightarrow> None)"

section \<open>Which children should exist\<close>

record Parent =
  pa_OrderID :: string
  Terminal :: bool
  pa_Plan :: Plan

record Child =
  ch_OrderID :: string
  ch_ParentID :: string
  ch_Index :: int
  ch_Quantity :: rat
  ch_Due :: instant

datatype due_error =
  ErrNoSchedule string | ErrUnusableParentID id_error | Cannot_work string algo_error | Unworkable string algo_error

definition childSalt :: string where
  "childSalt = '':''"

definition ChildID :: "(string \<Rightarrow> string) \<Rightarrow> string \<Rightarrow> int \<Rightarrow> string" where
  "ChildID sha256 parentID index = hex_encode (take (MaxLen div 2) (sha256 (parentID @ childSalt @ Itoa index)))"

definition UsableParentID :: "string \<Rightarrow> due_error option" where
  "UsableParentID orderID = map_option ErrUnusableParentID (orderid_Valid orderID)"

fun is_ErrUnknownAlgo :: "algo_error \<Rightarrow> bool" where
  "is_ErrUnknownAlgo (ErrUnknownAlgo n names) = True"
| "is_ErrUnknownAlgo _ = False"

fun is_ErrVolumeUnknown :: "algo_error \<Rightarrow> bool" where
  "is_ErrVolumeUnknown (ErrVolumeUnknown instrument from to i n) = True"
| "is_ErrVolumeUnknown _ = False"

definition schedule_Due :: "(string \<Rightarrow> string) \<Rightarrow> Parent \<Rightarrow> (string \<Rightarrow> bool) \<Rightarrow> instant \<Rightarrow> MarketView option
    \<Rightarrow> due_error + Child list" where
  "schedule_Due sha256 p exists now mkt =
     (if Terminal p then Inr []
      else if Total (pa_Plan p) = None \<or> sint (Slices (pa_Plan p)) \<le> 0 then Inl (ErrNoSchedule (pa_OrderID p))
      else case UsableParentID (pa_OrderID p) of
        Some e \<Rightarrow> Inl e
      | None \<Rightarrow>
          let state = \<lparr>ps_OrderID = pa_OrderID p, Sent = Some (\<lambda>index. exists (ChildID sha256 (pa_OrderID p) index))\<rparr>
          in case algo_Run (pa_Plan p) state mkt of
            Inl e \<Rightarrow> Inl (if is_ErrUnknownAlgo e then Cannot_work (pa_OrderID p) e else Unworkable (pa_OrderID p) e)
          | Inr slices \<Rightarrow>
              Inr (map (\<lambda>sl. \<lparr>ch_OrderID = ChildID sha256 (pa_OrderID p) (sl_Index sl), ch_ParentID = pa_OrderID p,
                       ch_Index = sl_Index sl, ch_Quantity = sl_Quantity sl, ch_Due = sl_Due sl\<rparr>)
                (filter (\<lambda>sl. \<not> exists (ChildID sha256 (pa_OrderID p) (sl_Index sl))) (algo_Due slices now))))"

definition Complete :: "(string \<Rightarrow> string) \<Rightarrow> Parent \<Rightarrow> (string \<Rightarrow> bool) \<Rightarrow> bool" where
  "Complete sha256 p exists \<longleftrightarrow>
     \<not> sint (Slices (pa_Plan p)) \<le> 0 \<and> list_all (\<lambda>i. exists (ChildID sha256 (pa_OrderID p) i)) (slice_range (pa_Plan p))"

section \<open>The market of a schedule\<close>

record ScheduleService =
  volumeProfiles :: "Registry option"
  scheduleInterval :: duration

definition shapeOf :: "Profile \<Rightarrow> rat option Shape option" where
  "shapeOf p =
     (if \<not> profile_Known p then None
      else Some \<lparr>sh_InstrumentID = ser_InstrumentID (pf_Series p), Bucket = pf_Bucket p, Horizon = pf_Horizon p,
             Expected = map Some (pf_Expected p)\<rparr>)"

definition viewOf :: "Profile \<Rightarrow> MarketView option" where
  "viewOf p =
     (case shapeOf p of
        None \<Rightarrow> None
      | Some sh \<Rightarrow> (case NewPinned sh (pf_Version p) of Inl e \<Rightarrow> None | Inr v \<Rightarrow> Some (pinned_view v)))"

definition storedMarket :: "(string \<Rightarrow> string) \<Rightarrow> string \<Rightarrow> string \<Rightarrow> string \<Rightarrow> VolumeProfile option \<Rightarrow> MarketView option" where
  "storedMarket sha256 instrumentID venue version wire =
     (case Decode sha256 wire of
        Inl e \<Rightarrow> None
      | Inr p \<Rightarrow>
          if pf_Version p \<noteq> version then None
          else if ser_InstrumentID (pf_Series p) \<noteq> instrumentID \<or> ser_Venue (pf_Series p) \<noteq> venue then None
          else viewOf p)"

definition pinnedMarket :: "(string \<Rightarrow> string) \<Rightarrow> ScheduleService \<Rightarrow> string \<Rightarrow> string \<Rightarrow> string \<Rightarrow> VolumeProfile option
    \<Rightarrow> MarketView \<times> bool" where
  "pinnedMarket sha256 s instrumentID venue version wire =
     (if version = [] \<or> instrumentID = [] \<or> venue = [] then (UnknownMarket, False)
      else if wire \<noteq> None then
        (case storedMarket sha256 instrumentID venue version wire of None \<Rightarrow> (UnknownMarket, False) | Some v \<Rightarrow> (v, True))
      else case volumeProfiles s of
        None \<Rightarrow> (UnknownMarket, False)
      | Some profiles \<Rightarrow>
          (case Resolve profiles \<lparr>ser_InstrumentID = instrumentID, ser_Venue = venue\<rparr> version of
             None \<Rightarrow> (UnknownMarket, False)
           | Some p \<Rightarrow> (case viewOf p of None \<Rightarrow> (UnknownMarket, False) | Some v \<Rightarrow> (v, True))))"

definition scheduleMarket :: "(string \<Rightarrow> string) \<Rightarrow> ScheduleService \<Rightarrow> OrderState \<Rightarrow> MarketView" where
  "scheduleMarket sha256 s st =
     (let (version, wire) = (case st_execution_schedule st of
            None \<Rightarrow> ([], None)
          | Some sch \<Rightarrow> (es_volume_profile_version sch, es_volume_profile sch))
      in fst (pinnedMarket sha256 s (st_instrument_id st) (st_venue st) version wire))"

definition currentMarket :: "ScheduleService \<Rightarrow> string \<Rightarrow> string \<Rightarrow> MarketView \<times> VolumeProfile option" where
  "currentMarket s instrumentID venue =
     (case volumeProfiles s of
        None \<Rightarrow> (UnknownMarket, None)
      | Some profiles \<Rightarrow>
          if instrumentID = [] \<or> venue = [] then (UnknownMarket, None)
          else case Current profiles \<lparr>ser_InstrumentID = instrumentID, ser_Venue = venue\<rparr> of
            None \<Rightarrow> (UnknownMarket, None)
          | Some p \<Rightarrow>
              (case viewOf p of
                 None \<Rightarrow> (UnknownMarket, None)
               | Some v \<Rightarrow> if pf_Wire p = None then (UnknownMarket, None) else (v, pf_Wire p)))"

definition consulted :: "Plan \<Rightarrow> ParentState \<Rightarrow> bool" where
  "consulted p st = (case algo_Run p st (Some UnknownMarket) of Inl e \<Rightarrow> is_ErrVolumeUnknown e | Inr _ \<Rightarrow> False)"

datatype volume_gap =
    Not_bound_to_a_feed | Names_no_venue | Nothing_published string string
  | Measured_but_not_sized string string string int duration instant
  | Not_measured string string Verdict int int int instant

definition volumeProfileGap :: "ScheduleService \<Rightarrow> string \<Rightarrow> string \<Rightarrow> volume_gap" where
  "volumeProfileGap s instrumentID venue =
     (case volumeProfiles s of
        None \<Rightarrow> Not_bound_to_a_feed
      | Some profiles \<Rightarrow>
          if venue = [] then Names_no_venue
          else case Current profiles \<lparr>ser_InstrumentID = instrumentID, ser_Venue = venue\<rparr> of
            None \<Rightarrow> Nothing_published instrumentID venue
          | Some p \<Rightarrow>
              if profile_Known p then
                Measured_but_not_sized instrumentID venue (pf_Version p) (pf_Sessions p) (pf_Horizon p) (pf_AsOf p)
              else Not_measured instrumentID venue (pf_Verdict p) (pf_Sessions p) (pf_WindowObserved p) (pf_WindowBuckets p)
                (pf_AsOf p))"

section \<open>Admitting parents and children\<close>

datatype schedule_msg =
    Nested_schedule string string
  | Unusable_id due_error
  | Too_many_slices string "32 word" duration duration duration duration
  | Algorithm_not_defaulted string algo_error
  | Cannot_size string volume_gap algo_error
  | Plan_refused algo_error
  | Never_admitted string string
  | Parent_stopped string string OrderStatus
  | Schedule_not_derivable string string due_error
  | Schedule_unworkable string string algo_error
  | No_such_slice string string nat
  | Quantity_is_not_the_slice string int string "rat option" rat
  | Terms_portfolio string string string string
  | Terms_instrument string string string string
  | Terms_side string Side string Side

type_synonym refusal = "string \<times> schedule_msg"

fun enum_String :: "ExecutionAlgo \<Rightarrow> string" where
  "enum_String EXECUTION_ALGO_UNSPECIFIED = ''EXECUTION_ALGO_UNSPECIFIED''"
| "enum_String EXECUTION_ALGO_TWAP = ''EXECUTION_ALGO_TWAP''"
| "enum_String EXECUTION_ALGO_VWAP = ''EXECUTION_ALGO_VWAP''"
| "enum_String EXECUTION_ALGO_POV = ''EXECUTION_ALGO_POV''"
| "enum_String (EXECUTION_ALGO_unnamed n) = Itoa (sint n)"

definition algoNameOf :: "ExecutionAlgo \<Rightarrow> string" where
  "algoNameOf a =
     (let prefix = ''EXECUTION_ALGO_''; name = enum_String a
      in if \<not> HasPrefix name prefix then [] else drop (length prefix) name)"

text \<open>\<open>AsTime\<close> of an instant that a message may leave out.\<close>

definition instant_of :: "instant option \<Rightarrow> instant" where
  "instant_of t = (case t of None \<Rightarrow> AsTime None | Some u \<Rightarrow> u)"

definition planFromOrder :: "OrderState \<Rightarrow> due_error + Plan" where
  "planFromOrder st =
     (case st_execution_schedule st of
        None \<Rightarrow> Inl (ErrNoSchedule (st_order_id st))
      | Some sch \<Rightarrow>
          Inr \<lparr>Algo = algoNameOf (es_algo sch), plan_InstrumentID = st_instrument_id st,
            Total = Some (FromProto (st_ordered_quantity st)), Start = instant_of (es_window_start sch),
            End = instant_of (es_window_end sch), Slices = word_of_int (uint (es_slice_count sch)),
            MaxSlice = map_option (\<lambda>d. FromProto (Some d)) (es_max_slice_quantity sch),
            MaxParticipation = map_option (\<lambda>d. FromProto (Some d)) (es_max_participation_rate sch)\<rparr>)"

definition parentOf :: "OrderState \<Rightarrow> due_error + Parent" where
  "parentOf st =
     (case planFromOrder st of
        Inl e \<Rightarrow> Inl e
      | Inr plan \<Rightarrow> Inr \<lparr>pa_OrderID = st_order_id st, Terminal = IsTerminal st, pa_Plan = plan\<rparr>)"

definition DefaultScheduleInterval :: duration where
  "DefaultScheduleInterval = 10 * 1000000000"

definition refuseUndrivableSchedule :: "ScheduleService \<Rightarrow> SubmitOrder \<Rightarrow> ExecutionSchedule \<Rightarrow> refusal option" where
  "refuseUndrivableSchedule s cmd sch =
     (let tick = (if scheduleInterval s \<le> 0 then DefaultScheduleInterval else scheduleInterval s);
          count = es_slice_count sch
      in if count = 0 then None
         else let start = instant_of (es_window_start sch); stop = instant_of (es_window_end sch) in
         if \<not> stop > start then None
         else let gap = time_Sub stop start sdiv uint count in
         if gap \<ge> tick then None
         else Some (''INVALID_SCHEDULE'',
           Too_many_slices (sub_order_id cmd) count (time_Sub stop start) gap tick (time_Sub stop start sdiv tick)))"

definition admission_plan :: "SubmitOrder \<Rightarrow> ExecutionSchedule \<Rightarrow> Plan" where
  "admission_plan cmd sch =
     \<lparr>Algo = algoNameOf (es_algo sch), plan_InstrumentID = sub_instrument_id cmd,
      Total = Some (FromProto (sub_quantity cmd)), Start = instant_of (es_window_start sch),
      End = instant_of (es_window_end sch), Slices = word_of_int (uint (es_slice_count sch)),
      MaxSlice = map_option (\<lambda>d. FromProto (Some d)) (es_max_slice_quantity sch),
      MaxParticipation = map_option (\<lambda>d. FromProto (Some d)) (es_max_participation_rate sch)\<rparr>"

text \<open>The command that comes back is the one \<open>validateSchedule\<close> leaves: its pin is cleared and then stamped.\<close>

definition validateSchedule :: "ScheduleService \<Rightarrow> SubmitOrder \<Rightarrow> refusal + SubmitOrder" where
  "validateSchedule s cmd =
     (case sub_execution_schedule cmd of
        None \<Rightarrow> Inr cmd
      | Some sch \<Rightarrow>
          if sub_parent_order_id cmd \<noteq> [] then
            Inl (''INVALID_SCHEDULE'', Nested_schedule (sub_order_id cmd) (sub_parent_order_id cmd))
          else case UsableParentID (sub_order_id cmd) of
            Some e \<Rightarrow> Inl (''INVALID_SCHEDULE'', Unusable_id e)
          | None \<Rightarrow>
              (case refuseUndrivableSchedule s cmd sch of
                 Some rej \<Rightarrow> Inl rej
               | None \<Rightarrow>
                   let plan = admission_plan cmd sch;
                       state = \<lparr>ps_OrderID = sub_order_id cmd, Sent = Some (\<lambda>_. False)\<rparr>;
                       cleared = sch\<lparr>es_volume_profile_version := [], es_volume_profile := None\<rparr>;
                       (market, profile) = currentMarket s (sub_instrument_id cmd) (sub_venue cmd);
                       version = (case profile of None \<Rightarrow> [] | Some pb \<Rightarrow> vp_version pb)
                   in case algo_Run plan state (Some market) of
                     Inl e \<Rightarrow>
                       Inl (if is_ErrUnknownAlgo e then (''UNKNOWN_EXECUTION_ALGO'', Algorithm_not_defaulted (sub_order_id cmd) e)
                            else if is_ErrVolumeUnknown e then
                              (''NO_VOLUME_PROFILE'',
                               Cannot_size (sub_order_id cmd) (volumeProfileGap s (sub_instrument_id cmd) (sub_venue cmd)) e)
                            else (''INVALID_SCHEDULE'', Plan_refused e))
                   | Inr slices \<Rightarrow>
                       Inr (cmd\<lparr>sub_execution_schedule := Some
                         (if consulted plan state \<and> version \<noteq> []
                          then cleared\<lparr>es_volume_profile_version := version, es_volume_profile := profile\<rparr>
                          else cleared)\<rparr>)))"

text \<open>\<open>submit\<close> copies the relation and the schedule of the command onto the state that it creates.\<close>

definition link_schedule :: "SubmitOrder \<Rightarrow> OrderState \<Rightarrow> OrderState" where
  "link_schedule cmd st =
     (let st' = st\<lparr>st_parent_order_id := sub_parent_order_id cmd, st_execution_schedule := sub_execution_schedule cmd\<rparr>
      in if st_execution_schedule st' \<noteq> None then st'\<lparr>st_status := ORDER_STATUS_WORKING_SCHEDULED\<rparr> else st')"

datatype load_result = Loaded OrderState | ErrNotFound | Load_failed string

datatype child_verdict = Authorized OrderState | Child_refused refusal | Retry string

definition authorizeChild :: "(string \<Rightarrow> string) \<Rightarrow> ScheduleService \<Rightarrow> (string \<Rightarrow> load_result) \<Rightarrow> SubmitOrder \<Rightarrow> child_verdict" where
  "authorizeChild sha256 s load cmd =
     (let parentID = sub_parent_order_id cmd; oid = sub_order_id cmd in
      case load parentID of
        ErrNotFound \<Rightarrow> Child_refused (''PARENT_NOT_FOUND'', Never_admitted oid parentID)
      | Load_failed e \<Rightarrow> Retry e
      | Loaded parent \<Rightarrow>
          if st_status parent \<noteq> ORDER_STATUS_WORKING_SCHEDULED then
            Child_refused (''PARENT_NOT_WORKING'', Parent_stopped oid parentID (st_status parent))
          else case planFromOrder parent of
            Inl e \<Rightarrow> Child_refused (''PARENT_NOT_WORKING'', Schedule_not_derivable oid parentID e)
          | Inr plan \<Rightarrow>
              (case algo_Run plan \<lparr>ps_OrderID = parentID, Sent = None\<rparr> (Some (scheduleMarket sha256 s parent)) of
                 Inl e \<Rightarrow> Child_refused (''PARENT_NOT_WORKING'', Schedule_unworkable oid parentID e)
               | Inr slices \<Rightarrow>
                   (case find (\<lambda>sl. ChildID sha256 parentID (sl_Index sl) = oid) slices of
                      None \<Rightarrow> Child_refused (''NOT_A_SLICE'', No_such_slice oid parentID (length slices))
                    | Some sl \<Rightarrow>
                        let want = sl_Index sl; got = FromProtoChecked (sub_quantity cmd);
                            quantity = sl_Quantity (slices ! nat want) in
                        if got \<noteq> Some quantity then
                          Child_refused (''SLICE_QUANTITY_MISMATCH'', Quantity_is_not_the_slice oid want parentID got quantity)
                        else if sub_portfolio_id cmd \<noteq> st_portfolio_id parent then
                          Child_refused (''SLICE_TERMS_MISMATCH'',
                            Terms_portfolio oid (sub_portfolio_id cmd) parentID (st_portfolio_id parent))
                        else if sub_instrument_id cmd \<noteq> st_instrument_id parent then
                          Child_refused (''SLICE_TERMS_MISMATCH'',
                            Terms_instrument oid (sub_instrument_id cmd) parentID (st_instrument_id parent))
                        else if sub_side cmd \<noteq> st_side parent then
                          Child_refused (''SLICE_TERMS_MISMATCH'', Terms_side oid (sub_side cmd) parentID (st_side parent))
                        else Authorized parent)))"

section \<open>The driver\<close>

definition ScheduleIssuer :: string where
  "ScheduleIssuer = ''service:oms-schedule''"

definition submitFromState :: "OrderState \<Rightarrow> CommandMetadata option \<Rightarrow> SubmitOrder" where
  "submitFromState st md =
     \<lparr>sub_metadata = md, sub_order_id = st_order_id st, sub_portfolio_id = st_portfolio_id st,
      sub_instrument_id = st_instrument_id st, sub_side = st_side st, sub_quantity = st_ordered_quantity st,
      sub_order_type = st_order_type st, sub_limit_price = st_limit_price st, sub_stop_price = st_stop_price st,
      sub_time_in_force = st_time_in_force st, sub_expire_at = st_expire_at st, sub_venue = st_venue st,
      sub_execution_schedule = st_execution_schedule st, sub_parent_order_id = st_parent_order_id st,
      sub_leverage = st_leverage st, sub_margin_mode = st_margin_mode st\<rparr>"

text \<open>The command \<open>emitChild\<close> sends to admission; \<^const>\<open>None\<close> is its refusal of a quantity that no decimal carries.\<close>

definition child_command :: "OrderState \<Rightarrow> Child \<Rightarrow> SubmitOrder option" where
  "child_command parentSt child =
     (case ToProtoScaled (Some (ch_Quantity child)) of
        None \<Rightarrow> None
      | Some qty \<Rightarrow>
          let count = (case st_execution_schedule parentSt of None \<Rightarrow> 0 | Some sch \<Rightarrow> es_slice_count sch);
              md = \<lparr>md_issuer = ScheduleIssuer, md_target_id = ch_OrderID child, md_valid_until = None,
                md_reason = ''slice '' @ Itoa (ch_Index child + 1) @ '' of '' @ Itoa (uint count)
                  @ '' for parent order '' @ ch_ParentID child, md_principal_portfolios = []\<rparr>
          in Some ((submitFromState parentSt (Some md))\<lparr>sub_order_id := ch_OrderID child,
               sub_quantity := Some qty, sub_execution_schedule := None, sub_parent_order_id := ch_ParentID child\<rparr>))"

definition held_ids :: "OrderState list \<Rightarrow> string \<Rightarrow> bool" where
  "held_ids children i \<longleftrightarrow> i \<in> set (map st_order_id children)"

text \<open>The children that one pass of \<open>driveOne\<close> sends.\<close>

definition drive_due :: "(string \<Rightarrow> string) \<Rightarrow> ScheduleService \<Rightarrow> OrderState \<Rightarrow> OrderState list \<Rightarrow> instant \<Rightarrow> due_error + Child list" where
  "drive_due sha256 s parentSt children now =
     (case parentOf parentSt of
        Inl e \<Rightarrow> Inl e
      | Inr parent \<Rightarrow> schedule_Due sha256 parent (held_ids children) now (Some (scheduleMarket sha256 s parentSt)))"

text \<open>
  What \<open>retireIfFinished\<close> and \<open>cancelChildren\<close> compute from the parent and its children: the quantity that never
  traded, once every slice was sent and every child has finished, and the quantity that was never sent.
\<close>

definition quantity_less :: "decimal option \<Rightarrow> decimal option list \<Rightarrow> rat" where
  "quantity_less whole parts = max 0 (foldl (\<lambda>r d. r - FromProto d) (FromProto whole) parts)"

datatype retirement = Not_finished | Retire decimal | Unfilled_not_representable rat | Underivable due_error

definition retire_decision :: "(string \<Rightarrow> string) \<Rightarrow> OrderState \<Rightarrow> OrderState list \<Rightarrow> retirement" where
  "retire_decision sha256 parentSt children =
     (case parentOf parentSt of
        Inl e \<Rightarrow> Underivable e
      | Inr parent \<Rightarrow>
          if \<not> Complete sha256 parent (held_ids children) then Not_finished
          else if \<not> list_all IsTerminal children then Not_finished
          else let unfilled = quantity_less (st_ordered_quantity parentSt) (map st_filled_quantity children)
            in case ToProtoScaled (Some unfilled) of
              None \<Rightarrow> Unfilled_not_representable unfilled
            | Some qty \<Rightarrow> Retire qty)"

definition unsent_quantity :: "OrderState \<Rightarrow> OrderState list \<Rightarrow> decimal option" where
  "unsent_quantity parentSt children =
     ToProtoScaled (Some (quantity_less (st_ordered_quantity parentSt) (map st_ordered_quantity children)))"

fun tightest :: "Plan list \<Rightarrow> duration option \<Rightarrow> nat \<Rightarrow> duration option \<times> nat" where
  "tightest [] gap n = (gap, n)"
| "tightest (p # ps) gap n =
     (if sint (Slices p) \<le> 1 then tightest ps gap n
      else
        let step = time_Sub (End p) (Start p) sdiv sint (Slices p)
        in tightest ps (case gap of None \<Rightarrow> Some step | Some g \<Rightarrow> Some (if step < g then step else g)) (n + 1))"

definition TightestSliceInterval :: "OrderState list \<Rightarrow> duration option \<times> nat" where
  "TightestSliceInterval working =
     tightest (concat (map (\<lambda>st. case parentOf st of Inl e \<Rightarrow> [] | Inr p \<Rightarrow> [pa_Plan p]) working)) None 0"

section \<open>The schedule of an order\<close>

text \<open>An algorithm ignores what was sent, and reads the market only through the volumes it asks for.\<close>

lemma algo_Run_state: "algo_Run p st mkt = algo_Run p st' mkt"
proof -
  have "algo_Schedule a p st m = algo_Schedule a p st' m" for a m by (cases a) simp_all
  then show ?thesis by (simp add: algo_Run_def split: sum.splits)
qed

lemma slice_range_Cons: "0 < sint (Slices p) \<Longrightarrow> \<exists>is. slice_range p = 0 # is"
  by (cases "nat (sint (Slices p))") (simp_all add: slice_range_def upt_conv_Cons del: upt_Suc)

lemma unasked_volumes:
  assumes "plan_validate p = None" and "expectedVolumes p (Some UnknownMarket) = Inl e" and "\<not> is_ErrVolumeUnknown e"
  shows "expectedVolumes p mkt = Inl e"
proof -
  obtain "is" where r: "slice_range p = 0 # is" using assms(1) slice_range_Cons [of p] by (auto simp: plan_validate_None)
  show ?thesis
    using assms(2,3)
    by (auto simp: expectedVolumes_def r UnknownMarket_def split: if_splits option.splits)
qed

lemma UnknownMarket_volumes:
  assumes "plan_validate p = None" shows "\<exists>e. expectedVolumes p (Some UnknownMarket) = Inl e"
proof -
  obtain "is" where r: "slice_range p = 0 # is" using assms(1) slice_range_Cons [of p] by (auto simp: plan_validate_None)
  show ?thesis by (auto simp: expectedVolumes_def r UnknownMarket_def split: if_splits option.splits)
qed

lemma not_consulted:
  assumes "\<not> consulted p st"
  shows "algo_Run p st mkt = algo_Run p st mkt'"
proof (cases "algo_Lookup (Algo p)")
  case (Inl e)
  then show ?thesis by (simp add: algo_Run_def)
next
  case (Inr a)
  have pure: "algo_Schedule a p st m = algo_Schedule a p st (Some UnknownMarket)" for m
  proof (cases "plan_validate p")
    case (Some e)
    then show ?thesis by (cases a) (simp_all add: vwap_def pov_def)
  next
    case None
    obtain e where e: "expectedVolumes p (Some UnknownMarket) = Inl e" using UnknownMarket_volumes [OF None] ..
    show ?thesis
    proof (cases "a = twapAlgo \<or> \<not> is_ErrVolumeUnknown e")
      case True
      then show ?thesis using unasked_volumes [OF None e] e
        by (cases a) (auto simp: vwap_def pov_def None split: option.splits)
    next
      case False
      then show ?thesis
        using assms e None by (cases a) (auto simp: consulted_def algo_Run_def Inr vwap_def pov_def split: option.splits if_splits)
    qed
  qed
  then show ?thesis by (simp add: algo_Run_def Inr split: option.splits) (metis pure)
qed

text \<open>The slices that every pod derives for an order, whatever its registry holds.\<close>

definition schedule_of :: "(string \<Rightarrow> string) \<Rightarrow> OrderState \<Rightarrow> Slice list \<Rightarrow> bool" where
  "schedule_of sha256 st ss \<longleftrightarrow>
     (\<exists>plan. planFromOrder st = Inr plan \<and> (\<forall>s ps. algo_Run plan ps (Some (scheduleMarket sha256 s st)) = Inr ss))"

lemma currentMarket_cases:
  assumes "registry_holds sha256 r" and "volumeProfiles s = Some r \<or> volumeProfiles s = None"
  obtains "currentMarket s instrument venue = (UnknownMarket, None)"
  | v pb where "currentMarket s instrument venue = (v, Some pb)" "vp_version pb \<noteq> []"
      "instrument \<noteq> []" "venue \<noteq> []" "storedMarket sha256 instrument venue (vp_version pb) (Some pb) = Some v"
proof (cases "volumeProfiles s")
  case None
  then show ?thesis using that(1) by (simp add: currentMarket_def)
next
  case (Some r')
  then have r': "r' = r" using assms(2) by simp
  show ?thesis
  proof (cases "currentMarket s instrument venue = (UnknownMarket, None)")
    case True
    then show ?thesis by (rule that(1))
  next
    case False
    then obtain p v where iv: "instrument \<noteq> []" "venue \<noteq> []"
      and p: "Current r \<lparr>ser_InstrumentID = instrument, ser_Venue = venue\<rparr> = Some p" and v: "viewOf p = Some v"
      and cm: "currentMarket s instrument venue = (v, pf_Wire p)" and w: "pf_Wire p \<noteq> None"
      by (auto simp: currentMarket_def Some r' split: if_splits option.splits)
    have "p \<in> v_V ` set (series r \<lparr>ser_InstrumentID = instrument, ser_Venue = venue\<rparr>)"
      using p by (auto simp: Current_def Let_def split: if_splits)
    then obtain pb where pb: "pf_Series p = \<lparr>ser_InstrumentID = instrument, ser_Venue = venue\<rparr>" "pf_Wire p = Some pb"
      "Decode sha256 (Some pb) = Inr p" using assms(1) unfolding registry_holds_def by blast
    have ver: "pf_Version p = vp_version pb" using Decode_Inr [OF pb(3)] by simp
    have "pf_Version p \<noteq> []" using v by (auto simp: viewOf_def NewPinned_def split: option.splits if_splits)
    then show ?thesis
      using that(2) [of v pb] cm pb iv v ver by (simp add: storedMarket_def)
  qed
qed

lemma scheduleMarket_unpinned:
  "st_execution_schedule st = Some sch \<Longrightarrow> es_volume_profile_version sch = [] \<Longrightarrow> scheduleMarket sha256 s st = UnknownMarket"
  by (simp add: scheduleMarket_def pinnedMarket_def)

lemma scheduleMarket_stored:
  assumes "st_execution_schedule st = Some sch" and "es_volume_profile sch = Some pb"
    and "storedMarket sha256 (st_instrument_id st) (st_venue st) (es_volume_profile_version sch) (Some pb) = Some v"
    and "es_volume_profile_version sch \<noteq> []" and "st_instrument_id st \<noteq> []" and "st_venue st \<noteq> []"
  shows "scheduleMarket sha256 s st = v"
  using assms by (simp add: scheduleMarket_def pinnedMarket_def)

lemma consulted_not_unknown: "consulted p st \<Longrightarrow> algo_Run p st (Some UnknownMarket) \<noteq> Inr ss"
  by (auto simp: consulted_def)

lemma consulted_state: "consulted p st = consulted p st'"
  unfolding consulted_def by (simp only: algo_Run_state [of p st _ st'])

text \<open>What an admitted parent carries: the plan it was admitted with, and the curve the plan was sized against.\<close>

lemma validateSchedule_Inr:
  assumes v: "validateSchedule s cmd = Inr cmd'" and sch: "sub_execution_schedule cmd = Some sch"
    and reg: "volumeProfiles s = Some r \<or> volumeProfiles s = None" "registry_holds sha256 r"
    and a: "Accept cmd' now = Inr st"
  shows "\<exists>ss. schedule_of sha256 (link_schedule cmd' st) ss \<and> algo_Sum ss = FromProto (sub_quantity cmd)"
proof -
  define plan where "plan = admission_plan cmd sch"
  define ps where "ps = \<lparr>ps_OrderID = sub_order_id cmd, Sent = Some (\<lambda>_. False)\<rparr>"
  obtain market profile where m: "currentMarket s (sub_instrument_id cmd) (sub_venue cmd) = (market, profile)"
    by fastforce
  define version where "version = (case profile of None \<Rightarrow> [] | Some pb \<Rightarrow> vp_version pb)"
  define cleared where "cleared = sch\<lparr>es_volume_profile_version := [], es_volume_profile := None\<rparr>"
  define stamped where "stamped = (if consulted plan ps \<and> version \<noteq> []
    then cleared\<lparr>es_volume_profile_version := version, es_volume_profile := profile\<rparr> else cleared)"
  from v obtain ss where run: "algo_Run plan ps (Some market) = Inr ss"
    and c: "cmd' = cmd\<lparr>sub_execution_schedule := Some stamped\<rparr>"
    unfolding validateSchedule_def sch stamped_def cleared_def version_def
    by (auto simp: m Let_def simp flip: plan_def ps_def split: if_splits option.splits sum.splits)
  define st' where "st' = link_schedule cmd' st"
  have "st = initial_state cmd' now" using a by (auto simp: Accept_def split: if_splits option.splits)
  then have st': "st_execution_schedule st' = Some stamped" "st_instrument_id st' = sub_instrument_id cmd"
      "st_venue st' = sub_venue cmd" "st_ordered_quantity st' = sub_quantity cmd"
    by (simp_all add: st'_def link_schedule_def initial_state_def c Let_def)
  have plan': "planFromOrder st' = Inr plan"
    by (simp add: planFromOrder_def st' plan_def admission_plan_def stamped_def cleared_def)
  have "algo_Run plan qs (Some (scheduleMarket sha256 s' st')) = Inr ss" for s' qs
  proof (cases "consulted plan ps")
    case False
    then show ?thesis using run not_consulted [OF False] algo_Run_state [of plan qs _ ps] by metis
  next
    case True
    from reg(2,1) show ?thesis
    proof (cases rule: currentMarket_cases [of sha256 r s "sub_instrument_id cmd" "sub_venue cmd"])
      case 1
      then show ?thesis using run m consulted_not_unknown [OF True] by simp
    next
      case (2 w pb)
      then have "market = w" "profile = Some pb" "version = vp_version pb" using m by (simp_all add: version_def)
      then have "scheduleMarket sha256 s' st' = market"
        using 2 True by (intro scheduleMarket_stored [OF st'(1)]) (simp_all add: stamped_def st')
      then show ?thesis using run algo_Run_state [of plan qs _ ps] by simp
    qed
  qed
  then have sched: "schedule_of sha256 st' ss" using plan' by (auto simp: schedule_of_def)
  obtain ws where "plan_validate plan = None" "weighted plan ws ss" by (rule algo_Run_weighted [OF run])
  then have "algo_Sum ss = the (Total plan)" using weighted_Sum [of plan ws ss] by (simp add: plan_validate_None)
  then show ?thesis using sched by (auto simp: st'_def plan_def admission_plan_def)
qed

text \<open>
  C12: An admitted schedule is one schedule for every pod. Once admission has accepted a parent and its state is stored,
  every pod derives the same slices for it, whatever profiles the pod's own registry holds, whatever it has sent and
  however the market has moved since: a schedule that consulted a curve carries that curve. The slices sum to the
  quantity that was ordered.
\<close>

theorem admitted_schedule_is_one:
  assumes "validateSchedule s cmd = Inr cmd'" and "sub_execution_schedule cmd \<noteq> None" and "Accept cmd' now = Inr st"
    and "volumeProfiles s = Some r" and "registry_built sha256 unmarshal r"
  shows "\<exists>ss. schedule_of sha256 (link_schedule cmd' st) ss \<and> algo_Sum ss = FromProto (sub_quantity cmd)"
  using validateSchedule_Inr [OF assms(1) _ _ registry_built_holds [OF assms(5)] assms(3)] assms(2,4) by auto

text \<open>A caller cannot choose the curve: what the command names is discarded.\<close>

lemma pin_is_not_the_callers:
  "validateSchedule s (cmd\<lparr>sub_execution_schedule := Some (sch\<lparr>es_volume_profile_version := v, es_volume_profile := w\<rparr>)\<rparr>)
   = validateSchedule s (cmd\<lparr>sub_execution_schedule := Some sch\<rparr>)"
proof -
  define old new where "old = sch\<lparr>es_volume_profile_version := v, es_volume_profile := w\<rparr>"
    and "new = cmd\<lparr>sub_execution_schedule := Some (sch\<lparr>es_volume_profile_version := v, es_volume_profile := w\<rparr>)\<rparr>"
  have "admission_plan new old = admission_plan (cmd\<lparr>sub_execution_schedule := Some sch\<rparr>) sch"
    and "refuseUndrivableSchedule s new old = refuseUndrivableSchedule s (cmd\<lparr>sub_execution_schedule := Some sch\<rparr>) sch"
    by (simp_all add: admission_plan_def refuseUndrivableSchedule_def old_def new_def Let_def cong: if_cong)
  then show ?thesis unfolding validateSchedule_def
    by (simp add: old_def new_def cong: if_cong option.case_cong sum.case_cong)
qed

section \<open>What the driver sends\<close>

definition child_of :: "(string \<Rightarrow> string) \<Rightarrow> string \<Rightarrow> Slice \<Rightarrow> Child" where
  "child_of sha256 parentID sl =
     \<lparr>ch_OrderID = ChildID sha256 parentID (sl_Index sl), ch_ParentID = parentID, ch_Index = sl_Index sl,
      ch_Quantity = sl_Quantity sl, ch_Due = sl_Due sl\<rparr>"

lemma child_of_simps [simp]:
  "ch_OrderID (child_of sha256 p sl) = ChildID sha256 p (sl_Index sl)" "ch_ParentID (child_of sha256 p sl) = p"
  "ch_Index (child_of sha256 p sl) = sl_Index sl" "ch_Quantity (child_of sha256 p sl) = sl_Quantity sl"
  by (simp_all add: child_of_def)

lemma drive_due_slices:
  assumes "schedule_of sha256 st ss" and "drive_due sha256 s st children now = Inr due"
  shows "due = (if IsTerminal st then [] else
    map (child_of sha256 (st_order_id st))
      (filter (\<lambda>sl. \<not> held_ids children (ChildID sha256 (st_order_id st) (sl_Index sl))) (algo_Due ss now)))"
proof -
  obtain plan where p: "planFromOrder st = Inr plan" and run: "\<And>qs. algo_Run plan qs (Some (scheduleMarket sha256 s st)) = Inr ss"
    using assms(1) by (auto simp: schedule_of_def)
  show ?thesis using assms(2)
    by (auto simp: drive_due_def parentOf_def p schedule_Due_def run Let_def child_of_def split: if_splits option.splits)
qed

lemma schedule_of_slices:
  assumes "schedule_of sha256 st ss" and "planFromOrder st = Inr plan"
  shows "map sl_Index ss = slice_range plan" "distinct ss" "\<forall>sl\<in>set ss. 0 < sl_Quantity sl \<and> sl_Due sl < End plan"
    "algo_Sum ss = FromProto (st_ordered_quantity st)" "0 < sint (Slices plan)"
proof -
  have run: "algo_Run plan qs (Some (scheduleMarket sha256 s st)) = Inr ss" for qs s
    using assms by (auto simp: schedule_of_def)
  obtain ws where v: "plan_validate plan = None" and w: "weighted plan ws ss" using algo_Run_weighted [OF run] .
  then show n: "0 < sint (Slices plan)" by (simp add: plan_validate_None)
  show "map sl_Index ss = slice_range plan" by (rule weighted_schedule(1) [OF v w])
  then show "distinct ss" by (metis distinct_map distinct_map slice_range_def distinct_upt inj_on_of_nat)
  show "\<forall>sl\<in>set ss. 0 < sl_Quantity sl \<and> sl_Due sl < End plan"
    using weighted_schedule(4) [OF v w] by blast
  show "algo_Sum ss = FromProto (st_ordered_quantity st)"
    using weighted_Sum [OF w n] assms(2) by (auto simp: planFromOrder_def split: option.splits)
qed

lemma schedule_of_status [simp]: "schedule_of sha256 (st\<lparr>st_status := status\<rparr>) ss = schedule_of sha256 st ss"
proof -
  have "planFromOrder (st\<lparr>st_status := status\<rparr>) = planFromOrder st"
    and "scheduleMarket sha256 s (st\<lparr>st_status := status\<rparr>) = scheduleMarket sha256 s st" for s
    by (cases "st_execution_schedule st"; simp add: planFromOrder_def scheduleMarket_def)+
  then show ?thesis by (simp add: schedule_of_def)
qed

lemma sum_list_distinct_le:
  fixes f :: "'a \<Rightarrow> rat"
  assumes "distinct xs" and "set xs \<subseteq> set ss" and "distinct ss" and "\<forall>x\<in>set ss. 0 < f x"
  shows "sum_list (map f xs) \<le> sum_list (map f ss)" and "sum_list (map f xs) = sum_list (map f ss) \<longleftrightarrow> set xs = set ss"
proof -
  have eq: "sum_list (map f ss) = sum_list (map f xs) + sum f (set ss - set xs)"
    using assms(1-3) by (simp add: sum_list_distinct_conv_sum_set sum.subset_diff [OF assms(2), of f])
  have nn: "0 \<le> sum f (set ss - set xs)" using assms(4) by (intro sum_nonneg) (auto simp: less_imp_le)
  have "sum f (set ss - set xs) = 0 \<longleftrightarrow> set ss - set xs = {}"
    using assms(4) by (subst sum_nonneg_eq_0_iff) (auto simp: less_imp_le, metis DiffI less_irrefl)
  then show "sum_list (map f xs) \<le> sum_list (map f ss)" "sum_list (map f xs) = sum_list (map f ss) \<longleftrightarrow> set xs = set ss"
    using eq nn assms(2) by auto
qed

lemma slice_index_inj:
  assumes "map sl_Index ss = slice_range plan" shows "inj_on sl_Index (set ss)"
  using assms by (metis distinct_map slice_range_def distinct_upt inj_on_of_nat)

lemma held_iff:
  assumes "map sl_Index ss = slice_range plan" and "inj_on (ChildID sha256 p) (sl_Index ` set ss)" and "set xs \<subseteq> set ss"
    and "st_order_id ` set children = (\<lambda>sl. ChildID sha256 p (sl_Index sl)) ` set xs" and "x \<in> set ss"
  shows "held_ids children (ChildID sha256 p (sl_Index x)) \<longleftrightarrow> x \<in> set xs"
proof -
  have "x = y" if "y \<in> set xs" "ChildID sha256 p (sl_Index x) = ChildID sha256 p (sl_Index y)" for y
    using that assms(3,5) inj_onD [OF assms(2) that(2)] inj_onD [OF slice_index_inj [OF assms(1)]] by blast
  then show ?thesis by (auto simp: held_ids_def assms(4))
qed

lemma Complete_iff:
  assumes "schedule_of sha256 st ss" and "parentOf st = Inr parent"
    and "inj_on (ChildID sha256 (st_order_id st)) (sl_Index ` set ss)" and "set xs \<subseteq> set ss"
    and "st_order_id ` set children = (\<lambda>sl. ChildID sha256 (st_order_id st) (sl_Index sl)) ` set xs"
  shows "Complete sha256 parent (held_ids children) \<longleftrightarrow> set xs = set ss"
proof -
  obtain plan where plan: "planFromOrder st = Inr plan" and p: "pa_Plan parent = plan" "pa_OrderID parent = st_order_id st"
    using assms(2) by (auto simp: parentOf_def split: sum.splits)
  note sl = schedule_of_slices [OF assms(1) plan]
  note held = held_iff [OF sl(1) assms(3,4,5)]
  have "Complete sha256 parent (held_ids children) \<longleftrightarrow>
      (\<forall>x\<in>set ss. held_ids children (ChildID sha256 (st_order_id st) (sl_Index x)))"
    using sl(5) by (simp add: Complete_def p list_all_iff flip: sl(1))
  then show ?thesis using held assms(4) by auto
qed

section \<open>Admission of the children\<close>

lemma nth_slice: "map sl_Index ss = slice_range plan \<Longrightarrow> x \<in> set ss \<Longrightarrow> ss ! nat (sl_Index x) = x"
proof -
  assume idx: "map sl_Index ss = slice_range plan" and "x \<in> set ss"
  then obtain i where i: "i < length ss" "ss ! i = x" by (auto simp: in_set_conv_nth)
  then have "map sl_Index ss ! i = sl_Index x" by simp
  moreover have "length ss = slices_of plan" using idx [THEN arg_cong [where f = length]] by (simp add: slice_range_def)
  ultimately have "sl_Index x = int i" using i by (simp add: idx slice_range_def)
  then show ?thesis using i by simp
qed

lemma find_slice:
  assumes "map sl_Index ss = slice_range plan" and "inj_on (ChildID sha256 p) (sl_Index ` set ss)" and "x \<in> set ss"
  shows "find (\<lambda>sl. ChildID sha256 p (sl_Index sl) = ChildID sha256 p (sl_Index x)) ss = Some x"
proof (cases "find (\<lambda>sl. ChildID sha256 p (sl_Index sl) = ChildID sha256 p (sl_Index x)) ss")
  case None
  then show ?thesis using assms(3) by (auto simp: find_None_iff)
next
  case (Some y)
  then have "y \<in> set ss" "ChildID sha256 p (sl_Index y) = ChildID sha256 p (sl_Index x)"
    by (auto simp: find_Some_iff)
  then have "y = x" using assms(2,3) slice_index_inj [OF assms(1)] by (auto dest!: inj_onD)
  then show ?thesis using Some by simp
qed

text \<open>The decision on a child of a working parent, by the slice that its id names.\<close>

lemma authorizeChild_slice:
  assumes "load (sub_parent_order_id cmd) = Loaded st" and "st_status st = ORDER_STATUS_WORKING_SCHEDULED"
    and "planFromOrder st = Inr plan"
    and "\<And>qs. algo_Run plan qs (Some (scheduleMarket sha256 s st)) = Inr ss" and "map sl_Index ss = slice_range plan"
    and "find (\<lambda>sl. ChildID sha256 (sub_parent_order_id cmd) (sl_Index sl) = sub_order_id cmd) ss = Some x"
  shows "authorizeChild sha256 s load cmd = Authorized st \<longleftrightarrow>
    FromProtoChecked (sub_quantity cmd) = Some (sl_Quantity x) \<and> sub_portfolio_id cmd = st_portfolio_id st
    \<and> sub_instrument_id cmd = st_instrument_id st \<and> sub_side cmd = st_side st"
proof -
  have "x \<in> set ss" using assms(6) by (auto simp: find_Some_iff)
  then have "ss ! nat (sl_Index x) = x" by (rule nth_slice [OF assms(5)])
  then show ?thesis using assms(1-4,6) by (simp add: authorizeChild_def Let_def)
qed

text \<open>
  C13: A slice that the driver sends is admitted exactly when its quantity survives the wire. Admission of a child
  re-derives the schedule of the parent, on any pod, and accepts the command the driver builds if and only if the decimal
  it carries is the quantity of the slice itself, with no rounding.
\<close>

theorem driven_child_admitted_iff_exact:
  assumes "schedule_of sha256 st ss" and "st_status st = ORDER_STATUS_WORKING_SCHEDULED"
    and "inj_on (ChildID sha256 (st_order_id st)) (sl_Index ` set ss)"
    and "drive_due sha256 s st children now = Inr due" and "c \<in> set due" and "child_command st c = Some cmd"
    and "load (st_order_id st) = Loaded st"
  shows "authorizeChild sha256 s' load cmd = Authorized st \<longleftrightarrow> FromProtoChecked (sub_quantity cmd) = Some (ch_Quantity c)"
proof -
  obtain plan where plan: "planFromOrder st = Inr plan"
    and run: "\<And>s qs. algo_Run plan qs (Some (scheduleMarket sha256 s st)) = Inr ss"
    using assms(1) by (auto simp: schedule_of_def)
  note idx = schedule_of_slices(1) [OF assms(1) plan]
  obtain x where x: "x \<in> set ss" "c = child_of sha256 (st_order_id st) x"
    using assms(5) drive_due_slices [OF assms(1,4)] by (auto simp: algo_Due_def split: if_splits)
  have cmd: "sub_parent_order_id cmd = st_order_id st" "sub_order_id cmd = ChildID sha256 (st_order_id st) (sl_Index x)"
      "sub_portfolio_id cmd = st_portfolio_id st" "sub_instrument_id cmd = st_instrument_id st" "sub_side cmd = st_side st"
    using assms(6) x by (auto simp: child_command_def submitFromState_def Let_def split: option.splits)
  show ?thesis
    using authorizeChild_slice [OF _ assms(2) plan run idx, of load cmd x] find_slice [OF idx assms(3) x(1)] assms(7) cmd x(2)
    by simp
qed

text \<open>
  C14: Forging a child gains no quantity. Whatever command admission accepts as a child of a stored parent carries the id,
  the quantity, the portfolio, the instrument and the side of a child that the driver of the same parent would itself
  send by the end of the window.
\<close>

theorem authorized_child_is_a_slice:
  assumes "authorizeChild sha256 s load cmd = Authorized st" and "load (sub_parent_order_id cmd) = Loaded st"
    and "st_order_id st = sub_parent_order_id cmd" and "UsableParentID (st_order_id st) = None"
    and "parentOf st = Inr parent" and "End (pa_Plan parent) \<le> now"
  shows "\<exists>due c. drive_due sha256 s st [] now = Inr due \<and> c \<in> set due
    \<and> sub_order_id cmd = ch_OrderID c \<and> FromProtoChecked (sub_quantity cmd) = Some (ch_Quantity c)
    \<and> sub_portfolio_id cmd = st_portfolio_id st \<and> sub_instrument_id cmd = st_instrument_id st \<and> sub_side cmd = st_side st"
proof -
  have plan: "planFromOrder st = Inr (pa_Plan parent)" and par: "pa_OrderID parent = st_order_id st" "Terminal parent = IsTerminal st"
    using assms(5) by (auto simp: parentOf_def split: sum.splits)
  have working: "st_status st = ORDER_STATUS_WORKING_SCHEDULED"
    using assms(1,2) by (auto simp: authorizeChild_def Let_def split: if_splits)
  obtain ss x where run0: "algo_Run (pa_Plan parent) \<lparr>ps_OrderID = sub_parent_order_id cmd, Sent = None\<rparr>
        (Some (scheduleMarket sha256 s st)) = Inr ss"
      and x: "find (\<lambda>sl. ChildID sha256 (sub_parent_order_id cmd) (sl_Index sl) = sub_order_id cmd) ss = Some x"
    using assms(1,2) working plan by (auto simp: authorizeChild_def Let_def split: if_splits sum.splits option.splits)
  have run: "algo_Run (pa_Plan parent) qs (Some (scheduleMarket sha256 s st)) = Inr ss" for qs
    using run0 algo_Run_state by metis
  obtain ws where v: "plan_validate (pa_Plan parent) = None" and w: "weighted (pa_Plan parent) ws ss"
    using algo_Run_weighted [OF run] .
  have "algo_Due ss now = ss"
    using weighted_schedule(4) [OF v w] assms(6) by (force simp: algo_Due_def filter_id_conv)
  then have due: "drive_due sha256 s st [] now = Inr (map (child_of sha256 (st_order_id st)) ss)"
    using v working assms(4)
    by (auto simp: drive_due_def assms(5) schedule_Due_def par run Let_def held_ids_def child_of_def IsTerminal_def
      plan_validate_None split: option.splits)
  have "x \<in> set ss" "ChildID sha256 (sub_parent_order_id cmd) (sl_Index x) = sub_order_id cmd"
    using x by (auto simp: find_Some_iff)
  then show ?thesis
    using due assms(1,3) authorizeChild_slice [where cmd = cmd and load = load, OF assms(2) working plan run weighted_schedule(1) [OF v w] x]
    by (intro exI [of _ "map (child_of sha256 (st_order_id st)) ss"] exI [of _ "child_of sha256 (st_order_id st) x"]) auto
qed

text \<open>
  Admission of a child compares nothing else: not the order type, the prices, the time in force, the venue or the
  leverage. A child is not checked against the mandate or for a second signature again, so a forged slice of a limit
  order can be a levered market order on another venue.
\<close>

lemma slice_terms_not_compared:
  "authorizeChild sha256 s load (cmd\<lparr>sub_order_type := ty, sub_limit_price := lp, sub_stop_price := sp,
     sub_time_in_force := tif, sub_expire_at := ex, sub_venue := ve, sub_leverage := lv, sub_margin_mode := mm\<rparr>)
   = authorizeChild sha256 s load cmd"
  by (simp add: authorizeChild_def Let_def cong: load_result.case_cong if_cong option.case_cong sum.case_cong)

section \<open>Retirement and pace\<close>

lemma foldl_minus: "foldl (\<lambda>r d. r - f d) (a :: rat) ds = a - sum_list (map f ds)"
  by (induction ds arbitrary: a) simp_all

text \<open>
  A parent is retired only when every slice was sent and every child has finished; what is reported is the ordered
  quantity less what the children filled, within the rounding of the wire.
\<close>

lemma retired_only_finished:
  assumes "retire_decision sha256 st children = Retire qty" and "parentOf st = Inr parent"
  shows "Complete sha256 parent (held_ids children)" and "list_all IsTerminal children"
    and "\<bar>dval qty - max 0 (FromProto (st_ordered_quantity st) - (\<Sum>c\<leftarrow>children. FromProto (st_filled_quantity c)))\<bar>
      \<le> 5 / 9 * 10 powi sint (exponent qty)"
proof -
  have "ToProtoScaled (Some (quantity_less (st_ordered_quantity st) (map st_filled_quantity children))) = Some qty"
    and "Complete sha256 parent (held_ids children)" "list_all IsTerminal children"
    using assms by (auto simp: retire_decision_def Let_def split: if_splits option.splits)
  then show "Complete sha256 parent (held_ids children)" "list_all IsTerminal children"
    "\<bar>dval qty - max 0 (FromProto (st_ordered_quantity st) - (\<Sum>c\<leftarrow>children. FromProto (st_filled_quantity c)))\<bar>
      \<le> 5 / 9 * 10 powi sint (exponent qty)"
    using ToProtoScaled_sound by (auto simp: quantity_less_def foldl_minus comp_def)
qed

text \<open>
  Admission and the report of the tightest schedule agree: among parents that were admitted under a tick, no two
  consecutive slices are closer than the tick.
\<close>

lemma sint_slice_count: "sint (ucast (c :: 32 word) :: i64) = uint c"
proof -
  have "uint c < 4294967296" "0 \<le> uint c" using uint_lt2p [of c] by simp_all
  then have "- 9223372036854775808 \<le> uint c" "uint c \<le> 9223372036854775807" by linarith+
  then have "sint (word_of_int (uint c) :: i64) = uint c" using sint_of_i64 by blast
  then show ?thesis by simp
qed

definition drivable :: "duration \<Rightarrow> OrderState \<Rightarrow> bool" where
  "drivable tick st \<longleftrightarrow> (\<forall>p. parentOf st = Inr p \<longrightarrow> 1 < sint (Slices (pa_Plan p)) \<longrightarrow>
     tick \<le> time_Sub (End (pa_Plan p)) (Start (pa_Plan p)) sdiv sint (Slices (pa_Plan p)))"

lemma tightest_bound:
  "tightest ps g n = (Some gap, m) \<Longrightarrow> \<forall>x. g = Some x \<longrightarrow> tick \<le> x \<Longrightarrow>
   \<forall>p\<in>set ps. 1 < sint (Slices p) \<longrightarrow> tick \<le> time_Sub (End p) (Start p) sdiv sint (Slices p) \<Longrightarrow> tick \<le> gap"
proof (induction ps g n rule: tightest.induct)
  case (1 gap n)
  then show ?case by simp
next
  case (2 p ps g n)
  show ?case
  proof (cases "sint (Slices p) \<le> 1")
    case True
    then show ?thesis using 2 by simp
  next
    case False
    then show ?thesis using 2 by (auto simp: Let_def split: option.splits if_splits)
  qed
qed

lemma validateSchedule_keeps:
  assumes "validateSchedule s cmd = Inr cmd'" and "sub_execution_schedule cmd = Some sch"
  obtains v w where "refuseUndrivableSchedule s cmd sch = None" and "plan_validate (admission_plan cmd sch) = None"
    and "cmd' = cmd\<lparr>sub_execution_schedule := Some (sch\<lparr>es_volume_profile_version := v, es_volume_profile := w\<rparr>)\<rparr>"
proof -
  obtain market profile where m: "currentMarket s (sub_instrument_id cmd) (sub_venue cmd) = (market, profile)"
    by fastforce
  have "refuseUndrivableSchedule s cmd sch = None \<and> (\<exists>ps ss. algo_Run (admission_plan cmd sch) ps (Some market) = Inr ss)
    \<and> (\<exists>v w. cmd' = cmd\<lparr>sub_execution_schedule := Some (sch\<lparr>es_volume_profile_version := v, es_volume_profile := w\<rparr>)\<rparr>)"
    using assms(1) unfolding validateSchedule_def assms(2)
    by (auto simp: m Let_def split: if_splits option.splits sum.splits)
  then show thesis using that algo_Run_weighted by metis
qed

lemma admitted_drivable:
  assumes "validateSchedule s cmd = Inr cmd'" and "sub_execution_schedule cmd = Some sch" and "Accept cmd' now = Inr st"
    and "0 < scheduleInterval s"
  shows "drivable (scheduleInterval s) (link_schedule cmd' st)"
proof -
  obtain v w where ref: "refuseUndrivableSchedule s cmd sch = None" and ok: "plan_validate (admission_plan cmd sch) = None"
    and c: "cmd' = cmd\<lparr>sub_execution_schedule := Some (sch\<lparr>es_volume_profile_version := v, es_volume_profile := w\<rparr>)\<rparr>"
    by (rule validateSchedule_keeps [OF assms(1,2)])
  have win: "instant_of (es_window_start sch) < instant_of (es_window_end sch)" "0 < uint (es_slice_count sch)"
    using ok by (auto simp: plan_validate_None admission_plan_def sint_slice_count)
  have gap: "scheduleInterval s \<le> time_Sub (instant_of (es_window_end sch)) (instant_of (es_window_start sch)) sdiv uint (es_slice_count sch)"
    using ref win assms(4) by (auto simp: refuseUndrivableSchedule_def Let_def split: if_splits)
  have "st = initial_state cmd' now" using assms(3) by (auto simp: Accept_def split: if_splits option.splits)
  then have "st_execution_schedule (link_schedule cmd' st) = Some (sch\<lparr>es_volume_profile_version := v, es_volume_profile := w\<rparr>)"
    by (simp add: link_schedule_def c initial_state_def Let_def)
  then show ?thesis
    using gap by (simp add: drivable_def parentOf_def planFromOrder_def sint_slice_count)
qed

lemma working_schedules_drivable:
  assumes "list_all (drivable tick) working" and "TightestSliceInterval working = (Some gap, n)"
  shows "tick \<le> gap"
proof -
  have "\<forall>p\<in>set (concat (map (\<lambda>st. case parentOf st of Inl e \<Rightarrow> [] | Inr p \<Rightarrow> [pa_Plan p]) working)).
      1 < sint (Slices p) \<longrightarrow> tick \<le> time_Sub (End p) (Start p) sdiv sint (Slices p)"
    using assms(1) by (auto simp: list_all_iff drivable_def split: sum.splits)
  then show ?thesis using assms(2) tightest_bound unfolding TightestSliceInterval_def by blast
qed

section \<open>Samples\<close>

definition sample_service :: ScheduleService where
  "sample_service = \<lparr>volumeProfiles = Some (NewProfileRegistry 0), scheduleInterval = 0\<rparr>"

text \<open>A buy of the given quantity, worked as a TWAP over 400 seconds in the given number of slices.\<close>

definition sample_submit :: "int \<Rightarrow> 32 word \<Rightarrow> SubmitOrder" where
  "sample_submit quantity slices =
     \<lparr>sub_metadata = None, sub_order_id = ''p1'', sub_portfolio_id = ''growth'', sub_instrument_id = ''BTC'',
      sub_side = SIDE_BUY, sub_quantity = Some \<lparr>coefficient = word_of_int quantity, exponent = 0\<rparr>,
      sub_order_type = ORDER_TYPE_MARKET, sub_limit_price = None, sub_stop_price = None,
      sub_time_in_force = TIME_IN_FORCE_GTC, sub_expire_at = None, sub_venue = ''X'',
      sub_execution_schedule = Some \<lparr>es_algo = EXECUTION_ALGO_TWAP, es_window_start = Some 1000000000,
        es_window_end = Some 401000000000, es_slice_count = slices, es_max_slice_quantity = None,
        es_max_participation_rate = None, es_volume_profile_version = [], es_volume_profile = None\<rparr>,
      sub_parent_order_id = [], sub_leverage = None, sub_margin_mode = MARGIN_MODE_UNSPECIFIED\<rparr>"

definition sample_parent :: "int \<Rightarrow> 32 word \<Rightarrow> OrderState" where
  "sample_parent quantity slices = link_schedule (sample_submit quantity slices) (initial_state (sample_submit quantity slices) 5)"

lemma sample_admitted:
  "validateSchedule sample_service (sample_submit 10 4) = Inr (sample_submit 10 4)"
  "Accept (sample_submit 10 4) 5 = Inr (initial_state (sample_submit 10 4) 5)"
  by code_simp+

lemma sample_plan_TWAP: "algo_Run p qs m = TWAP p" if "Algo p = ''TWAP''"
  using that by (simp add: algo_Run_def algo_Lookup_def Registered_def)

definition sample_slices :: "Slice list" where
  "sample_slices = map (\<lambda>i. \<lparr>sl_Index = i, sl_Due = 1000000000 + i * 100000000000, sl_Quantity = 5 / 2\<rparr>) [0, 1, 2, 3]"

definition working_plan :: Plan where
  "working_plan = \<lparr>Algo = ''TWAP'', plan_InstrumentID = ''BTC'', Total = Some 10, Start = 1000000000, End = 401000000000,
     Slices = 4, MaxSlice = None, MaxParticipation = None\<rparr>"

lemma sample_parent_plan: "planFromOrder (sample_parent 10 4) = Inr working_plan"
  by code_simp

lemma sample_parent_of: "parentOf (sample_parent 10 4) = Inr \<lparr>pa_OrderID = ''p1'', Terminal = False, pa_Plan = working_plan\<rparr>"
  by code_simp

lemma working_plan_TWAP: "TWAP working_plan = Inr sample_slices"
  by code_simp

lemma sample_schedule: "schedule_of sha256 (sample_parent 10 4) sample_slices"
proof -
  have "Algo working_plan = ''TWAP''" by (simp add: working_plan_def)
  then show ?thesis using sample_plan_TWAP [of working_plan] working_plan_TWAP by (simp add: schedule_of_def sample_parent_plan)
qed

text \<open>Child ids under a stand-in for the hash that reverses its input.\<close>

definition sample_children :: "Child list" where
  "sample_children = map (child_of rev ''p1'') sample_slices"

lemma sample_ids: "inj_on (ChildID rev (st_order_id (sample_parent 10 4))) (sl_Index ` set sample_slices)"
proof -
  have "distinct (map (ChildID rev (st_order_id (sample_parent 10 4))) (map sl_Index sample_slices))" by code_simp
  then have "inj_on (ChildID rev (st_order_id (sample_parent 10 4))) (set (map sl_Index sample_slices))"
    by (simp only: distinct_map [of _ "map sl_Index sample_slices"])
  then show ?thesis by (simp only: set_map)
qed

lemma sample_due: "drive_due rev sample_service (sample_parent 10 4) [] 1000000000 = Inr (take 1 sample_children)"
  by code_simp

theorem admitted_schedule_is_one_witness:
  "\<exists>ss. schedule_of rev (link_schedule (sample_submit 10 4) (initial_state (sample_submit 10 4) 5)) ss
     \<and> algo_Sum ss = FromProto (Some \<lparr>coefficient = 10, exponent = 0\<rparr>)"
proof -
  have "registry_built rev (\<lambda>_. None) (NewProfileRegistry 0)" by (rule registry_built.new)
  moreover have "sub_execution_schedule (sample_submit 10 4) \<noteq> None"
      "sub_quantity (sample_submit 10 4) = Some \<lparr>coefficient = 10, exponent = 0\<rparr>" by (simp_all add: sample_submit_def)
  ultimately show ?thesis
    using admitted_schedule_is_one [OF sample_admitted(1) _ sample_admitted(2), of "NewProfileRegistry 0" rev]
    by (simp add: sample_service_def)
qed

definition sample_command :: SubmitOrder where
  "sample_command = the (child_command (sample_parent 10 4) (hd sample_children))"

lemma sample_command: "child_command (sample_parent 10 4) (hd sample_children) = Some sample_command"
  by code_simp

theorem driven_child_admitted_iff_exact_witness:
  "authorizeChild rev sample_service (\<lambda>_. Loaded (sample_parent 10 4)) sample_command = Authorized (sample_parent 10 4)
   \<longleftrightarrow> FromProtoChecked (sub_quantity sample_command) = Some (ch_Quantity (hd sample_children))"
proof -
  have "st_status (sample_parent 10 4) = ORDER_STATUS_WORKING_SCHEDULED" by code_simp
  moreover have "hd sample_children \<in> set (take 1 sample_children)" by (simp add: sample_children_def sample_slices_def)
  ultimately show ?thesis
    using driven_child_admitted_iff_exact [OF sample_schedule _ sample_ids sample_due _ sample_command] by simp
qed

lemma sample_authorized:
  "authorizeChild rev sample_service (\<lambda>_. Loaded (sample_parent 10 4)) sample_command = Authorized (sample_parent 10 4)"
  by code_simp

theorem authorized_child_is_a_slice_witness:
  "\<exists>due c. drive_due rev sample_service (sample_parent 10 4) [] 401000000000 = Inr due \<and> c \<in> set due
     \<and> sub_order_id sample_command = ch_OrderID c \<and> FromProtoChecked (sub_quantity sample_command) = Some (ch_Quantity c)"
proof -
  have "st_order_id (sample_parent 10 4) = sub_parent_order_id sample_command" by code_simp
  moreover have "UsableParentID (st_order_id (sample_parent 10 4)) = None" by code_simp
  ultimately show ?thesis
    using authorized_child_is_a_slice [OF sample_authorized _ _ _ sample_parent_of, of 401000000000]
    by (auto simp: working_plan_def)
qed

text \<open>
  Ten in three slices is admitted, but the first child carries \<open>3.33333333\<close>, not \<open>10/3\<close>, and is refused: the parent
  never advances.
\<close>

definition first_verdict :: "int \<Rightarrow> 32 word \<Rightarrow> child_verdict option" where
  "first_verdict quantity slices =
     (case drive_due rev sample_service (sample_parent quantity slices) [] 1000000000 of
        Inr (c # cs) \<Rightarrow>
          map_option (authorizeChild rev sample_service (\<lambda>_. Loaded (sample_parent quantity slices)))
            (child_command (sample_parent quantity slices) c)
      | _ \<Rightarrow> None)"

lemma thirds_never_sent:
  "validateSchedule sample_service (sample_submit 10 3) = Inr (sample_submit 10 3)"
  "first_verdict 10 3 = Some (Child_refused (''SLICE_QUANTITY_MISMATCH'',
     Quantity_is_not_the_slice (ChildID rev ''p1'' 0) 0 ''p1'' (Some (333333333 / 100000000)) (10 / 3)))"
  by code_simp+

end
