(* ===== verification/Order_Store.thy ===== *)
theory Order_Store
  imports Fill_Fact Outbox_Relay "HOL-Library.AList"
begin

text \<open>
  The order store (\<open>services/oms/internal/order/store.go\<close>): admission by creation, compare-and-swap saves that claim
  the fill they fold and enqueue their announcements in one step, and the reads. With it the execution an announcement
  carries (\<open>execution_journal.go\<close>) and the recovered execution (\<open>internal/fillfact/recovery.go\<close>).

  \<^item> The store's lock makes each operation one step. A map is an association list with distinct keys; the order in which
    a map is iterated shows only in \<open>List\<close>, \<open>ListByStatus\<close> and \<open>ListByParent\<close>, whose results are read as sets.
  \<^item> Decoding a payload is a field of \<open>order_codec\<close>. A version is unbounded: reaching \<open>2^63\<close> takes that many saves.
  \<^item> \<open>InDomainDeep\<close> visits every decimal below a message; for a state these are \<open>state_decimals\<close>.
\<close>

section \<open>Announced executions\<close>

record order_codec =
  oc_fill :: fill_lib
  oc_UnmarshalFilled :: "string \<Rightarrow> Fill option option"
  oc_UnmarshalPartiallyFilled :: "string \<Rightarrow> Fill option option"
  oc_UnmarshalRecovered :: "string \<Rightarrow> (Fill option \<times> OrderState option) option"

definition schedule_decimals :: "ExecutionSchedule \<Rightarrow> decimal option list" where
  "schedule_decimals sch =
     [es_max_slice_quantity sch, es_max_participation_rate sch]
     @ (case es_volume_profile sch of None \<Rightarrow> [] | Some pb \<Rightarrow> map Some (vp_expected_volume pb))"

definition state_decimals :: "OrderState \<Rightarrow> decimal option list" where
  "state_decimals st =
     [st_ordered_quantity st, st_limit_price st, st_stop_price st, st_arrival_price st, st_filled_quantity st,
      st_leaves_quantity st, st_average_fill_price st, st_leverage st, st_release_price st, st_release_bid st, st_release_ask st]
     @ (case st_execution_schedule st of None \<Rightarrow> [] | Some sch \<Rightarrow> schedule_decimals sch)"

definition SubjectFilled :: string where
  "SubjectFilled = ''order.order.filled''"

definition SubjectPartiallyFilled :: string where
  "SubjectPartiallyFilled = ''order.order.partially_filled''"

definition SubjectRecovered :: string where
  "SubjectRecovered = ''order.order.execution_recovered''"

datatype recovery_error =
  Payload_bound | Recovery_unreadable | Inconsistent_attribution | Invalid_decimal_domain | Execution_invalid fill_error
  | Digest_mismatch

definition DecodeRecovery :: "order_codec \<Rightarrow> string \<Rightarrow> recovery_error + (Fill \<times> string)" where
  "DecodeRecovery lib payload =
     (if length payload > 2 ^ 20 then Inl Payload_bound
      else case oc_UnmarshalRecovered lib payload of
        None \<Rightarrow> Inl Recovery_unreadable
      | Some (Some f, Some st) \<Rightarrow>
          (case fill_recovery f of
             None \<Rightarrow> Inl Inconsistent_attribution
           | Some recovery \<Rightarrow>
               if st_portfolio_id st = [] \<or> fill_order_id f \<noteq> st_order_id st \<or> fill_venue f \<noteq> st_venue st
                  \<or> fill_venue_account_id f \<noteq> st_venue_account_id st \<or> fill_instrument_id f \<noteq> st_instrument_id st
                  \<or> fill_side f \<noteq> st_side st then Inl Inconsistent_attribution
               else if \<not> (fill_in_domain f \<and> list_all InDomain (state_decimals st)) then Inl Invalid_decimal_domain
               else case Validate f of
                 Some e \<Rightarrow> Inl (Execution_invalid e)
               | None \<Rightarrow>
                   (case ExecutionDigest (oc_fill lib) (Some f) of
                      Inl e \<Rightarrow> Inl (Execution_invalid e)
                    | Inr d \<Rightarrow>
                        if d \<noteq> rec_execution_digest recovery then Inl Digest_mismatch
                        else if rec_fee_approval recovery \<noteq> None then
                          (case FeeRevisionTerms (oc_fill lib) f of
                             Inl e \<Rightarrow> Inl (Execution_invalid e)
                           | Inr terms \<Rightarrow> Inr (f, st_portfolio_id st))
                        else Inr (f, st_portfolio_id st)))
      | Some _ \<Rightarrow> Inl Inconsistent_attribution)"

datatype ostore_error =
    Empty_order_id | Order_not_found | Order_exists | Order_changed | Fill_applied | Execution_identity_conflict
  | Recovery_refused recovery_error | Fill_unreadable | Claim_disagrees | Many_executions | Enqueue_failed string

text \<open>One record of the loop: \<^const>\<open>None\<close> is a record of another type.\<close>

definition record_execution :: "order_codec \<Rightarrow> Record \<Rightarrow> (ostore_error + Fill option) option" where
  "record_execution lib r =
     (if EventType r = SubjectRecovered then
        Some (case DecodeRecovery lib (Payload r) of Inl e \<Rightarrow> Inl (Recovery_refused e) | Inr (f, _) \<Rightarrow> Inr (Some f))
      else if EventType r = SubjectFilled then
        Some (case oc_UnmarshalFilled lib (Payload r) of None \<Rightarrow> Inl Fill_unreadable | Some f \<Rightarrow> Inr f)
      else if EventType r = SubjectPartiallyFilled then
        Some (case oc_UnmarshalPartiallyFilled lib (Payload r) of None \<Rightarrow> Inl Fill_unreadable | Some f \<Rightarrow> Inr f)
      else None)"

fun announced_loop :: "order_codec \<Rightarrow> string \<Rightarrow> string \<Rightarrow> Fill option \<Rightarrow> Record list \<Rightarrow> ostore_error + Fill option" where
  "announced_loop lib orderID fillID found [] = Inr found"
| "announced_loop lib orderID fillID found (r # rs) =
     (case record_execution lib r of
        None \<Rightarrow> announced_loop lib orderID fillID found rs
      | Some (Inl e) \<Rightarrow> Inl e
      | Some (Inr f) \<Rightarrow>
          if (case f of None \<Rightarrow> [] | Some x \<Rightarrow> fill_id x) \<noteq> fillID \<or> (case f of None \<Rightarrow> [] | Some x \<Rightarrow> fill_order_id x) \<noteq> orderID
          then Inl Claim_disagrees
          else if found \<noteq> None then Inl Many_executions
          else announced_loop lib orderID fillID f rs)"

definition announcedExecution :: "order_codec \<Rightarrow> string \<Rightarrow> string \<Rightarrow> Record list \<Rightarrow> ostore_error + Fill option" where
  "announcedExecution lib orderID fillID records = announced_loop lib orderID fillID None records"

section \<open>The store\<close>

record memoryFillClaim =
  fc_orderID :: string
  rawID :: string
  fc_fill :: "Fill option"

record OrderMemory =
  orders :: "(string \<times> (OrderState \<times> int)) list"
  om_outbox :: Memory
  appliedFills :: "(string \<times> memoryFillClaim) list"

definition NewOrderMemory :: OrderMemory where
  "NewOrderMemory = \<lparr>orders = [], om_outbox = NewMemory, appliedFills = []\<rparr>"

definition enqueue :: "instant \<Rightarrow> Record list \<Rightarrow> OrderMemory \<Rightarrow> string option \<times> OrderMemory" where
  "enqueue now announce m =
     (if announce = [] then (None, m)
      else case mem_Append now announce (om_outbox m) of (err, q) \<Rightarrow> (err, m\<lparr>om_outbox := q\<rparr>))"

definition order_Create :: "instant \<Rightarrow> OrderState \<Rightarrow> Record list \<Rightarrow> OrderMemory \<Rightarrow> ostore_error option \<times> OrderMemory" where
  "order_Create now st announce m =
     (if st_order_id st = [] then (Some Empty_order_id, m)
      else if map_of (orders m) (st_order_id st) \<noteq> None then (Some Order_exists, m)
      else case enqueue now announce m of
        (Some e, m') \<Rightarrow> (Some (Enqueue_failed e), m')
      | (None, m') \<Rightarrow> (None, m'\<lparr>orders := AList.update (st_order_id st) (st, 0) (orders m')\<rparr>))"

text \<open>The claim checks of \<open>Save\<close>: \<open>key\<close> is the execution's key, or the fill id when no execution is announced.\<close>

definition claim_refusal :: "OrderMemory \<Rightarrow> string \<Rightarrow> string \<Rightarrow> string \<Rightarrow> Fill option \<Rightarrow> ostore_error option" where
  "claim_refusal m oid fillID key fill =
     (let legacy = (if key \<noteq> fillID then
           (case map_of (appliedFills m) fillID of
              None \<Rightarrow> None
            | Some c \<Rightarrow> Some (if fc_orderID c = oid then Fill_applied else Execution_identity_conflict))
         else if list_ex (\<lambda>(heldKey, c). heldKey \<noteq> fillID \<and> rawID c = fillID) (appliedFills m) then Some Fill_applied
         else None)
      in case legacy of
        Some e \<Rightarrow> Some e
      | None \<Rightarrow>
          (case map_of (appliedFills m) key of
             None \<Rightarrow> None
           | Some original \<Rightarrow>
               if (key \<noteq> fillID \<or> fc_orderID original = oid) \<and> fc_fill original \<noteq> None \<and> fill \<noteq> None
                  \<and> \<not> SameExecution (fc_fill original) fill then Some Execution_identity_conflict
               else Some Fill_applied))"

definition order_Save :: "order_codec \<Rightarrow> instant \<Rightarrow> OrderState \<Rightarrow> int \<Rightarrow> Record list \<Rightarrow> string \<Rightarrow> OrderMemory
    \<Rightarrow> ostore_error option \<times> OrderMemory" where
  "order_Save lib now st expectedVersion announce fillID m =
     (if st_order_id st = [] then (Some Empty_order_id, m)
      else case map_of (orders m) (st_order_id st) of
        None \<Rightarrow> (Some Order_not_found, m)
      | Some (cur, ver) \<Rightarrow>
          if ver \<noteq> expectedVersion then (Some Order_changed, m)
          else case (if fillID = [] then Inr None else announcedExecution lib (st_order_id st) fillID announce) of
            Inl e \<Rightarrow> (Some e, m)
          | Inr fill \<Rightarrow>
              let key = (case fill of None \<Rightarrow> fillID | Some f \<Rightarrow> ExecutionKey (oc_fill lib) f) in
              (case (if fillID = [] then None else claim_refusal m (st_order_id st) fillID key fill) of
                 Some e \<Rightarrow> (Some e, m)
               | None \<Rightarrow>
                   (case enqueue now announce m of
                      (Some e, m') \<Rightarrow> (Some (Enqueue_failed e), m')
                    | (None, m') \<Rightarrow>
                        (None, m'\<lparr>appliedFills := (if fillID = [] then appliedFills m' else
                                 AList.update key \<lparr>fc_orderID = st_order_id st, rawID = fillID, fc_fill = fill\<rparr> (appliedFills m')),
                               orders := AList.update (st_order_id st) (st, ver + 1) (orders m')\<rparr>))))"

definition AppliedFills :: "OrderMemory \<Rightarrow> string \<Rightarrow> string set" where
  "AppliedFills m orderID =
     (if orderID = [] then {} else set (map (\<lambda>(k, c). rawID c) (filter (\<lambda>(k, c). fc_orderID c = orderID) (appliedFills m))))"

definition order_Load :: "OrderMemory \<Rightarrow> string \<Rightarrow> ostore_error + (OrderState \<times> int)" where
  "order_Load m orderID = (case map_of (orders m) orderID of None \<Rightarrow> Inl Order_not_found | Some v \<Rightarrow> Inr v)"

definition order_List :: "OrderMemory \<Rightarrow> OrderState list" where
  "order_List m = map (\<lambda>(k, st, v). st) (orders m)"

definition ListByPortfolio :: "OrderMemory \<Rightarrow> string \<Rightarrow> int \<Rightarrow> OrderState list" where
  "ListByPortfolio m portfolioID limit =
     (if portfolioID = [] then []
      else
        let out = rev (sort_key (\<lambda>st. (case st_as_of st of None \<Rightarrow> AsTime None | Some t \<Rightarrow> t, st_order_id st))
              (filter (\<lambda>st. st_portfolio_id st = portfolioID) (order_List m)))
        in if limit > 0 \<and> int (length out) > limit then take (nat limit) out else out)"

definition ListByStatus :: "OrderMemory \<Rightarrow> OrderStatus list \<Rightarrow> OrderState list" where
  "ListByStatus m statuses =
     (if statuses = [] then [] else filter (\<lambda>st. st_status st \<in> set statuses) (order_List m))"

definition ListByParent :: "OrderMemory \<Rightarrow> string \<Rightarrow> OrderState list" where
  "ListByParent m parentID =
     (if parentID = [] then [] else filter (\<lambda>st. st_parent_order_id st = parentID) (order_List m))"

section \<open>What a write does\<close>

lemma update_absent: "k \<notin> fst ` set xs \<Longrightarrow> AList.update k v xs = xs @ [(k, v)]"
  by (induction xs) auto

lemma map_of_update: "map_of (AList.update k v xs) = (map_of xs)(k \<mapsto> v)"
  by (rule ext) (simp add: update_conv)

lemma mem_Append_rows: "mem_Append now rs q = (None, q') \<Longrightarrow> map rec (rows q') = map rec (rows q) @ rs"
  by (induction rs arbitrary: q) (auto split: if_splits)

lemma enqueue_frame: "enqueue now announce m = (e, m') \<Longrightarrow> orders m' = orders m \<and> appliedFills m' = appliedFills m"
  by (auto simp: enqueue_def split: if_splits prod.splits)

lemma enqueue_rows:
  "enqueue now announce m = (None, m') \<Longrightarrow> map rec (rows (om_outbox m')) = map rec (rows (om_outbox m)) @ announce"
  by (auto simp: enqueue_def dest: mem_Append_rows split: if_splits prod.splits)

lemma claim_refusal_None: "claim_refusal m oid fillID key fill = None \<Longrightarrow> key \<notin> fst ` set (appliedFills m)"
  by (auto simp: claim_refusal_def Let_def map_of_eq_None_iff [symmetric] split: option.splits if_splits)

lemma Create_frame:
  assumes "order_Create now st announce m = (r, m')"
  shows "appliedFills m' = appliedFills m"
    and "r \<noteq> None \<Longrightarrow> orders m' = orders m"
    and "r = None \<Longrightarrow> map_of (orders m) (st_order_id st) = None \<and> map_of (orders m') = (map_of (orders m))(st_order_id st \<mapsto> (st, 0))
      \<and> map rec (rows (om_outbox m')) = map rec (rows (om_outbox m)) @ announce"
proof -
  show "appliedFills m' = appliedFills m"
    using assms by (auto simp: order_Create_def dest: enqueue_frame split: if_splits prod.splits option.splits)
  show "orders m' = orders m" if "r \<noteq> None"
    using assms that by (auto simp: order_Create_def dest: enqueue_frame split: if_splits prod.splits option.splits)
  assume "r = None"
  then obtain m1 where "map_of (orders m) (st_order_id st) = None" "enqueue now announce m = (None, m1)"
    "m' = m1\<lparr>orders := AList.update (st_order_id st) (st, 0) (orders m1)\<rparr>"
    using assms by (cases "map_of (orders m) (st_order_id st)") (auto simp: order_Create_def split: if_splits prod.splits option.splits)
  then show "map_of (orders m) (st_order_id st) = None \<and> map_of (orders m') = (map_of (orders m))(st_order_id st \<mapsto> (st, 0))
      \<and> map rec (rows (om_outbox m')) = map rec (rows (om_outbox m)) @ announce"
    using enqueue_frame enqueue_rows by (simp add: map_of_update)
qed

definition claim_key :: "order_codec \<Rightarrow> string \<Rightarrow> Fill option \<Rightarrow> string" where
  "claim_key lib fillID fill = (case fill of None \<Rightarrow> fillID | Some f \<Rightarrow> ExecutionKey (oc_fill lib) f)"

lemma Save_refused:
  "order_Save lib now st v announce fillID m = (Some e, m') \<Longrightarrow> orders m' = orders m \<and> appliedFills m' = appliedFills m"
  by (auto simp: order_Save_def Let_def dest: enqueue_frame split: if_splits prod.splits option.splits sum.splits)

lemma Save_done:
  assumes "order_Save lib now st v announce fillID m = (None, m')"
  shows "\<exists>cur. map_of (orders m) (st_order_id st) = Some (cur, v)"
    and "map_of (orders m') = (map_of (orders m))(st_order_id st \<mapsto> (st, v + 1))"
    and "map rec (rows (om_outbox m')) = map rec (rows (om_outbox m)) @ announce"
    and "fillID = [] \<Longrightarrow> appliedFills m' = appliedFills m"
    and "fillID \<noteq> [] \<Longrightarrow> \<exists>fill. announcedExecution lib (st_order_id st) fillID announce = Inr fill
      \<and> claim_key lib fillID fill \<notin> fst ` set (appliedFills m)
      \<and> appliedFills m' = appliedFills m @ [(claim_key lib fillID fill, \<lparr>fc_orderID = st_order_id st, rawID = fillID, fc_fill = fill\<rparr>)]"
proof -
  from assms obtain cur fill m1 where cur: "map_of (orders m) (st_order_id st) = Some (cur, v)"
    and fill: "(if fillID = [] then Inr None else announcedExecution lib (st_order_id st) fillID announce) = Inr fill"
    and claim: "fillID = [] \<or> claim_refusal m (st_order_id st) fillID (claim_key lib fillID fill) fill = None"
    and enq: "enqueue now announce m = (None, m1)"
    and m': "m' = m1\<lparr>appliedFills := (if fillID = [] then appliedFills m1 else AList.update (claim_key lib fillID fill)
        \<lparr>fc_orderID = st_order_id st, rawID = fillID, fc_fill = fill\<rparr> (appliedFills m1)),
      orders := AList.update (st_order_id st) (st, v + 1) (orders m1)\<rparr>"
    unfolding order_Save_def claim_key_def
    by (auto simp: Let_def split: if_splits prod.splits option.splits sum.splits)
  note fr = enqueue_frame [OF enq]
  show "\<exists>cur. map_of (orders m) (st_order_id st) = Some (cur, v)" using cur by blast
  show "map_of (orders m') = (map_of (orders m))(st_order_id st \<mapsto> (st, v + 1))" using fr by (simp add: m' map_of_update)
  show "map rec (rows (om_outbox m')) = map rec (rows (om_outbox m)) @ announce" using enqueue_rows [OF enq] by (simp add: m')
  show "appliedFills m' = appliedFills m" if "fillID = []" using fr that by (simp add: m')
  show "\<exists>fill. announcedExecution lib (st_order_id st) fillID announce = Inr fill
      \<and> claim_key lib fillID fill \<notin> fst ` set (appliedFills m)
      \<and> appliedFills m' = appliedFills m @ [(claim_key lib fillID fill, \<lparr>fc_orderID = st_order_id st, rawID = fillID, fc_fill = fill\<rparr>)]"
    if "fillID \<noteq> []"
    using that fill claim claim_refusal_None fr by (intro exI [of _ fill]) (auto simp: m' update_absent)
qed

section \<open>Concurrent writers\<close>

text \<open>
  Any number of clients on any number of pods: each loads orders, keeps what it loaded for as long as it likes, derives a
  new state from it and tries to save it under the version it loaded. A write may also set the fields that no quantity
  depends on (\<open>stamped\<close>: acknowledgements, announcement markers, quarantine, the schedule and its status). A fold of a
  fill claims the fill and announces its execution.
\<close>

definition stamped :: "OrderState \<Rightarrow> OrderState \<Rightarrow> bool" where
  "stamped st st' \<longleftrightarrow> st_order_id st' = st_order_id st \<and> st_ordered_quantity st' = st_ordered_quantity st
     \<and> st_filled_quantity st' = st_filled_quantity st \<and> st_leaves_quantity st' = st_leaves_quantity st
     \<and> (st_status st' = st_status st \<or> st_status st' \<noteq> ORDER_STATUS_FILLED)"

definition claims_event :: "order_codec \<Rightarrow> string \<Rightarrow> order_event \<Rightarrow> Record list \<Rightarrow> string \<Rightarrow> bool" where
  "claims_event lib oid ev announce fillID \<longleftrightarrow>
     (case ev of
        EvFill f _ \<Rightarrow> fillID = fill_id f \<and> fill_id f \<noteq> [] \<and> announcedExecution lib oid fillID announce = Inr (Some f)
      | _ \<Rightarrow> fillID = [])"

inductive store_world :: "order_codec \<Rightarrow> OrderMemory \<Rightarrow> (OrderState \<times> int) set \<Rightarrow> bool" for lib where
  start: "store_world lib NewOrderMemory {}"
| create: "store_world lib m loaded \<Longrightarrow> Accept cmd t = Inr st \<Longrightarrow> on_grid (FromProto (sub_quantity cmd)) \<Longrightarrow> stamped st st' \<Longrightarrow>
    order_Create now st' announce m = (r, m') \<Longrightarrow> store_world lib m' loaded"
| load: "store_world lib m loaded \<Longrightarrow> order_Load m oid = Inr sv \<Longrightarrow> store_world lib m (insert sv loaded)"
| event: "store_world lib m loaded \<Longrightarrow> (st, v) \<in> loaded \<Longrightarrow> grid_event ev \<Longrightarrow> apply_event st ev = Inr st1 \<Longrightarrow> stamped st1 st' \<Longrightarrow>
    claims_event lib (st_order_id st) ev announce fillID \<Longrightarrow>
    order_Save lib now st' v announce fillID m = (r, m') \<Longrightarrow> store_world lib m' loaded"
| mark: "store_world lib m loaded \<Longrightarrow> (st, v) \<in> loaded \<Longrightarrow> stamped st st' \<Longrightarrow>
    order_Save lib now st' v announce [] m = (r, m') \<Longrightarrow> store_world lib m' loaded"

definition claimed :: "OrderMemory \<Rightarrow> string \<Rightarrow> rat" where
  "claimed m oid = sum_list (map (\<lambda>(k, c). case fc_fill c of None \<Rightarrow> 0 | Some f \<Rightarrow> FromProto (fill_quantity f))
     (filter (\<lambda>(k, c). fc_orderID c = oid) (appliedFills m)))"

definition orders_ok :: "OrderMemory \<Rightarrow> (OrderState \<times> int) set \<Rightarrow> bool" where
  "orders_ok m loaded \<longleftrightarrow>
     (\<forall>oid st v. map_of (orders m) oid = Some (st, v) \<longrightarrow>
        st_order_id st = oid \<and> balanced st \<and> FromProto (st_filled_quantity st) = claimed m oid)
     \<and> (\<forall>oid. map_of (orders m) oid = None \<longrightarrow> claimed m oid = 0)
     \<and> distinct (map fst (appliedFills m))
     \<and> (\<forall>st v. (st, v) \<in> loaded \<longrightarrow> (\<exists>cur cv. map_of (orders m) (st_order_id st) = Some (cur, cv) \<and> v \<le> cv \<and> (v = cv \<longrightarrow> st = cur)))"

lemma orders_okI:
  assumes "\<And>oid st v. map_of (orders m) oid = Some (st, v) \<Longrightarrow>
      st_order_id st = oid \<and> balanced st \<and> FromProto (st_filled_quantity st) = claimed m oid"
    and "\<And>oid. map_of (orders m) oid = None \<Longrightarrow> claimed m oid = 0" and "distinct (map fst (appliedFills m))"
    and "\<And>st v. (st, v) \<in> loaded \<Longrightarrow>
      \<exists>cur cv. map_of (orders m) (st_order_id st) = Some (cur, cv) \<and> v \<le> cv \<and> (v = cv \<longrightarrow> st = cur)"
  shows "orders_ok m loaded"
  using assms unfolding orders_ok_def by blast

lemma orders_okD:
  assumes "orders_ok m loaded"
  shows "map_of (orders m) oid = Some (st, v) \<Longrightarrow>
      st_order_id st = oid \<and> balanced st \<and> FromProto (st_filled_quantity st) = claimed m oid"
    and "map_of (orders m) oid = None \<Longrightarrow> claimed m oid = 0" and "distinct (map fst (appliedFills m))"
    and "(st, v) \<in> loaded \<Longrightarrow>
      \<exists>cur cv. map_of (orders m) (st_order_id st) = Some (cur, cv) \<and> v \<le> cv \<and> (v = cv \<longrightarrow> st = cur)"
  using assms unfolding orders_ok_def by blast+

lemma orders_ok_cong: "orders m' = orders m \<Longrightarrow> appliedFills m' = appliedFills m \<Longrightarrow> orders_ok m' loaded = orders_ok m loaded"
  by (simp add: orders_ok_def claimed_def)

lemma stamped_balanced:
  "stamped st st' \<Longrightarrow> balanced st \<Longrightarrow> balanced st' \<and> FromProto (st_filled_quantity st') = FromProto (st_filled_quantity st)"
  by (auto simp: stamped_def balanced_def)

lemma claimed_append:
  "appliedFills m' = appliedFills m @ [(k, \<lparr>fc_orderID = o', rawID = raw, fc_fill = Some f\<rparr>)] \<Longrightarrow>
   claimed m' oid = claimed m oid + (if oid = o' then FromProto (fill_quantity f) else 0)"
  by (simp add: claimed_def)

lemma orders_ok_Create:
  assumes ok: "orders_ok m loaded" and b: "balanced st" "FromProto (st_filled_quantity st) = 0"
    and c: "order_Create now st announce m = (r, m')"
  shows "orders_ok m' loaded"
proof (cases "r = None")
  case False
  then show ?thesis using ok Create_frame(1,2) [OF c] orders_ok_cong [of m' m loaded] by blast
next
  case True
  note new = Create_frame(3) [OF c True] and old = orders_okD [OF ok]
  have cl: "claimed m' oid = claimed m oid" for oid using Create_frame(1) [OF c] by (simp add: claimed_def)
  show ?thesis
  proof (rule orders_okI)
    fix oid x v assume "map_of (orders m') oid = Some (x, v)"
    then show "st_order_id x = oid \<and> balanced x \<and> FromProto (st_filled_quantity x) = claimed m' oid"
      using new old(1) old(2) [of oid] b by (auto simp: cl split: if_splits)
  next
    fix oid assume "map_of (orders m') oid = None"
    then show "claimed m' oid = 0" using new old(2) by (simp add: cl split: if_splits)
  next
    show "distinct (map fst (appliedFills m'))" using old(3) Create_frame(1) [OF c] by simp
  next
    fix x v assume "(x, v) \<in> loaded"
    then obtain cur cv where "map_of (orders m) (st_order_id x) = Some (cur, cv) \<and> v \<le> cv \<and> (v = cv \<longrightarrow> x = cur)"
      using old(4) by blast
    then show "\<exists>cur cv. map_of (orders m') (st_order_id x) = Some (cur, cv) \<and> v \<le> cv \<and> (v = cv \<longrightarrow> x = cur)"
      using new by (cases "st_order_id x = st_order_id st") auto
  qed
qed

text \<open>A save that succeeds is derived from the state that is stored, whatever the client has kept.\<close>

lemma Save_current:
  assumes "orders_ok m loaded" and "(st, v) \<in> loaded" and "st_order_id st' = st_order_id st"
    and "order_Save lib now st' v announce fillID m = (None, m')"
  shows "map_of (orders m) (st_order_id st) = Some (st, v)"
  using Save_done(1) [OF assms(4)] orders_okD(4) [OF assms(1,2)] assms(3) by auto

lemma orders_ok_Save:
  assumes ok: "orders_ok m loaded" and l: "(st, v) \<in> loaded" and same: "st_order_id st' = st_order_id st"
    and sv: "order_Save lib now st' v announce fillID m = (r, m')"
    and b: "balanced st \<Longrightarrow> balanced st' \<and> FromProto (st_filled_quantity st') = FromProto (st_filled_quantity st) + d"
    and d0: "fillID = [] \<Longrightarrow> d = 0"
    and df: "fillID \<noteq> [] \<Longrightarrow> \<exists>f. announcedExecution lib (st_order_id st) fillID announce = Inr (Some f) \<and> d = FromProto (fill_quantity f)"
  shows "orders_ok m' loaded"
proof (cases r)
  case (Some e)
  then show ?thesis using ok Save_refused [of lib now st' v announce fillID m e m'] sv orders_ok_cong [of m' m loaded] by blast
next
  case None
  note saved = Save_done [OF sv [unfolded None]] and old = orders_okD [OF ok]
  have cur: "map_of (orders m) (st_order_id st) = Some (st, v)" using Save_current [OF ok l same] sv None by simp
  have cl: "claimed m' oid = claimed m oid + (if oid = st_order_id st then d else 0)" for oid
  proof (cases "fillID = []")
    case True
    then show ?thesis using saved(4) d0 by (simp add: claimed_def)
  next
    case False
    then show ?thesis using saved(5) df claimed_append [of m' m] by (fastforce simp: same)
  qed
  show ?thesis
  proof (rule orders_okI)
    fix oid x w assume "map_of (orders m') oid = Some (x, w)"
    then show "st_order_id x = oid \<and> balanced x \<and> FromProto (st_filled_quantity x) = claimed m' oid"
      using saved(2) old(1) [of oid] old(1) [OF cur] b same by (auto simp: cl split: if_splits)
  next
    fix oid assume "map_of (orders m') oid = None"
    then show "claimed m' oid = 0" using saved(2) old(2) by (simp add: cl same split: if_splits)
  next
    show "distinct (map fst (appliedFills m'))"
      using old(3) saved(4,5) by (cases "fillID = []") auto
  next
    fix x w assume "(x, w) \<in> loaded"
    then obtain c cv where "map_of (orders m) (st_order_id x) = Some (c, cv) \<and> w \<le> cv \<and> (w = cv \<longrightarrow> x = c)"
      using old(4) by blast
    then show "\<exists>c cv. map_of (orders m') (st_order_id x) = Some (c, cv) \<and> w \<le> cv \<and> (w = cv \<longrightarrow> x = c)"
      using saved(2) cur by (cases "st_order_id x = st_order_id st") (auto simp: same)
  qed
qed

lemma apply_event_order_id: "apply_event st ev = Inr st' \<Longrightarrow> st_order_id st' = st_order_id st"
proof -
  have "st_order_id (identity_of x) = st_order_id x" for x by (simp add: identity_of_def)
  then show "apply_event st ev = Inr st' \<Longrightarrow> st_order_id st' = st_order_id st" using identity_event by metis
qed

lemma store_world_ok: "store_world lib m loaded \<Longrightarrow> orders_ok m loaded"
proof (induction rule: store_world.induct)
  case start
  then show ?case by (simp add: orders_ok_def NewOrderMemory_def claimed_def)
next
  case (create m loaded cmd t st st' now announce r m')
  have "balanced st" "FromProto (st_filled_quantity st) = 0"
    using Accept_balanced [OF create.hyps(2,3)] Accept_Inr(1) [OF create.hyps(2)] by (simp_all add: initial_state_def)
  then show ?case
    using stamped_balanced [OF create.hyps(4)] orders_ok_Create [OF create.IH _ _ create.hyps(5)] by simp
next
  case (load m loaded oid sv)
  obtain x v where x: "sv = (x, v)" "map_of (orders m) oid = Some (x, v)"
    using load.hyps(2) by (cases sv) (auto simp: order_Load_def split: option.splits)
  show ?case
  proof (rule orders_okI)
    fix a b assume "(a, b) \<in> insert sv loaded"
    then show "\<exists>cur cv. map_of (orders m) (st_order_id a) = Some (cur, cv) \<and> b \<le> cv \<and> (b = cv \<longrightarrow> a = cur)"
      using x orders_okD(1) [OF load.IH x(2)] orders_okD(4) [OF load.IH] by auto
  qed (use orders_okD [OF load.IH] in auto)
next
  case (event m loaded st v ev st1 st' announce fillID now r m')
  show ?case
  proof (rule orders_ok_Save [OF event.IH event.hyps(2) _ event.hyps(7), where d = "filled_by ev"])
    show "st_order_id st' = st_order_id st"
      using event.hyps(4,5) apply_event_order_id by (auto simp: stamped_def)
    show "balanced st' \<and> FromProto (st_filled_quantity st') = FromProto (st_filled_quantity st) + filled_by ev" if "balanced st"
      using balanced_event [OF that event.hyps(3,4)] stamped_balanced [OF event.hyps(5)] by simp
  qed (use event.hyps(6) in \<open>auto simp: claims_event_def filled_by_def split: order_event.splits\<close>)
next
  case (mark m loaded st v st' now announce r m')
  show ?case
    by (rule orders_ok_Save [OF mark.IH mark.hyps(2) _ mark.hyps(4), where d = 0])
      (use stamped_balanced [OF mark.hyps(3)] mark.hyps(3) in \<open>auto simp: stamped_def\<close>)
qed


text \<open>
  C5: No update is lost and none is half done. In any interleaving, a save that succeeds was derived from the state that
  is in the store at that moment, becomes the stored state under the next version, touches no other order and enqueues
  exactly its announcements; a save that is refused leaves every order and every claim as it was.
\<close>

theorem no_lost_update:
  assumes "store_world lib m loaded" and "(st, v) \<in> loaded" and "st_order_id st' = st_order_id st"
    and "order_Save lib now st' v announce fillID m = (r, m')"
  shows "if r = None
    then order_Load m (st_order_id st) = Inr (st, v) \<and> order_Load m' (st_order_id st) = Inr (st', v + 1)
      \<and> (\<forall>oid. oid \<noteq> st_order_id st \<longrightarrow> order_Load m' oid = order_Load m oid)
      \<and> map rec (rows (om_outbox m')) = map rec (rows (om_outbox m)) @ announce
    else (\<forall>oid. order_Load m' oid = order_Load m oid) \<and> appliedFills m' = appliedFills m"
proof (cases r)
  case None
  then show ?thesis
    using Save_done(2,3) [of lib now st' v announce fillID m m'] assms(4)
      Save_current [OF store_world_ok [OF assms(1)] assms(2,3)] by (simp add: order_Load_def assms(3))
next
  case (Some e)
  then show ?thesis using Save_refused [of lib now st' v announce fillID m e m'] assms(4) by (simp add: order_Load_def)
qed

section \<open>Reads\<close>

lemma orders_distinct: "store_world lib m loaded \<Longrightarrow> distinct (map fst (orders m))"
proof (induction rule: store_world.induct)
  case (create m loaded cmd t st st' now announce r m')
  then show ?case
    by (auto simp: order_Create_def intro!: distinct_update dest!: enqueue_frame split: if_splits prod.splits option.splits)
next
  case (event m loaded st v ev st1 st' announce fillID now r m')
  then show ?case
    by (auto simp: order_Save_def Let_def intro!: distinct_update dest!: enqueue_frame
      split: if_splits prod.splits option.splits sum.splits)
next
  case (mark m loaded st v st' now announce r m')
  then show ?case
    by (auto simp: order_Save_def Let_def intro!: distinct_update dest!: enqueue_frame
      split: if_splits prod.splits option.splits sum.splits)
qed (simp_all add: NewOrderMemory_def)

text \<open>A listing shows exactly the stored orders it is asked for, and a portfolio's newest first.\<close>

lemma listed_iff:
  assumes "store_world lib m loaded"
  shows "set (order_List m) = {st. \<exists>oid v. order_Load m oid = Inr (st, v)}"
    and "parentID \<noteq> [] \<Longrightarrow> set (ListByParent m parentID) = {st \<in> set (order_List m). st_parent_order_id st = parentID}"
    and "statuses \<noteq> [] \<Longrightarrow> set (ListByStatus m statuses) = {st \<in> set (order_List m). st_status st \<in> set statuses}"
proof -
  have "(oid, st, v) \<in> set (orders m) \<longleftrightarrow> order_Load m oid = Inr (st, v)" for oid st v
    using map_of_eq_Some_iff [OF orders_distinct [OF assms], of oid "(st, v)"] by (auto simp: order_Load_def split: option.splits)
  moreover have "set (order_List m) = {st. \<exists>oid v. (oid, st, v) \<in> set (orders m)}" by (force simp: order_List_def)
  ultimately show "set (order_List m) = {st. \<exists>oid v. order_Load m oid = Inr (st, v)}" by simp
qed (auto simp: ListByParent_def ListByStatus_def)


section \<open>Samples\<close>

text \<open>A codec under which every announcement of a fill carries one unit of the sample order.\<close>

definition sample_order_codec :: order_codec where
  "sample_order_codec = \<lparr>oc_fill = \<lparr>fl_sha256 = id, fl_MarshalKey = concat, fl_MarshalFill = (\<lambda>_. None), fl_UnmarshalFill = (\<lambda>_. None),
       fl_strings = \<lparr>TrimSpace = id, ToLower = id\<rparr>\<rparr>,
     oc_UnmarshalFilled = (\<lambda>_. Some (Some (sample_fill 1 0))), oc_UnmarshalPartiallyFilled = (\<lambda>_. Some (Some (sample_fill 1 0))),
     oc_UnmarshalRecovered = (\<lambda>_. None)\<rparr>"

definition fill_record :: Record where
  "fill_record = sample_record\<lparr>EventType := SubjectPartiallyFilled\<rparr>"

definition folded_state :: OrderState where
  "folded_state = (case ApplyFill (initial_state sample_order 5) (sample_fill 1 0) 6 of Inr st \<Rightarrow> st)"

definition created_store :: OrderMemory where
  "created_store = snd (order_Create 5 (initial_state sample_order 5) [] NewOrderMemory)"

definition folded_store :: OrderMemory where
  "folded_store = snd (order_Save sample_order_codec 6 folded_state 0 [fill_record] ''f'' created_store)"

lemma sample_folds:
  "ApplyFill (initial_state sample_order 5) (sample_fill 1 0) 6 = Inr folded_state"
  "order_Load created_store ''o1'' = Inr (initial_state sample_order 5, 0)"
  "fst (order_Create 5 (initial_state sample_order 5) [] NewOrderMemory) = None"
  "fst (order_Save sample_order_codec 6 folded_state 0 [fill_record] ''f'' created_store) = None"
  "announcedExecution sample_order_codec ''o1'' ''f'' [fill_record] = Inr (Some (sample_fill 1 0))"
  "order_Load folded_store ''o1'' = Inr (folded_state, 1)"
  "claimed folded_store ''o1'' = 1"
  by code_simp+

lemma sample_world: "store_world sample_order_codec created_store {(initial_state sample_order 5, 0)}"
  "store_world sample_order_codec folded_store {(initial_state sample_order 5, 0)}"
proof -
  have "on_grid (FromProto (sub_quantity sample_order))" by code_simp
  then have "store_world sample_order_codec created_store {}"
    using store_world.create [OF store_world.start sample_accept, of "initial_state sample_order 5" 5 "[]" None created_store]
      sample_folds(3) by (simp add: stamped_def created_store_def prod_eq_iff)
  then show w: "store_world sample_order_codec created_store {(initial_state sample_order 5, 0)}"
    using store_world.load sample_folds(2) by fastforce
  have "grid_event (EvFill (sample_fill 1 0) 6)" by code_simp
  moreover have "claims_event sample_order_codec (st_order_id (initial_state sample_order 5)) (EvFill (sample_fill 1 0) 6) [fill_record] ''f''"
    using sample_folds(5) by (simp add: claims_event_def sample_fill_def initial_state_def sample_order_def)
  moreover have "apply_event (initial_state sample_order 5) (EvFill (sample_fill 1 0) 6) = Inr folded_state"
    using sample_folds(1) by (simp add: apply_event_def)
  ultimately show "store_world sample_order_codec folded_store {(initial_state sample_order 5, 0)}"
    using store_world.event [OF w, of "initial_state sample_order 5" 0 "EvFill (sample_fill 1 0) 6" folded_state folded_state
        "[fill_record]" "''f''" 6 None folded_store] sample_folds(4)
    by (simp add: stamped_def folded_store_def prod_eq_iff)
qed


theorem no_lost_update_witness:
  "order_Load created_store ''o1'' = Inr (initial_state sample_order 5, 0) \<and> order_Load folded_store ''o1'' = Inr (folded_state, 1)
   \<and> map rec (rows (om_outbox folded_store)) = map rec (rows (om_outbox created_store)) @ [fill_record]"
proof -
  have ids: "st_order_id folded_state = ''o1''" "st_order_id (initial_state sample_order 5) = ''o1''" by code_simp+
  have "order_Save sample_order_codec 6 folded_state 0 [fill_record] ''f'' created_store = (None, folded_store)"
    using sample_folds(4) by (simp add: folded_store_def prod_eq_iff)
  from no_lost_update [OF sample_world(1) _ _ this, of "initial_state sample_order 5"]
  show ?thesis by (simp add: ids)
qed

text \<open>
  The queue takes the records of a write one by one: a write that is refused for a record without a tenant leaves the
  records before it in the queue, although the order was not created.
\<close>

lemma refused_create_leaves_records:
  "let (r, m) = order_Create 5 (initial_state sample_order 5) [fill_record, fill_record\<lparr>TenantID := []\<rparr>] NewOrderMemory in
     r = Some (Enqueue_failed ''outbox: record with no tenant'') \<and> order_Load m ''o1'' = Inl Order_not_found
     \<and> map rec (rows (om_outbox m)) = [fill_record]"
  by code_simp

end
