(* ===== verification/Schedule_Driver.thy ===== *)
theory Schedule_Driver
  imports Order_Schedule Order_Store Halt_Gate
begin

text \<open>
  The driver of scheduled parents at work (\<open>services/oms/internal/order/schedule_drive.go\<close>) with the admission its
  children pass (\<open>submit\<close> of \<open>service.go\<close> for a command that names a parent, the venue capabilities of
  \<open>internal/execution/router.go\<close>, the observation of \<open>arrival.go\<close>), over the order store.

  \<^item> \<open>submit\<close> reads and writes the store at three separate moments: it looks for the order, it loads the parent, it
    creates the row. They are three definitions, so that anything may happen between them. A command without a parent
    takes the same function through the compliance and approval gates; that path is not modelled here.
  \<^item> What the handler calls and does not return from with more than an error is a field of \<open>Pod\<close>: building the
    \<open>ORDER_ACCEPTED\<close> record, publishing a refusal, \<open>resume\<close> of an order that exists, and the flush and the routing
    after the creation. What these do to stored orders are steps of their own in \<open>driver_world\<close>.
  \<^item> A refusal keeps its code. \<open>InDomainDeep\<close> of a command visits \<open>submit_decimals\<close>.
\<close>

section \<open>Entitlement\<close>

definition PortfolioEntitled :: "string list \<Rightarrow> string \<Rightarrow> bool" where
  "PortfolioEntitled allowed portfolio \<longleftrightarrow> portfolio \<noteq> [] \<and> list_ex (\<lambda>p. p = portfolio) allowed"

definition delegatedIssuerPrefix :: string where
  "delegatedIssuerPrefix = ''user:''"

definition delegatedAndEntitled :: "CommandMetadata option \<Rightarrow> string \<Rightarrow> bool" where
  "delegatedAndEntitled md portfolio =
     (if \<not> HasPrefix (case md of None \<Rightarrow> [] | Some d \<Rightarrow> md_issuer d) delegatedIssuerPrefix then True
      else PortfolioEntitled (case md of None \<Rightarrow> [] | Some d \<Rightarrow> md_principal_portfolios d) portfolio)"

section \<open>What venues can work\<close>

text \<open>A capability that a venue never declared is \<^const>\<open>None\<close>.\<close>

record Venue =
  MIC :: string
  Account :: string
  ve_OrderTypes :: "(OrderType \<Rightarrow> bool) option"
  ve_TimeInForce :: "(TimeInForce \<Rightarrow> bool) option"
  ve_MarginModes :: "(MarginMode \<Rightarrow> bool) option"

definition Supports :: "Venue list \<Rightarrow> string \<Rightarrow> string \<Rightarrow> bool" where
  "Supports venues mic account = list_ex (\<lambda>v. MIC v = mic \<and> (account = [] \<or> Account v = account)) venues"

definition SupportsOrderType :: "Venue list \<Rightarrow> string \<Rightarrow> OrderType \<Rightarrow> bool" where
  "SupportsOrderType venues mic t =
     (case find (\<lambda>v. MIC v = mic) venues of
        None \<Rightarrow> True
      | Some v \<Rightarrow> (case ve_OrderTypes v of None \<Rightarrow> True | Some aware \<Rightarrow> aware t))"

definition SupportsTimeInForce :: "Venue list \<Rightarrow> string \<Rightarrow> TimeInForce \<Rightarrow> bool" where
  "SupportsTimeInForce venues mic t =
     (case find (\<lambda>v. MIC v = mic) venues of
        None \<Rightarrow> True
      | Some v \<Rightarrow> (case ve_TimeInForce v of None \<Rightarrow> True | Some aware \<Rightarrow> aware t))"

definition SupportsMarginMode :: "Venue list \<Rightarrow> string \<Rightarrow> MarginMode \<Rightarrow> bool" where
  "SupportsMarginMode venues mic m =
     (case find (\<lambda>v. MIC v = mic) venues of
        None \<Rightarrow> True
      | Some v \<Rightarrow> (case ve_MarginModes v of None \<Rightarrow> True | Some aware \<Rightarrow> aware m))"

definition venue_refusal :: "Venue list option \<Rightarrow> SubmitOrder \<Rightarrow> string option" where
  "venue_refusal router cmd =
     (let target = sub_venue cmd in
      case router of
        None \<Rightarrow> None
      | Some r \<Rightarrow>
          if target \<noteq> [] \<and> \<not> Supports r target [] then Some ''VENUE_NOT_CONFIGURED''
          else if target \<noteq> [] \<and> \<not> SupportsOrderType r target (sub_order_type cmd) then Some ''ORDER_TYPE_NOT_SUPPORTED''
          else if target \<noteq> [] \<and> \<not> SupportsTimeInForce r target (sub_time_in_force cmd) then Some ''TIME_IN_FORCE_NOT_SUPPORTED''
          else if target \<noteq> [] \<and> \<not> SupportsMarginMode r target (sub_margin_mode cmd) then Some ''MARGIN_MODE_NOT_SUPPORTED''
          else None)"

definition leverage_refusal :: "SubmitOrder \<Rightarrow> string option" where
  "leverage_refusal cmd =
     (if sub_leverage cmd = None then None
      else case FromProtoChecked (sub_leverage cmd) of
        None \<Rightarrow> Some ''LEVERAGE_UNREADABLE''
      | Some r \<Rightarrow>
          if r \<le> 0 then Some ''LEVERAGE_NOT_POSITIVE''
          else if r \<noteq> 1 \<and> sub_margin_mode cmd = MARGIN_MODE_UNSPECIFIED then Some ''LEVERAGE_WITHOUT_MARGIN_MODE''
          else None)"

section \<open>The market at release\<close>

record ArrivalMarks =
  Mark :: "string \<Rightarrow> rat option"
  Lookup :: "string \<Rightarrow> instant option"
  Touch :: "string \<Rightarrow> (rat \<times> rat \<times> instant) option"

record observation =
  ob_mark :: rat
  ob_asOf :: instant
  ob_bid :: "rat option"
  ob_ask :: "rat option"

definition observe :: "ArrivalMarks option \<Rightarrow> string \<Rightarrow> observation option" where
  "observe marks instrument =
     (case marks of
        None \<Rightarrow> None
      | Some am \<Rightarrow>
          if instrument = [] then None
          else case Mark am instrument of
            None \<Rightarrow> None
          | Some price \<Rightarrow>
              let asOf = (case Lookup am instrument of None \<Rightarrow> 0 | Some t \<Rightarrow> t) in
              Some (case Touch am instrument of
                 None \<Rightarrow> \<lparr>ob_mark = price, ob_asOf = asOf, ob_bid = None, ob_ask = None\<rparr>
               | Some (bid, ask, touchAt) \<Rightarrow>
                   \<lparr>ob_mark = price, ob_asOf = (if touchAt \<noteq> 0 \<and> (asOf = 0 \<or> touchAt < asOf) then touchAt else asOf),
                    ob_bid = Some bid, ob_ask = Some ask\<rparr>))"

definition stampRelease :: "observation \<Rightarrow> OrderState \<Rightarrow> OrderState" where
  "stampRelease o' st =
     (case ToProtoScaled (Some (ob_mark o')) of
        None \<Rightarrow> st
      | Some d \<Rightarrow>
          let st1 = st\<lparr>st_release_price := Some d\<rparr>;
              st2 = (if ob_asOf o' \<noteq> 0 then st1\<lparr>st_release_at := Some (ob_asOf o')\<rparr> else st1)
          in case (ob_bid o', ob_ask o') of
            (Some b, Some a) \<Rightarrow>
              (case (ToProtoScaled (Some b), ToProtoScaled (Some a)) of
                 (Some bid, Some ask) \<Rightarrow> st2\<lparr>st_release_bid := Some bid, st_release_ask := Some ask\<rparr>
               | _ \<Rightarrow> st2)
          | _ \<Rightarrow> st2)"

section \<open>Admission of a child\<close>

datatype handler_error = Store_error ostore_error | Handler_error string

record Pod =
  pd_schedule :: ScheduleService
  pd_halted :: "Gate option"
  pd_router :: "Venue list option"
  pd_marks :: "ArrivalMarks option"
  AcceptedFact :: "OrderState \<Rightarrow> string + Record"
  pd_refuse :: "string \<Rightarrow> string \<Rightarrow> handler_error option"
  pd_resume :: "OrderState \<Rightarrow> handler_error option"
  pd_work :: "OrderState \<Rightarrow> handler_error option"

definition submit_decimals :: "SubmitOrder \<Rightarrow> decimal option list" where
  "submit_decimals cmd =
     [sub_quantity cmd, sub_limit_price cmd, sub_stop_price cmd, sub_leverage cmd]
     @ (case sub_execution_schedule cmd of None \<Rightarrow> [] | Some sch \<Rightarrow> schedule_decimals sch)"

text \<open>The handler up to its first look at the store. \<open>Over r\<close> is its return, with the error \<open>r\<close> if there is one.\<close>

datatype arrival = Over "handler_error option" | New_order

definition submit_arrives :: "Pod \<Rightarrow> OrderMemory \<Rightarrow> SubmitOrder \<Rightarrow> arrival" where
  "submit_arrives pod m cmd =
     (if \<not> list_all InDomain (submit_decimals cmd) then Over None
      else if \<not> delegatedAndEntitled (sub_metadata cmd) (sub_portfolio_id cmd) then
        Over (pd_refuse pod (sub_order_id cmd) ''NOT_ENTITLED'')
      else case order_Load m (sub_order_id cmd) of
        Inr (existing, ver) \<Rightarrow>
          if \<not> delegatedAndEntitled (sub_metadata cmd) (st_portfolio_id existing) then
            Over (pd_refuse pod (sub_order_id cmd) ''NOT_ENTITLED'')
          else Over (pd_resume pod existing)
      | Inl e \<Rightarrow> if e = Order_not_found then New_order else Over (Some (Store_error e)))"

definition stored_load :: "OrderMemory \<Rightarrow> string \<Rightarrow> load_result" where
  "stored_load m oid = (case order_Load m oid of Inl e \<Rightarrow> ErrNotFound | Inr (st, ver) \<Rightarrow> Loaded st)"

text \<open>The decision on a new order that names a parent, and the state and record it is to be created with.\<close>

definition child_state :: "Pod \<Rightarrow> OrderState \<Rightarrow> SubmitOrder \<Rightarrow> OrderState \<Rightarrow> OrderState" where
  "child_state pod parent cmd st0 =
     (let st1 = (case observe (pd_marks pod) (st_instrument_id st0) of None \<Rightarrow> st0 | Some o' \<Rightarrow> stampRelease o' st0);
          st2 = st1\<lparr>st_arrival_price := st_arrival_price parent, st_arrival_at := st_arrival_at parent\<rparr>
      in (link_schedule cmd st2)\<lparr>st_venue_account_id := st_venue_account_id parent\<rparr>)"

datatype decision = Returned "handler_error option" | Cleared OrderState Record

definition submit_decides :: "(string \<Rightarrow> string) \<Rightarrow> Pod \<Rightarrow> instant \<Rightarrow> OrderMemory \<Rightarrow> SubmitOrder \<Rightarrow> decision" where
  "submit_decides sha256 pod now m cmd =
     (let refuse = (\<lambda>code. Returned (pd_refuse pod (sub_order_id cmd) code)) in
      case Refusal (pd_halted pod) of
        Some why \<Rightarrow> refuse ''PLATFORM_HALTED''
      | None \<Rightarrow>
          (case validateSchedule (pd_schedule pod) cmd of
             Inl (code, msg) \<Rightarrow> refuse code
           | Inr cmd' \<Rightarrow>
               (case authorizeChild sha256 (pd_schedule pod) (stored_load m) cmd' of
                  Retry e \<Rightarrow> Returned (Some (Handler_error e))
                | Child_refused (code, msg) \<Rightarrow> refuse code
                | Authorized parent \<Rightarrow>
                    (case venue_refusal (pd_router pod) cmd' of
                       Some code \<Rightarrow> refuse code
                     | None \<Rightarrow>
                         (case leverage_refusal cmd' of
                            Some code \<Rightarrow> refuse code
                          | None \<Rightarrow>
                              (case Accept cmd' now of
                                 Inl (Refused re) \<Rightarrow> refuse (Code re)
                               | Inl e \<Rightarrow> Returned (Some (Handler_error ''order not representable''))
                               | Inr st0 \<Rightarrow>
                                   let st = child_state pod parent cmd' st0 in
                                   (case AcceptedFact pod st of
                                      Inl e \<Rightarrow> Returned (Some (Handler_error e))
                                    | Inr announce \<Rightarrow> Cleared (st\<lparr>st_accepted_announced_at := Some now\<rparr>) announce)))))))"

definition submit_creates :: "Pod \<Rightarrow> instant \<Rightarrow> OrderState \<Rightarrow> Record \<Rightarrow> OrderMemory \<Rightarrow> handler_error option \<times> OrderMemory" where
  "submit_creates pod now st announce m =
     (case order_Create now st [announce] m of
        (None, m') \<Rightarrow> (pd_work pod st, m')
      | (Some e, m') \<Rightarrow> (if e = Order_exists then None else Some (Store_error e), m'))"

text \<open>The handler when nothing happens to the store between its steps.\<close>

definition handleSubmit_child :: "(string \<Rightarrow> string) \<Rightarrow> Pod \<Rightarrow> instant \<Rightarrow> OrderMemory \<Rightarrow> SubmitOrder \<Rightarrow> handler_error option \<times> OrderMemory" where
  "handleSubmit_child sha256 pod now m cmd =
     (case submit_arrives pod m cmd of
        Over r \<Rightarrow> (r, m)
      | New_order \<Rightarrow>
          (case submit_decides sha256 pod now m cmd of
             Returned r \<Rightarrow> (r, m)
           | Cleared st announce \<Rightarrow> submit_creates pod now st announce m))"

section \<open>A pass of the driver\<close>


definition venueMayBeWorking :: "OrderState \<Rightarrow> bool" where
  "venueMayBeWorking st \<longleftrightarrow> st_status st = ORDER_STATUS_ROUTED \<or> st_status st = ORDER_STATUS_PARTIALLY_FILLED
     \<or> st_status st = ORDER_STATUS_WORKING_SCHEDULED"

section \<open>Drivers, callers and venues at once\<close>

text \<open>
  Any number of drivers on any pods, any commands from anyone, and every change of a stored order, in any interleaving:
  no lock orders them. A driver lists the working parents, later reads the children of one, computes what is due and
  sends it one command at a time; every command is submitted by the three steps of the handler; a handler that returns an
  error ends the pass, and a driver or a handler may stop for good at any point (a crash), which is a step that is never
  taken. Stored orders move by the transitions of the aggregate, an amendment only where \<open>handleAmend\<close> allows it, and
  may have their markers set. Orders that name no parent come and go on their own. \<open>made\<close> keeps the states that were
  created, as they were created.
\<close>

definition same_terms :: "OrderState \<Rightarrow> OrderState \<Rightarrow> bool" where
  "same_terms st st' \<longleftrightarrow> st_order_id st' = st_order_id st \<and> st_portfolio_id st' = st_portfolio_id st
     \<and> st_instrument_id st' = st_instrument_id st \<and> st_side st' = st_side st
     \<and> st_ordered_quantity st' = st_ordered_quantity st \<and> st_execution_schedule st' = st_execution_schedule st
     \<and> st_parent_order_id st' = st_parent_order_id st \<and> st_venue st' = st_venue st"

definition only_marked :: "OrderState \<Rightarrow> OrderState \<Rightarrow> bool" where
  "only_marked st st' \<longleftrightarrow> same_terms st st' \<and> st_status st' = st_status st"

datatype phase = Arriving | Deciding | Creating OrderState Record

datatype task = Listed Pod OrderState | Sending Pod "SubmitOrder option list" phase

definition store_keyed :: "OrderMemory \<Rightarrow> bool" where
  "store_keyed m \<longleftrightarrow> distinct (map fst (orders m)) \<and> (\<forall>oid st v. order_Load m oid = Inr (st, v) \<longrightarrow> st_order_id st = oid)"

definition names_parent :: "OrderMemory \<Rightarrow> string \<Rightarrow> string \<Rightarrow> bool" where
  "names_parent m pid oid \<longleftrightarrow> (\<exists>st v. order_Load m oid = Inr (st, v) \<and> st_parent_order_id st = pid)"

inductive driver_world :: "(string \<Rightarrow> string) \<Rightarrow> order_codec \<Rightarrow> OrderState \<Rightarrow> OrderMemory \<Rightarrow> task set \<Rightarrow> OrderState list \<Rightarrow> bool"
  for sha256 lib parent where
  start: "store_keyed m \<Longrightarrow> order_Load m (st_order_id parent) = Inr (parent, v) \<Longrightarrow>
    st_status parent = ORDER_STATUS_WORKING_SCHEDULED \<Longrightarrow> UsableParentID (st_order_id parent) = None \<Longrightarrow>
    \<forall>oid. \<not> names_parent m (st_order_id parent) oid \<Longrightarrow> driver_world sha256 lib parent m {} []"
| tick: "driver_world sha256 lib parent m T made \<Longrightarrow> p \<in> set (ListByStatus m [ORDER_STATUS_WORKING_SCHEDULED]) \<Longrightarrow>
    st_quarantine p = None \<Longrightarrow> driver_world sha256 lib parent m (insert (Listed pod p) T) made"
| read: "driver_world sha256 lib parent m T made \<Longrightarrow> Listed pod p \<in> T \<Longrightarrow>
    drive_due sha256 (pd_schedule pod) p (ListByParent m (st_order_id p)) now = Inr ds \<Longrightarrow>
    driver_world sha256 lib parent m (insert (Sending pod (map (child_command p) ds) Arriving) T) made"
| command: "driver_world sha256 lib parent m T made \<Longrightarrow> sub_parent_order_id cmd \<noteq> [] \<Longrightarrow>
    driver_world sha256 lib parent m (insert (Sending pod [Some cmd] Arriving) T) made"
| arrives: "driver_world sha256 lib parent m T made \<Longrightarrow> Sending pod (Some cmd # cs) Arriving \<in> T \<Longrightarrow>
    submit_arrives pod m cmd = New_order \<Longrightarrow>
    driver_world sha256 lib parent m (insert (Sending pod (Some cmd # cs) Deciding) T) made"
| turned_away: "driver_world sha256 lib parent m T made \<Longrightarrow> Sending pod (Some cmd # cs) Arriving \<in> T \<Longrightarrow>
    submit_arrives pod m cmd = Over None \<Longrightarrow>
    driver_world sha256 lib parent m (insert (Sending pod cs Arriving) T) made"
| clears: "driver_world sha256 lib parent m T made \<Longrightarrow> Sending pod (Some cmd # cs) Deciding \<in> T \<Longrightarrow>
    submit_decides sha256 pod now m cmd = Cleared st announce \<Longrightarrow>
    driver_world sha256 lib parent m (insert (Sending pod (Some cmd # cs) (Creating st announce)) T) made"
| refuses: "driver_world sha256 lib parent m T made \<Longrightarrow> Sending pod (Some cmd # cs) Deciding \<in> T \<Longrightarrow>
    submit_decides sha256 pod now m cmd = Returned None \<Longrightarrow>
    driver_world sha256 lib parent m (insert (Sending pod cs Arriving) T) made"
| creates: "driver_world sha256 lib parent m T made \<Longrightarrow> Sending pod (c # cs) (Creating st announce) \<in> T \<Longrightarrow>
    order_Create now st [announce] m = (None, m') \<Longrightarrow>
    driver_world sha256 lib parent m' (insert (Sending pod cs Arriving) T) (made @ [st])"
| not_created: "driver_world sha256 lib parent m T made \<Longrightarrow> Sending pod (c # cs) (Creating st announce) \<in> T \<Longrightarrow>
    order_Create now st [announce] m = (Some e, m') \<Longrightarrow>
    driver_world sha256 lib parent m' (if e = Order_exists then insert (Sending pod cs Arriving) T else T) made"
| other: "driver_world sha256 lib parent m T made \<Longrightarrow> st_parent_order_id st = [] \<Longrightarrow>
    order_Create now st announces m = (r, m') \<Longrightarrow> driver_world sha256 lib parent m' T made"
| moves: "driver_world sha256 lib parent m T made \<Longrightarrow> order_Load m oid = Inr (st, v) \<Longrightarrow> apply_event st ev = Inr st1 \<Longrightarrow>
    (\<forall>a t. ev = EvAmend a t \<longrightarrow> \<not> venueMayBeWorking st) \<Longrightarrow> only_marked st1 st' \<Longrightarrow>
    order_Save lib now st' v announces fillID m = (r, m') \<Longrightarrow> driver_world sha256 lib parent m' T made"
| marks: "driver_world sha256 lib parent m T made \<Longrightarrow> order_Load m oid = Inr (st, v) \<Longrightarrow> only_marked st st' \<Longrightarrow>
    order_Save lib now st' v announces [] m = (r, m') \<Longrightarrow> driver_world sha256 lib parent m' T made"


section \<open>What every interleaving keeps\<close>

lemma same_terms_refl [simp]: "same_terms st st"
  by (simp add: same_terms_def)






lemma Load_iff: "order_Load m oid = Inr (st, v) \<longleftrightarrow> map_of (orders m) oid = Some (st, v)"
  by (auto simp: order_Load_def split: option.splits)

lemma stampRelease_frame [simp]:
  "st_order_id (stampRelease o' st) = st_order_id st" "st_ordered_quantity (stampRelease o' st) = st_ordered_quantity st"
  by (simp_all add: stampRelease_def Let_def split: option.splits)

lemma child_state_frame [simp]:
  "st_order_id (child_state pod parent cmd st) = st_order_id st"
  "st_ordered_quantity (child_state pod parent cmd st) = st_ordered_quantity st"
  "st_parent_order_id (child_state pod parent cmd st) = sub_parent_order_id cmd"
  by (simp_all add: child_state_def link_schedule_def Let_def split: option.splits)





lemma validateSchedule_terms:
  assumes "validateSchedule s cmd = Inr cmd'"
  shows "sub_parent_order_id cmd' = sub_parent_order_id cmd \<and> sub_order_id cmd' = sub_order_id cmd
    \<and> sub_quantity cmd' = sub_quantity cmd"
proof (cases "sub_execution_schedule cmd")
  case None
  then show ?thesis using assms by (simp add: validateSchedule_def)
next
  case (Some sch)
  obtain v w where "cmd' = cmd\<lparr>sub_execution_schedule := Some (sch\<lparr>es_volume_profile_version := v, es_volume_profile := w\<rparr>)\<rparr>"
    by (rule validateSchedule_keeps [OF assms Some])
  then show ?thesis by simp
qed




text \<open>What a write does to the orders, whichever it is.\<close>

lemma Create_writes:
  assumes "order_Create now st announces m = (r, m')"
  shows "r \<noteq> None \<Longrightarrow> orders m' = orders m"
    and "r = None \<Longrightarrow> st_order_id st \<noteq> [] \<and> order_Load m (st_order_id st) = Inl Order_not_found"
    and "r = None \<Longrightarrow> order_Load m' oid = (if oid = st_order_id st then Inr (st, 0) else order_Load m oid)"
    and "distinct (map fst (orders m)) \<Longrightarrow> distinct (map fst (orders m'))"
proof -
  show "orders m' = orders m" if "r \<noteq> None" using Create_frame(2) [OF assms that] .
  show "st_order_id st \<noteq> [] \<and> order_Load m (st_order_id st) = Inl Order_not_found" if "r = None"
    using Create_frame(3) [OF assms that] assms that by (auto simp: order_Load_def order_Create_def)
  show "order_Load m' oid = (if oid = st_order_id st then Inr (st, 0) else order_Load m oid)" if "r = None"
    using Create_frame(3) [OF assms that] by (simp add: order_Load_def)
  show "distinct (map fst (orders m'))" if "distinct (map fst (orders m))"
    using assms that
    by (auto simp: order_Create_def intro!: distinct_update dest!: enqueue_frame split: if_splits prod.splits option.splits)
qed










section \<open>A pass that nothing disturbs\<close>




lemma child_command_terms:
  assumes "child_command p c = Some cmd"
  shows "sub_order_id cmd = ch_OrderID c" "sub_parent_order_id cmd = ch_ParentID c" "sub_portfolio_id cmd = st_portfolio_id p"
    "sub_instrument_id cmd = st_instrument_id p" "sub_side cmd = st_side p" "sub_execution_schedule cmd = None"
    "delegatedAndEntitled (sub_metadata cmd) portfolio"
  using assms
  by (auto simp: child_command_def submitFromState_def Let_def delegatedAndEntitled_def delegatedIssuerPrefix_def ScheduleIssuer_def
    HasPrefix_def split: option.splits)






section \<open>The driver works its parent exactly\<close>





section \<open>Samples\<close>

definition sample_pod :: Pod where
  "sample_pod = \<lparr>pd_schedule = sample_service, pd_halted = Some (OpenGate 1), pd_router = None, pd_marks = None,
     AcceptedFact = (\<lambda>_. Inr sample_record), pd_refuse = (\<lambda>_ _. None), pd_resume = (\<lambda>_. None), pd_work = (\<lambda>_. None)\<rparr>"

definition parent_store :: OrderMemory where
  "parent_store = snd (order_Create 5 (sample_parent 10 4) [] NewOrderMemory)"

definition first_state :: OrderState where
  "first_state = (case submit_decides rev sample_pod 1000000000 parent_store sample_command of
     Cleared st announce \<Rightarrow> st | Returned r \<Rightarrow> sample_parent 10 4)"

definition first_store :: OrderMemory where
  "first_store = snd (order_Create 1000000000 first_state [sample_record] parent_store)"

lemma sample_pass:
  "order_Load parent_store ''p1'' = Inr (sample_parent 10 4, 0)"
  "ListByParent parent_store ''p1'' = []"
  "submit_arrives sample_pod parent_store sample_command = New_order"
  "fst (order_Create 1000000000 first_state [sample_record] parent_store) = None"
  "order_Load first_store ''p1'' = Inr (sample_parent 10 4, 0)"
  by code_simp+

lemma sample_cleared: "submit_decides rev sample_pod 1000000000 parent_store sample_command = Cleared first_state sample_record"
  by code_simp

lemma sample_keyed: "store_keyed parent_store" "\<not> names_parent parent_store ''p1'' oid"
proof -
  have o: "orders parent_store = [(''p1'', sample_parent 10 4, 0)]" by code_simp
  have "st_order_id (sample_parent 10 4) = ''p1''" "st_parent_order_id (sample_parent 10 4) = []" by code_simp+
  then show "store_keyed parent_store" "\<not> names_parent parent_store ''p1'' oid"
    by (simp_all add: store_keyed_def names_parent_def Load_iff o)
qed

lemma sample_parent_terms:
  "st_order_id (sample_parent 10 4) = ''p1''" "st_status (sample_parent 10 4) = ORDER_STATUS_WORKING_SCHEDULED"
  "UsableParentID ''p1'' = None" "st_quarantine (sample_parent 10 4) = None"
  "sample_parent 10 4 \<in> set (ListByStatus parent_store [ORDER_STATUS_WORKING_SCHEDULED])"
  by code_simp+

lemma sample_commands: "map (child_command (sample_parent 10 4)) (take 1 sample_children) = [Some sample_command]"
proof -
  have "take 1 sample_children = [hd sample_children]" by (simp add: sample_children_def sample_slices_def)
  then show ?thesis by (simp add: sample_command)
qed

text \<open>A first pass: the driver has decided on the first slice, and then creates it.\<close>

lemma sample_deciding:
  "\<exists>T. driver_world rev sample_order_codec (sample_parent 10 4) parent_store T []
     \<and> Sending sample_pod [Some sample_command] (Creating first_state sample_record) \<in> T"
proof -
  note t = sample_parent_terms
  have w0: "driver_world rev sample_order_codec (sample_parent 10 4) parent_store {} []"
    by (rule driver_world.start [where v = 0]) (use sample_keyed sample_pass(1) t in simp_all)
  note w1 = driver_world.tick [OF w0 t(5,4), of sample_pod]
  have "drive_due rev (pd_schedule sample_pod) (sample_parent 10 4) (ListByParent parent_store (st_order_id (sample_parent 10 4)))
      1000000000 = Inr (take 1 sample_children)"
    using sample_due by (simp add: t sample_pass(2) sample_pod_def)
  note w2 = driver_world.read [OF w1 insertI1 this, unfolded sample_commands]
  note w3 = driver_world.arrives [OF w2 insertI1 sample_pass(3)]
  note w4 = driver_world.clears [OF w3 insertI1 sample_cleared]
  then show ?thesis by blast
qed








text \<open>
  The id of a slice is a function of the parent's id, and an order may be submitted under any id. Once another order has
  it, the driver's command is taken for a redelivery of that order in every pass: it creates nothing, and if \<open>resume\<close>
  returns no error the pass counts it as sent.
\<close>

lemma taken_id_blocks_slice:
  assumes "child_command p c = Some cmd" and "list_all InDomain (submit_decimals cmd)"
    and "order_Load m (ch_OrderID c) = Inr (st, v)"
  shows "handleSubmit_child sha256 pod now m cmd = (pd_resume pod st, m)"
  using child_command_terms [OF assms(1)] assms(2,3) by (simp add: handleSubmit_child_def submit_arrives_def)

text \<open>
  Stopping a parent does not stop a child that admission has cleared and not yet created: between the two, nothing is
  held on the parent. Here the parent is cancelled while the first slice is in flight; the slice is then created, with
  its parent cancelled.
\<close>

definition cancelled_store :: OrderMemory where
  "cancelled_store = snd (order_Save sample_order_codec 7 ((sample_parent 10 4)\<lparr>st_status := ORDER_STATUS_CANCELLED, st_as_of := Some 7\<rparr>) 0 [] []
     parent_store)"

lemma sample_cancelled:
  "fst (order_Save sample_order_codec 7 ((sample_parent 10 4)\<lparr>st_status := ORDER_STATUS_CANCELLED, st_as_of := Some 7\<rparr>) 0 [] [] parent_store) = None"
  "order_Load cancelled_store ''p1'' = Inr ((sample_parent 10 4)\<lparr>st_status := ORDER_STATUS_CANCELLED, st_as_of := Some 7\<rparr>, 1)"
  "fst (order_Create 8 first_state [sample_record] cancelled_store) = None"
  by code_simp+

lemma child_outlives_cancelled_parent:
  "\<exists>T T' m' st v. driver_world rev sample_order_codec (sample_parent 10 4) cancelled_store T []
     \<and> order_Load cancelled_store ''p1'' = Inr (st, v) \<and> st_status st = ORDER_STATUS_CANCELLED
     \<and> driver_world rev sample_order_codec (sample_parent 10 4) m' T' [first_state]
     \<and> order_Load m' (st_order_id first_state) = Inr (first_state, 0)"
proof -
  obtain T where T: "driver_world rev sample_order_codec (sample_parent 10 4) parent_store T []"
      "Sending sample_pod [Some sample_command] (Creating first_state sample_record) \<in> T"
    using sample_deciding by blast
  define st where "st = (sample_parent 10 4)\<lparr>st_status := ORDER_STATUS_CANCELLED, st_as_of := Some 7\<rparr>"
  have cancel: "apply_event (sample_parent 10 4) (EvCancel 7) = Inr st"
    using sample_parent_terms by (simp add: apply_event_def Cancel_def IsTerminal_def st_def)
  have "order_Save sample_order_codec 7 st 0 [] [] parent_store = (None, cancelled_store)"
    using sample_cancelled(1) by (simp add: st_def cancelled_store_def prod_eq_iff)
  then have w: "driver_world rev sample_order_codec (sample_parent 10 4) cancelled_store T []"
    using driver_world.moves [OF T(1) sample_pass(1) cancel, of st] by (simp add: only_marked_def)
  obtain m' where m': "order_Create 8 first_state [sample_record] cancelled_store = (None, m')"
    using sample_cancelled(3) by (cases "order_Create 8 first_state [sample_record] cancelled_store") simp
  show ?thesis
    using w driver_world.creates [OF w T(2) m'] Create_writes(3) [OF m' refl] sample_cancelled(2)
    by (intro exI [of _ T] exI [of _ "insert (Sending sample_pod [] Arriving) T"] exI [of _ m'] exI [of _ st] exI [of _ 1])
      (simp add: st_def)
qed

end
