(* ===== verification/Spec2Isabelle.thy ===== *)
theory Spec2Isabelle
  imports Decimal Cost_Basis Order_Aggregate Halt_Gate Dual_Control Audit_Chain Outbox_Relay Ledger_Store Compliance_Gate
    Order_Schedule Order_Store Schedule_Driver
begin

text \<open>
  A verification of the core of kanz, an institutional trading platform written in Go (the module under
  \<open>src/kanz\<close>). This theory is the root: it imports every component and documents the development.

  \<^bold>\<open>The program.\<close> An order enters the order-management service, passes the platform kill-switch and the
  pre-trade compliance gate, becomes an aggregate that moves through its life cycle, and is worked at venues. A large
  order may be a parent that is worked as a schedule of child orders against a published volume curve. Each
  change is an event: it is written to a transactional outbox and relayed to the bus in order. Fills reach the
  accounting service, which validates each fill fact, journals it as a double entry and folds the journal into the
  investment book of record. Sensitive changes (mandates, fee corrections) need two people, and decisions are kept in
  a tamper-evident audit chain. Every quantity is an exact decimal.

  \<^bold>\<open>The theories and the code they model\<close>, from the bottom up (paths under \<open>src/kanz\<close>):
  \<^item> \<open>Kanz_Prelude\<close>: words read as Go integers, powers of ten, instants and protobuf timestamps; three locales for
    components that take events one at a time (\<open>event_invariant\<close>, \<open>terminal_machine\<close>, \<open>event_sum\<close>).
  \<^item> \<open>Go_Lib\<close>: the parts of Go's library that the code relies on (hexadecimal, big-endian, decimal and rational numerals,
    civil dates, \<open>strings\<close>).
  \<^item> \<open>Decimal\<close>: \<open>internal/dec\<close> over the wire type \<open>common.v1.Decimal\<close>, an \<open>int64\<close> coefficient and an \<open>int32\<close>
    exponent, kept at their widths. Comparison is exact, sums and products are exact or rounded in their last place
    or refused, conversions round by at most one unit.
  \<^item> \<open>Cost_Basis\<close>: \<open>internal/costbasis\<close>, the weighted-average cost of a position. Locale \<open>cost_fold\<close>: what any such
    fold gives over a history of trades; interpreted on \<open>Fold\<close>.
  \<^item> \<open>Order_Aggregate\<close>: \<open>services/oms/internal/order/aggregate.go\<close>, the order state machine as functions and as the
    step relation \<open>order_step\<close>; the prelude's locales are interpreted on it.
  \<^item> \<open>Order_Store\<close>: \<open>services/oms/internal/order/store.go\<close>, the versioned store with its fill claims, the executions an
    announcement carries, and the relation \<open>store_world\<close> of all interleavings of its clients.
  \<^item> \<open>Execution_Algo\<close>, \<open>Market_View\<close>: \<open>internal/execution/algo\<close> and \<open>marketview\<close>, the algorithms TWAP, VWAP and POV and
    the volume a curve expects in an interval.
  \<^item> \<open>Pit_Store\<close>, \<open>Volume_Feed\<close>: \<open>internal/pit\<close> and \<open>internal/volprofilefeed\<close>, retained versions of a value and the
    registry of published curves, each under a version that its content determines.
  \<^item> \<open>Order_Schedule\<close>: \<open>internal/orderid\<close>, \<open>services/oms/internal/schedule\<close> and \<open>order/schedule*.go\<close>: admission of a
    schedule, the curve it is pinned to, the children that are due and the authorization of a child.
  \<^item> \<open>Schedule_Driver\<close>: \<open>order/schedule_drive.go\<close> and, for a command that names a parent, \<open>submit\<close> of \<open>order/service.go\<close>,
    with the capabilities of \<open>internal/execution/router.go\<close> and the observation of \<open>arrival.go\<close>; the relation
    \<open>driver_world\<close> of all interleavings of drivers, callers and changes of stored orders.
  \<^item> \<open>Halt_Gate\<close>: \<open>internal/platform/halt\<close>, the kill-switch.
  \<^item> \<open>Dual_Control\<close>: \<open>internal/dualcontrol\<close>, proposals and approvals bound to a payload digest.
  \<^item> \<open>Audit_Chain\<close>: \<open>internal/audit/chain\<close>, the hash chain and its verifier.
  \<^item> \<open>Outbox_Record\<close>, \<open>Outbox_Relay\<close>: \<open>internal/outbox\<close>, capturing an event as a record, the in-process queue and
    the relay, against a broker that may store an event and lose its acknowledgement; \<open>relay_world\<close> is any number of
    workers, one queue or publisher call at a time. Locales \<open>queue_contract\<close> and \<open>reliable_queue\<close> state what the relay needs of a queue; the relay's
    ordering and progress are proved in them and reach the memory queue by interpretation.
  \<^item> \<open>Ledger\<close>, \<open>Fill_Fact\<close>, \<open>Ledger_Store\<close>: \<open>services/accounting/internal/ledger\<close> and \<open>internal/fillfact\<close>: the
    book, replay, settlement and corporate actions; the contract of a fill, its identity and its fee revisions; the
    journal store and checkpoints. Locale \<open>ledger_history\<close>: what a store's history guarantees to a checkpointed
    read; interpreted on the memory store.
  \<^item> \<open>Subject_Token\<close>: \<open>internal/platform/subject\<close>, identities as bus subjects.
  \<^item> \<open>Compliance_Rules\<close>: \<open>internal/compliance\<close> (\<open>engine.go\<close>, \<open>rules.go\<close>, \<open>cashbuffer.go\<close>, \<open>venuemargin.go\<close>), the
    nine mandate rules and the engine. Locale \<open>rule_semantics\<close>: a registry whose rules meet a declarative meaning;
    interpreted on the default registry.
  \<^item> \<open>Mandate_Registry\<close>: \<open>mandate.go\<close>, \<open>mandate_codec.go\<close>, \<open>publisher.go\<close>, \<open>sayonce.go\<close>, \<open>governance.go\<close>. Locale
    \<open>version_sets\<close>: pruning a dated version set never changes a later answer; interpreted on mandates.
  \<^item> \<open>Compliance_Gate\<close>: \<open>gate.go\<close>, \<open>decisions.go\<close>, \<open>equity.go\<close>: projection, decision, record and the equity join.

  \<^bold>\<open>What is shown.\<close> Order quantities are conserved along every history, terminal orders never move
  and identity never changes. The store loses no update and counts every fill once, whatever its clients do
  concurrently. A schedule conserves its parent and is the same on every pod once admitted; a child is admitted
  exactly when it carries its slice. Whatever drivers and callers do at once, the children that exist are distinct
  slices with exactly their quantities, and one undisturbed pass after the window completes a parent whose slices the
  wire carries unrounded. A halted platform reopens only by an operator. Two distinct people, who signed the same
  payload, stand behind every covered act. A record of the audit chain cannot be altered without breaking it. The
  outbox delivers the events of a key in order and at least once, exactly once when no acknowledgement is lost, and
  drains when the bus recovers. The book of record balances, does not depend on the order of replay, reads the same
  from a checkpoint as from the whole journal and never forgets an entry. The compliance engine decides exactly the
  declarative meaning of its rules, a registry answers as the whole history of publications would, no tenant is
  governed by another's mandate, and an admitted order obeys the mandate in force at its instant, over a history that
  does not re-date mandates out of their order: the last composes the gate, the engine and the registry.

  \<^bold>\<open>Conventions.\<close> A nil pointer is \<^const>\<open>None\<close>, an error is the left of a sum,
  and a Go panic is a branch of its own. Text of errors is kept where a caller reads it. Instants are nanoseconds
  since year 1, zero being Go's zero time. Where the code holds a lock for an operation, the operation is one step,
  and interleavings are sequences of operations (\<open>store_world\<close>). Where it holds none across its calls,
  every call is a step of its own (\<open>relay_world\<close>, \<open>driver_world\<close>). All functions are total;
  no definition takes fuel. Bounds are the code's own: 128 fee revisions per fill, depth 64 in the walk over a
  message, 50,000 remembered warnings and half of that kept by a sweep.

  \<^bold>\<open>Parameters.\<close> Code outside the repository is an argument of the definitions that use it: SHA-256, the Unicode tables
  of \<open>strings\<close>, the protobuf and JSON codecs, Go's \<open>%q\<close> quoting, the broker. What a theorem needs of one (a hash
  without a collision between two given inputs, a codec that reads what it wrote) is a hypothesis of that theorem.

  \<^bold>\<open>Not modelled.\<close> The command handlers of the order service (\<open>order/service.go\<close>) but
  for the submission of a child: they call the modelled steps between claims, venue calls and publications; the
  approval gate, proposals and position book of the order service. The processes (\<open>cmd\<close> and
  \<open>services\<close> mains, configuration, gRPC and HTTP servers), the NATS and Kafka transport of
  \<open>pkg/bus\<close>, the Postgres stores (their SQL runs in the database), authentication, the venue adapters and
  their exchange protocols, the risk, optimisation and performance numerics on floating point, market-data ingest, the
  Python and TypeScript trees, generated schema code, tests and infrastructure.
\<close>

end
